(* ===== verification/Prelude.thy ===== *)
theory Prelude
  imports Main "HOL-Library.AList" "HOL-Library.Sublist"
begin

text \<open>
  What every component of the development shares: the exceptions of the Python code as values
  of a sum type, sequencing and \<open>for\<close> loops over that sum, insertion-ordered dictionaries as
  association lists, and the string methods of Python that the tools use. Characters are
  bytes: all names, attribute values and messages the tools handle are ASCII.
\<close>

named_theorems res_simps \<open>unfolding of sequencing in the exception type\<close>
named_theorems dict_simps \<open>lookups after an update of an insertion-ordered dictionary\<close>

section \<open>Exceptions\<close>

text \<open>
  One constructor per exception class that the sources raise or let escape; the classes whose
  message the sources build carry it. \<open>Diverges\<close> is not an exception: it stands for a loop that
  does not end.
\<close>

datatype py_error =
    UserWarning string
  | RuntimeError string
  | PyException string
  | ParseException string
  | AssertionError
  | AttributeError
  | KeyError
  | IndexError
  | TypeError
  | ValueError
  | UnboundLocalError
  | NameError
  | NotImplementedError
  | RecursionError
  | FileNotFoundError
  | CalledProcessError int
  | SystemExit int
  | Diverges

type_synonym 'a res = "py_error + 'a"

text \<open>
  Sequencing is inlined for evaluation, so that the second computation is looked at only once
  the first one has a value.
\<close>

definition rbind :: "'a res \<Rightarrow> ('a \<Rightarrow> 'b res) \<Rightarrow> 'b res" where
  [code_unfold]: "rbind m f = (case m of Inl e \<Rightarrow> Inl e | Inr x \<Rightarrow> f x)"

lemma rbind_simps [simp, res_simps]:
  "rbind (Inl e) f = Inl e"
  "rbind (Inr x) f = f x"
  by (simp_all add: rbind_def)

lemma rbind_eq_Inr [res_simps]: "rbind m f = Inr y \<longleftrightarrow> (\<exists>x. m = Inr x \<and> f x = Inr y)"
  by (cases m) auto

lemma rbind_eq_Inl [res_simps]:
  "rbind m f = Inl e \<longleftrightarrow> m = Inl e \<or> (\<exists>x. m = Inr x \<and> f x = Inl e)"
  by (cases m) auto

lemma rbind_InrE:
  assumes "rbind m f = Inr y" obtains x where "m = Inr x" "f x = Inr y"
  using assms by (auto simp: rbind_eq_Inr)

lemma rbind_assoc: "rbind (rbind m f) g = rbind m (\<lambda>x. rbind (f x) g)"
  by (cases m) auto

lemma rbind_Inr [simp]: "rbind m Inr = m"
  by (cases m) auto

lemma rbind_cong [fundef_cong]:
  "m = m' \<Longrightarrow> (\<And>x. m' = Inr x \<Longrightarrow> f x = g x) \<Longrightarrow> rbind m f = rbind m' g"
  by (cases m') auto

text \<open>A \<open>for\<close> loop whose body updates the state and may raise: the first exception ends it.\<close>

fun for_each :: "('a \<Rightarrow> 's \<Rightarrow> 's res) \<Rightarrow> 'a list \<Rightarrow> 's \<Rightarrow> 's res" where
  "for_each f [] s = Inr s"
| "for_each f (x # xs) s = rbind (f x s) (for_each f xs)"

lemma for_each_append: "for_each f (xs @ ys) s = rbind (for_each f xs s) (for_each f ys)"
  by (induction xs arbitrary: s) (auto simp: rbind_assoc intro: rbind_cong)

lemma for_each_cong [fundef_cong]:
  "xs = ys \<Longrightarrow> s = t \<Longrightarrow> (\<And>x s. x \<in> set ys \<Longrightarrow> f x s = g x s) \<Longrightarrow> for_each f xs s = for_each g ys t"
proof (induction xs arbitrary: s t ys)
  case Nil
  then show ?case by auto
next
  case (Cons x xs)
  have "for_each f xs u = for_each g xs u" for u
    using Cons.IH [of xs u u] Cons.prems by auto
  with Cons.prems show ?case by (auto simp: rbind_def split: sum.splits)
qed

lemma for_each_pure: "for_each (\<lambda>x s. Inr (f x s)) xs s = Inr (fold f xs s)"
  by (induction xs arbitrary: s) auto

text \<open>
  The contract every loop of the registry shares: a reflexive and transitive relation between
  the states before and after, kept by each step, is kept by the whole loop. The components
  interpret it with their own frame relations.
\<close>

locale loop_frame =
  fixes rel :: "'s \<Rightarrow> 's \<Rightarrow> bool"
  assumes rel_refl: "rel s s"
    and rel_trans: "rel s t \<Longrightarrow> rel t u \<Longrightarrow> rel s u"
begin

lemma for_each_rel:
  assumes "for_each f xs s = Inr s'"
    and "\<And>x s s'. x \<in> set xs \<Longrightarrow> f x s = Inr s' \<Longrightarrow> rel s s'"
  shows "rel s s'"
  using assms
proof (induction xs arbitrary: s)
  case Nil
  then show ?case by (auto simp: rel_refl)
next
  case (Cons x xs)
  from Cons.prems(1) obtain t where t: "f x s = Inr t" "for_each f xs t = Inr s'"
    by (auto simp: res_simps)
  from t(1) have "rel s t" using Cons.prems(2) by (metis list.set_intros(1))
  moreover have "rel t s'" by (rule Cons.IH [OF t(2)]) (metis Cons.prems(2) list.set_intros(2))
  ultimately show ?case by (rule rel_trans)
qed

lemma rbind_rel:
  assumes "rbind (f s) g = Inr s'"
    and "\<And>t. f s = Inr t \<Longrightarrow> rel s t"
    and "\<And>t. f s = Inr t \<Longrightarrow> g t = Inr s' \<Longrightarrow> rel t s'"
  shows "rel s s'"
  using assms by (auto simp: res_simps intro: rel_trans)

end

text \<open>Loops that keep a property of the state, and loops that cannot raise a given exception.\<close>

lemma for_each_inv:
  assumes "for_each f xs s = Inr s'" and "P s"
    and "\<And>x s s'. x \<in> set xs \<Longrightarrow> P s \<Longrightarrow> f x s = Inr s' \<Longrightarrow> P s'"
  shows "P s'"
  using assms
proof (induction xs arbitrary: s)
  case (Cons x xs)
  from Cons.prems(1) obtain t where "f x s = Inr t" "for_each f xs t = Inr s'"
    by (auto simp: res_simps)
  moreover from this(1) have "P t" using Cons.prems(2,3) by auto
  ultimately show ?case using Cons.IH Cons.prems(3) by auto
qed simp

lemma for_each_no_error:
  assumes "P s" and "\<And>x s. x \<in> set xs \<Longrightarrow> P s \<Longrightarrow> f x s \<noteq> Inl e"
    and "\<And>x s s'. x \<in> set xs \<Longrightarrow> P s \<Longrightarrow> f x s = Inr s' \<Longrightarrow> P s'"
  shows "for_each f xs s \<noteq> Inl e"
  using assms
proof (induction xs arbitrary: s)
  case (Cons x xs)
  have "for_each f xs t \<noteq> Inl e" if "f x s = Inr t" for t
  proof (rule Cons.IH)
    show "P t" using Cons.prems(1,3) that by (metis list.set_intros(1))
  qed (use Cons.prems(2,3) in \<open>metis list.set_intros(2)\<close>)+
  then show ?case using Cons.prems(1,2) by (auto simp: res_simps)
qed simp

text \<open>
  A computation that does not raise the exceptions of \<open>E\<close>, and whose value, if it has one,
  satisfies \<open>Q\<close>: a triple that follows the structure of the code.
\<close>

definition outcome :: "py_error set \<Rightarrow> 'a res \<Rightarrow> ('a \<Rightarrow> bool) \<Rightarrow> bool" where
  "outcome E m Q \<longleftrightarrow> (case m of Inl e \<Rightarrow> e \<notin> E | Inr x \<Rightarrow> Q x)"

lemma outcome_simps [simp]:
  "outcome E (Inl e) Q \<longleftrightarrow> e \<notin> E"
  "outcome E (Inr x) Q \<longleftrightarrow> Q x"
  by (simp_all add: outcome_def)

lemma outcome_value: "outcome E m Q \<Longrightarrow> m = Inr x \<Longrightarrow> Q x"
  by simp

lemma outcome_error: "outcome E m Q \<Longrightarrow> e \<in> E \<Longrightarrow> m \<noteq> Inl e"
  by auto

lemma outcome_mono: "outcome E m P \<Longrightarrow> (\<And>x. P x \<Longrightarrow> Q x) \<Longrightarrow> outcome E m Q"
  by (cases m) auto

lemma outcome_bind: "outcome E m P \<Longrightarrow> (\<And>x. P x \<Longrightarrow> outcome E (f x) Q) \<Longrightarrow> outcome E (rbind m f) Q"
  by (cases m) auto

lemma outcome_for_each:
  "(\<And>x s. x \<in> set xs \<Longrightarrow> P s \<Longrightarrow> outcome E (f x s) P) \<Longrightarrow> P s \<Longrightarrow> outcome E (for_each f xs s) P"
  by (induction xs arbitrary: s) (auto intro!: outcome_bind)

section \<open>Dictionaries\<close>

text \<open>
  A Python dictionary keeps insertion order, and the tools iterate over dictionaries, so a
  dictionary is an association list with distinct keys: \<open>d.get(k)\<close> is \<open>map_of d k\<close>,
  \<open>d[k] = v\<close> is \<open>AList.update k v d\<close> (in place for an old key, at the end for a new
  one), and mutating the object stored under \<open>k\<close> is \<open>dict_adjust\<close>.
\<close>

type_synonym ('k, 'v) dict = "('k \<times> 'v) list"

definition wf_dict :: "('k, 'v) dict \<Rightarrow> bool" where
  "wf_dict d \<longleftrightarrow> distinct (map fst d)"

definition dict_adjust :: "'k \<Rightarrow> ('v \<Rightarrow> 'v) \<Rightarrow> ('k, 'v) dict \<Rightarrow> ('k, 'v) dict" where
  "dict_adjust k f d = map (\<lambda>(k', v). (k', if k' = k then f v else v)) d"

lemma map_of_update [simp, dict_simps]: "map_of (AList.update k v d) = (map_of d)(k \<mapsto> v)"
  by (rule update_conv')

lemma map_of_dict_adjust [simp, dict_simps]:
  "map_of (dict_adjust k f d) k' = (if k' = k then map_option f (map_of d k) else map_of d k')"
  by (induction d) (auto simp: dict_adjust_def)

lemma keys_dict_adjust [simp, dict_simps]: "map fst (dict_adjust k f d) = map fst d"
  by (induction d) (auto simp: dict_adjust_def)

lemma wf_dict_adjust [simp]: "wf_dict (dict_adjust k f d) = wf_dict d"
  by (simp add: wf_dict_def)

lemma wf_dict_Nil [simp]: "wf_dict []"
  by (simp add: wf_dict_def)

lemma wf_dict_update [simp]: "wf_dict d \<Longrightarrow> wf_dict (AList.update k v d)"
  by (simp add: wf_dict_def distinct_update)

lemma map_of_eq_None_keys: "map_of d k = None \<longleftrightarrow> k \<notin> set (map fst d)"
  by (induction d) auto

lemma update_old_keys: "k \<in> set (map fst d) \<Longrightarrow> map fst (AList.update k v d) = map fst d"
  by (induction d) auto

lemma keys_update: "set (map fst (AList.update k v d)) = insert k (set (map fst d))"
  by (induction d) auto

lemma update_new: "k \<notin> set (map fst d) \<Longrightarrow> AList.update k v d = d @ [(k, v)]"
  by (induction d) auto

section \<open>Strings\<close>

text \<open>\<open>None\<close> and the empty string are both false in Python.\<close>

fun truthy :: "string option \<Rightarrow> bool" where
  "truthy None = False"
| "truthy (Some s) = (s \<noteq> [])"

lemma truthy_iff: "truthy x \<longleftrightarrow> (\<exists>s. x = Some s \<and> s \<noteq> [])"
  by (cases x) auto

text \<open>\<open>s.split(c)\<close> for a one-character separator, and \<open>sep.join(parts)\<close>.\<close>

fun py_split :: "char \<Rightarrow> string \<Rightarrow> string list" where
  "py_split c [] = [[]]"
| "py_split c (x # xs) =
     (if x = c then [] # py_split c xs
      else (case py_split c xs of [] \<Rightarrow> [[x]] | y # ys \<Rightarrow> (x # y) # ys))"

fun py_join :: "string \<Rightarrow> string list \<Rightarrow> string" where
  "py_join sep [] = []"
| "py_join sep [x] = x"
| "py_join sep (x # y # ys) = x @ sep @ py_join sep (y # ys)"

lemma py_split_not_Nil [simp]: "py_split c s \<noteq> []"
  by (induction s) (auto split: list.splits)

lemma py_join_Cons: "ys \<noteq> [] \<Longrightarrow> py_join sep (x # ys) = x @ sep @ py_join sep ys"
  by (cases ys) auto

lemma py_join_split [simp]: "py_join [c] (py_split c s) = s"
proof (induction s)
  case (Cons x xs)
  then show ?case
    by (cases "py_split c xs"; cases "tl (py_split c xs)") (auto simp: py_join_Cons)
qed simp

lemma py_split_no_sep: "p \<in> set (py_split c s) \<Longrightarrow> c \<notin> set p"
  by (induction s arbitrary: p) (fastforce split: if_splits list.splits)+

lemma py_split_single: "c \<notin> set s \<Longrightarrow> py_split c s = [s]"
  by (induction s) auto

lemma py_split_append: "c \<notin> set s \<Longrightarrow> py_split c (s @ c # t) = s # py_split c t"
  by (induction s) auto

lemma py_split_join:
  "xs \<noteq> [] \<Longrightarrow> (\<And>x. x \<in> set xs \<Longrightarrow> c \<notin> set x) \<Longrightarrow> py_split c (py_join [c] xs) = xs"
  by (induction "[c]" xs rule: py_join.induct) (auto simp: py_split_single py_split_append)

text \<open>White space as \<open>str.strip\<close> and \<open>str.isspace\<close> take it.\<close>

definition py_isspace :: "char \<Rightarrow> bool" where
  "py_isspace c \<longleftrightarrow> c \<in> {CHR 0x09, CHR 0x0A, CHR 0x0B, CHR 0x0C, CHR 0x0D,
     CHR 0x1C, CHR 0x1D, CHR 0x1E, CHR 0x1F, CHR '' ''}"

definition lstrip :: "string \<Rightarrow> string" where
  "lstrip s = dropWhile py_isspace s"

definition rstrip :: "string \<Rightarrow> string" where
  "rstrip s = rev (dropWhile py_isspace (rev s))"

definition strip :: "string \<Rightarrow> string" where
  "strip s = rstrip (lstrip s)"

definition py_isdigit :: "char \<Rightarrow> bool" where
  "py_isdigit c \<longleftrightarrow> of_char c \<ge> (48::nat) \<and> of_char c \<le> (57::nat)"

definition py_isupper :: "char \<Rightarrow> bool" where
  "py_isupper c \<longleftrightarrow> of_char c \<ge> (65::nat) \<and> of_char c \<le> (90::nat)"

definition py_islower :: "char \<Rightarrow> bool" where
  "py_islower c \<longleftrightarrow> of_char c \<ge> (97::nat) \<and> of_char c \<le> (122::nat)"

definition py_isalpha :: "char \<Rightarrow> bool" where
  "py_isalpha c \<longleftrightarrow> py_isupper c \<or> py_islower c"

definition py_isalnum :: "char \<Rightarrow> bool" where
  "py_isalnum c \<longleftrightarrow> py_isalpha c \<or> py_isdigit c"

definition chr_lower :: "char \<Rightarrow> char" where
  "chr_lower c = (if py_isupper c then char_of (of_char c + (32::nat)) else c)"

definition chr_upper :: "char \<Rightarrow> char" where
  "chr_upper c = (if py_islower c then char_of (of_char c - (32::nat)) else c)"

definition py_lower :: "string \<Rightarrow> string" where
  "py_lower s = map chr_lower s"

definition py_upper :: "string \<Rightarrow> string" where
  "py_upper s = map chr_upper s"

text \<open>\<open>a in b\<close> on strings: \<open>a\<close> occurs in \<open>b\<close> without gaps.\<close>

fun py_in :: "string \<Rightarrow> string \<Rightarrow> bool" where
  "py_in a [] = (a = [])"
| "py_in a (x # b) = (prefix a (x # b) \<or> py_in a b)"

lemma py_in_iff: "py_in a b \<longleftrightarrow> (\<exists>u v. b = u @ a @ v)"
proof (induction b)
  case (Cons x b)
  show ?case
  proof
    assume "py_in a (x # b)"
    then consider "prefix a (x # b)" | "py_in a b" by auto
    then show "\<exists>u v. x # b = u @ a @ v"
    proof cases
      case 1
      then show ?thesis by (metis append_Nil prefixE)
    next
      case 2
      then obtain u v where "b = u @ a @ v" using Cons.IH by blast
      then have "x # b = (x # u) @ a @ v" by simp
      then show ?thesis by blast
    qed
  next
    assume "\<exists>u v. x # b = u @ a @ v"
    then obtain u v where uv: "x # b = u @ a @ v" by blast
    show "py_in a (x # b)"
    proof (cases u)
      case Nil
      with uv have "prefix a (x # b)" by (simp add: prefix_def)
      then show ?thesis by simp
    next
      case (Cons y w)
      with uv have "b = w @ a @ v" by simp
      then show ?thesis using Cons.IH by auto
    qed
  qed
qed simp

end
