(* ===== verification/XmlStore.thy ===== *)
theory XmlStore
  imports Prelude
begin

text \<open>
  The registry document as \<^verbatim>\<open>xml.etree.ElementTree\<close> keeps it. Elements are mutable objects that
  the tree, the dictionaries of the registry and the generators all point to, so they live in a
  store: a list of nodes, an element being an index into it. A new element goes to the end, so
  the children of an element always have larger addresses than the element itself
  (\<open>wf_store\<close>), which is also why walking down the tree ends.
\<close>

named_theorems store_simps \<open>reading an element after an update of the store\<close>

type_synonym addr = nat

record xnode =
  etag :: string
  eattrib :: "(string, string) dict"
  etext :: "string option"
  etail :: "string option"
  echildren :: "addr list"

type_synonym store = "xnode list"

definition no_node :: xnode where
  "no_node = \<lparr>etag = [], eattrib = [], etext = None, etail = None, echildren = []\<rparr>"

definition node :: "store \<Rightarrow> addr \<Rightarrow> xnode" where
  "node st a = (if a < length st then st ! a else no_node)"

section \<open>Reading\<close>

abbreviation elem_tag :: "store \<Rightarrow> addr \<Rightarrow> string" where
  "elem_tag st a \<equiv> etag (node st a)"

abbreviation elem_text :: "store \<Rightarrow> addr \<Rightarrow> string option" where
  "elem_text st a \<equiv> etext (node st a)"

abbreviation elem_tail :: "store \<Rightarrow> addr \<Rightarrow> string option" where
  "elem_tail st a \<equiv> etail (node st a)"

abbreviation elem_children :: "store \<Rightarrow> addr \<Rightarrow> addr list" where
  "elem_children st a \<equiv> echildren (node st a)"

text \<open>\<open>elem.get(k)\<close>, and \<open>elem.get(k, d)\<close>.\<close>

definition elem_get :: "store \<Rightarrow> addr \<Rightarrow> string \<Rightarrow> string option" where
  "elem_get st a k = map_of (eattrib (node st a)) k"

definition elem_get_default :: "store \<Rightarrow> addr \<Rightarrow> string \<Rightarrow> string \<Rightarrow> string" where
  "elem_get_default st a k d = (case elem_get st a k of None \<Rightarrow> d | Some v \<Rightarrow> v)"

definition elem_has :: "store \<Rightarrow> addr \<Rightarrow> string \<Rightarrow> bool" where
  "elem_has st a k \<longleftrightarrow> elem_get st a k \<noteq> None"

text \<open>\<open>parent.findall(tag)\<close> and \<open>parent.find(tag)\<close> look at the children only.\<close>

definition findall :: "store \<Rightarrow> addr \<Rightarrow> string \<Rightarrow> addr list" where
  "findall st a t = filter (\<lambda>c. elem_tag st c = t) (elem_children st a)"

definition first :: "'a list \<Rightarrow> 'a option" where
  "first xs = (case xs of [] \<Rightarrow> None | x # _ \<Rightarrow> Some x)"

definition find_elem :: "store \<Rightarrow> addr \<Rightarrow> string \<Rightarrow> addr option" where
  "find_elem st a t = first (findall st a t)"

text \<open>\<open>findall('t/u')\<close>.\<close>

definition findall2 :: "store \<Rightarrow> addr \<Rightarrow> string \<Rightarrow> string \<Rightarrow> addr list" where
  "findall2 st a t u = concat (map (\<lambda>c. findall st c u) (findall st a t))"

text \<open>\<open>findall("t[@k='v']")\<close>.\<close>

definition findall_attr :: "store \<Rightarrow> addr \<Rightarrow> string \<Rightarrow> string \<Rightarrow> string \<Rightarrow> addr list" where
  "findall_attr st a t k v = filter (\<lambda>c. elem_get st c k = Some v) (findall st a t)"

text \<open>
  Walks of the whole subtree: \<open>findall('.//t')\<close> in document order, without the element itself,
  and \<open>itertext()\<close>. The test \<open>a < c\<close> is what every child of a well-formed store passes.
\<close>

definition down :: "store \<Rightarrow> addr \<Rightarrow> addr list" where
  "down st a = filter (\<lambda>c. a < c \<and> c < length st) (elem_children st a)"

lemma down_less: "c \<in> set (down st a) \<Longrightarrow> a < c \<and> c < length st"
  by (simp add: down_def)

function descendants :: "store \<Rightarrow> addr \<Rightarrow> addr list" where
  "descendants st a = concat (map (\<lambda>c. c # descendants st c) (down st a))"
  by pat_completeness auto
termination
  by (relation "measure (\<lambda>(st, a). length st - a)") (auto dest: down_less)

declare descendants.simps [simp del]

text \<open>Evaluation looks below an element only when it has children.\<close>

lemma descendants_code [code]:
  "descendants st a =
     (if down st a = [] then [] else concat (map (\<lambda>c. c # descendants st c) (down st a)))"
  by (simp add: descendants.simps [of st a])

definition findall_below :: "store \<Rightarrow> addr \<Rightarrow> string \<Rightarrow> addr list" where
  "findall_below st a t = filter (\<lambda>c. elem_tag st c = t) (descendants st a)"

definition opt_text :: "string option \<Rightarrow> string" where
  "opt_text t = (case t of None \<Rightarrow> [] | Some s \<Rightarrow> s)"

function itertext :: "store \<Rightarrow> addr \<Rightarrow> string" where
  "itertext st a = opt_text (elem_text st a) @
     concat (map (\<lambda>c. itertext st c @ opt_text (elem_tail st c)) (down st a))"
  by pat_completeness auto
termination
  by (relation "measure (\<lambda>(st, a). length st - a)") (auto dest: down_less)

declare itertext.simps [simp del]

lemma itertext_code [code]:
  "itertext st a = opt_text (elem_text st a) @
     (if down st a = [] then []
      else concat (map (\<lambda>c. itertext st c @ opt_text (elem_tail st c)) (down st a)))"
  by (simp add: itertext.simps [of st a])

text \<open>\<open>findall("t/name[.='v']/..")\<close> and \<open>findall("t/proto/name[.='v']/../..")\<close>.\<close>

definition findall_named :: "store \<Rightarrow> addr \<Rightarrow> string \<Rightarrow> string \<Rightarrow> addr list" where
  "findall_named st a t v =
     filter (\<lambda>c. \<exists>n \<in> set (findall st c ''name''). itertext st n = v) (findall st a t)"

definition findall_proto_named :: "store \<Rightarrow> addr \<Rightarrow> string \<Rightarrow> string \<Rightarrow> addr list" where
  "findall_proto_named st a t v =
     filter (\<lambda>c. \<exists>n \<in> set (findall2 st c ''proto'' ''name''). itertext st n = v) (findall st a t)"

section \<open>Writing\<close>

definition elem_set :: "store \<Rightarrow> addr \<Rightarrow> string \<Rightarrow> string \<Rightarrow> store" where
  "elem_set st a k v = st[a := (node st a)\<lparr>eattrib := AList.update k v (eattrib (node st a))\<rparr>]"

text \<open>\<open>del elem.attrib[k]\<close>, where the sources have checked that the attribute is there.\<close>

definition elem_del :: "store \<Rightarrow> addr \<Rightarrow> string \<Rightarrow> store" where
  "elem_del st a k = st[a := (node st a)\<lparr>eattrib := AList.delete k (eattrib (node st a))\<rparr>]"

definition elem_set_text :: "store \<Rightarrow> addr \<Rightarrow> string option \<Rightarrow> store" where
  "elem_set_text st a t = st[a := (node st a)\<lparr>etext := t\<rparr>]"

definition elem_append :: "store \<Rightarrow> addr \<Rightarrow> addr \<Rightarrow> store" where
  "elem_append st a c = st[a := (node st a)\<lparr>echildren := elem_children st a @ [c]\<rparr>]"

text \<open>\<open>parent.remove(child)\<close> compares by identity, and raises when the child is not there.\<close>

definition elem_remove :: "store \<Rightarrow> addr \<Rightarrow> addr \<Rightarrow> store res" where
  "elem_remove st a c =
     (if c \<in> set (elem_children st a)
      then Inr (st[a := (node st a)\<lparr>echildren := remove1 c (elem_children st a)\<rparr>])
      else Inl ValueError)"

text \<open>
  A document as a value, how it enters the store (\<open>etree.parse\<close>), and the value of an
  element. \<open>copy.deepcopy(elem)\<close> stores the value of the element a second time.
\<close>

datatype xtree = XTree (xt_tag: string) (xt_attrib: "(string \<times> string) list")
  (xt_text: "string option") (xt_tail: "string option") (xt_children: "xtree list")

fun alloc_tree :: "xtree \<Rightarrow> store \<Rightarrow> addr \<times> store"
  and alloc_trees :: "xtree list \<Rightarrow> store \<Rightarrow> addr list \<times> store" where
  "alloc_tree (XTree t ats tx tt cs) st =
     (let r = alloc_trees cs (st @ [\<lparr>etag = t, eattrib = ats, etext = tx, etail = tt, echildren = []\<rparr>])
      in (length st, (snd r)[length st :=
            \<lparr>etag = t, eattrib = ats, etext = tx, etail = tt, echildren = fst r\<rparr>]))"
| "alloc_trees [] st = ([], st)"
| "alloc_trees (x # xs) st =
     (let r = alloc_tree x st; q = alloc_trees xs (snd r) in (fst r # fst q, snd q))"

function read_tree :: "store \<Rightarrow> addr \<Rightarrow> xtree" where
  "read_tree st a = XTree (elem_tag st a) (eattrib (node st a)) (elem_text st a) (elem_tail st a)
     (map (read_tree st) (down st a))"
  by pat_completeness auto
termination
  by (relation "measure (\<lambda>(st, a). length st - a)") (auto dest: down_less)

declare read_tree.simps [simp del]

lemma read_tree_code [code]:
  "read_tree st a = XTree (elem_tag st a) (eattrib (node st a)) (elem_text st a) (elem_tail st a)
     (if down st a = [] then [] else map (read_tree st) (down st a))"
  by (simp add: read_tree.simps [of st a])

definition deepcopy :: "store \<Rightarrow> addr \<Rightarrow> addr \<times> store" where
  "deepcopy st a = alloc_tree (read_tree st a) st"

section \<open>Reads after writes\<close>

lemma node_list_update [simp, store_simps]:
  "node (st[a := n]) b = (if b = a \<and> a < length st then n else node st b)"
  by (simp add: node_def)

lemma elem_get_set [simp, store_simps]:
  "elem_get (elem_set st a k v) b j =
     (if b = a \<and> j = k \<and> a < length st then Some v else elem_get st b j)"
  by (auto simp: elem_get_def elem_set_def)

lemma elem_set_other [simp, store_simps]:
  "elem_tag (elem_set st a k v) b = elem_tag st b"
  "elem_text (elem_set st a k v) b = elem_text st b"
  "elem_tail (elem_set st a k v) b = elem_tail st b"
  "elem_children (elem_set st a k v) b = elem_children st b"
  "length (elem_set st a k v) = length st"
  by (auto simp: elem_set_def)

lemma elem_append_other [simp, store_simps]:
  "elem_tag (elem_append st a c) b = elem_tag st b"
  "elem_text (elem_append st a c) b = elem_text st b"
  "elem_get (elem_append st a c) b j = elem_get st b j"
  "length (elem_append st a c) = length st"
  by (auto simp: elem_append_def elem_get_def)

lemma elem_children_append [simp, store_simps]:
  "a < length st \<Longrightarrow> elem_children (elem_append st a c) b =
     (if b = a then elem_children st a @ [c] else elem_children st b)"
  by (auto simp: elem_append_def)

lemma elem_remove_other [store_simps]:
  assumes "elem_remove st a c = Inr st'"
  shows "elem_tag st' b = elem_tag st b" "elem_get st' b j = elem_get st b j"
    "elem_text st' b = elem_text st b" "length st' = length st"
  using assms by (auto simp: elem_remove_def elem_get_def split: if_splits)

lemma elem_remove_children [store_simps]:
  assumes "elem_remove st a c = Inr st'"
  shows "elem_children st' b = (if b = a then remove1 c (elem_children st a) else elem_children st b)"
proof (cases "a < length st")
  case True
  with assms show ?thesis by (auto simp: elem_remove_def split: if_splits)
next
  case False
  then have "node st a = no_node" by (simp add: node_def)
  with assms show ?thesis by (auto simp: elem_remove_def no_node_def split: if_splits)
qed

lemma findall_elem_set [simp, store_simps]: "findall (elem_set st a k v) p t = findall st p t"
  by (simp add: findall_def)

lemma descendants_elem_set [simp, store_simps]:
  "descendants (elem_set st a k v) p = descendants st p"
proof (induction st p rule: descendants.induct)
  case (1 st p)
  have "down (elem_set st a k v) p = down st p" by (simp add: down_def)
  then show ?case
    using "1.IH" by (simp add: descendants.simps [of _ p] cong: map_cong)
qed

lemma findall_below_elem_set [simp, store_simps]:
  "findall_below (elem_set st a k v) p t = findall_below st p t"
  by (simp add: findall_below_def)

section \<open>Well-formed stores\<close>

definition wf_store :: "store \<Rightarrow> bool" where
  "wf_store st \<longleftrightarrow> (\<forall>a < length st. \<forall>c \<in> set (echildren (st ! a)). a < c \<and> c < length st)"

lemma wf_storeD:
  assumes "wf_store st" and "c \<in> set (elem_children st a)"
  shows "a < c \<and> c < length st"
proof -
  from assms(2) have a: "a < length st" by (rule contrapos_pp) (simp add: node_def no_node_def)
  with assms(2) have "c \<in> set (echildren (st ! a))" by (simp add: node_def)
  with assms(1) a show ?thesis unfolding wf_store_def by blast
qed

lemma wf_storeI:
  "(\<And>a c. a < length st \<Longrightarrow> c \<in> set (elem_children st a) \<Longrightarrow> a < c \<and> c < length st) \<Longrightarrow> wf_store st"
  unfolding wf_store_def node_def by (metis (full_types))

lemma wf_store_Nil [simp]: "wf_store []"
  by (simp add: wf_store_def)

lemma down_wf [simp]: "wf_store st \<Longrightarrow> down st a = elem_children st a"
  unfolding down_def filter_id_conv by (blast dest: wf_storeD)

lemma wf_elem_set [simp]: "wf_store st \<Longrightarrow> wf_store (elem_set st a k v)"
proof (rule wf_storeI)
  fix b c
  assume "wf_store st" and "c \<in> set (elem_children (elem_set st a k v) b)"
  then show "b < c \<and> c < length (elem_set st a k v)"
    using wf_storeD [of st c b] by simp
qed

lemma wf_elem_append:
  assumes "wf_store st" and "a < c" and "c < length st"
  shows "wf_store (elem_append st a c)"
proof (rule wf_storeI)
  fix b d
  assume b: "b < length (elem_append st a c)" and d: "d \<in> set (elem_children (elem_append st a c) b)"
  have "a < length st" using assms by simp
  with d have "d \<in> set (elem_children st b) \<or> b = a \<and> d = c" by (auto split: if_splits)
  with assms show "b < d \<and> d < length (elem_append st a c)"
    using wf_storeD [of st d b] by auto
qed

lemma in_set_remove1D: "x \<in> set (remove1 y xs) \<Longrightarrow> x \<in> set xs"
  using set_remove1_subset by fastforce

lemma wf_elem_remove:
  assumes "wf_store st" and "elem_remove st a c = Inr st'"
  shows "wf_store st'"
proof (rule wf_storeI)
  fix b d
  assume "d \<in> set (elem_children st' b)"
  then have "d \<in> set (elem_children st b)"
    by (auto simp: elem_remove_children [OF assms(2)] split: if_splits dest: in_set_remove1D)
  then show "b < d \<and> d < length st'"
    using assms wf_storeD elem_remove_other(4) by metis
qed

lemma findall_subset: "set (findall st a t) \<subseteq> set (elem_children st a)"
  by (auto simp: findall_def)

lemma findall_wf: "wf_store st \<Longrightarrow> c \<in> set (findall st a t) \<Longrightarrow> a < c \<and> c < length st"
  using findall_subset wf_storeD by blast

lemma descendants_bound: "c \<in> set (descendants st a) \<Longrightarrow> a < c \<and> c < length st"
proof (induction st a rule: descendants.induct)
  case (1 st a)
  from "1.prems" obtain b where b: "b \<in> set (down st a)" "c = b \<or> c \<in> set (descendants st b)"
    by (subst (asm) descendants.simps) auto
  with "1.IH" [OF b(1)] down_less [OF b(1)] show ?case by auto
qed

section \<open>Copies\<close>

lemma alloc_address:
  "fst (alloc_tree t st) = length st"
  by (cases t) (simp add: Let_def)

lemma alloc_prefix:
  "length st \<le> length (snd (alloc_tree t st)) \<and> take (length st) (snd (alloc_tree t st)) = st
    \<and> length st < length (snd (alloc_tree t st))"
  "length st \<le> length (snd (alloc_trees ts st)) \<and> take (length st) (snd (alloc_trees ts st)) = st"
proof (induction t st and ts st rule: alloc_tree_alloc_trees.induct)
  case (1 t ats tx tt cs st)
  let ?n = "\<lparr>etag = t, eattrib = ats, etext = tx, etail = tt, echildren = []\<rparr>"
  let ?s = "snd (alloc_trees cs (st @ [?n]))"
  have "take (length st) ?s = take (length st) (take (length (st @ [?n])) ?s)"
    by (simp add: min_def)
  also have "\<dots> = st" using "1.IH" by simp
  finally have "take (length st) ?s = st" .
  with "1.IH" show ?case by (simp add: Let_def)
next
  case (3 x xs st)
  let ?s = "snd (alloc_tree x st)"
  let ?q = "snd (alloc_trees xs ?s)"
  note 1 = "3.IH"(1) and 2 = "3.IH"(2) [OF refl]
  have "take (length st) ?q = take (length st) (take (length ?s) ?q)"
    using 1 by (metis min.absorb1 take_take)
  also have "\<dots> = st" using 1 2 by simp
  finally have "take (length st) ?q = st" .
  moreover have "length st \<le> length ?q" using 1 2 by linarith
  ultimately show ?case by (simp add: Let_def)
qed simp

lemma node_take: "take (length st) st' = st \<Longrightarrow> b < length st \<Longrightarrow> node st' b = node st b"
  by (metis length_take min_less_iff_conj node_def nth_take)

lemma node_alloc_old:
  "b < length st \<Longrightarrow> node (snd (alloc_tree t st)) b = node st b"
  "b < length st \<Longrightarrow> node (snd (alloc_trees ts st)) b = node st b"
  using alloc_prefix node_take by blast+

lemma node_deepcopy_old [simp, store_simps]:
  "b < length st \<Longrightarrow> node (snd (deepcopy st a)) b = node st b"
  by (simp add: deepcopy_def node_alloc_old)

lemma fst_deepcopy [simp, store_simps]: "fst (deepcopy st a) = length st"
  by (simp add: deepcopy_def alloc_address)

lemma alloc_trees_addresses:
  "\<forall>a \<in> set (fst (alloc_trees ts st)). length st \<le> a \<and> a < length (snd (alloc_trees ts st))"
proof (induction ts arbitrary: st)
  case (Cons t ts)
  let ?s = "snd (alloc_tree t st)"
  have "length st < length ?s" "length ?s \<le> length (snd (alloc_trees ts ?s))"
    using alloc_prefix by blast+
  with Cons.IH [of ?s] show ?case by (fastforce simp: Let_def alloc_address)
qed simp

lemma wf_alloc:
  "wf_store st \<Longrightarrow> wf_store (snd (alloc_tree t st))"
  "wf_store st \<Longrightarrow> wf_store (snd (alloc_trees ts st))"
proof (induction t st and ts st rule: alloc_tree_alloc_trees.induct)
  case (1 t ats tx tt cs st)
  let ?n = "\<lparr>etag = t, eattrib = ats, etext = tx, etail = tt, echildren = []\<rparr>"
  let ?r = "alloc_trees cs (st @ [?n])"
  have old: "node (st @ [?n]) b = (if b = length st then ?n else node st b)" for b
    by (auto simp: node_def nth_append)
  have "wf_store (st @ [?n])"
  proof (rule wf_storeI)
    fix b c assume "c \<in> set (elem_children (st @ [?n]) b)"
    then have "c \<in> set (elem_children st b)" by (auto simp: old split: if_splits)
    with wf_storeD [OF "1.prems"] show "b < c \<and> c < length (st @ [?n])" by fastforce
  qed
  with "1.IH" have wf: "wf_store (snd ?r)" by simp
  have len: "length st < length (snd ?r)" using alloc_prefix(2) [of "st @ [?n]" cs] by simp
  have new: "\<forall>a \<in> set (fst ?r). length st < a \<and> a < length (snd ?r)"
    using alloc_trees_addresses [of cs "st @ [?n]"] by fastforce
  show ?case
  proof (rule wf_storeI)
    fix b c
    assume "c \<in> set (elem_children (snd (alloc_tree (XTree t ats tx tt cs) st)) b)"
    then consider "b = length st" "c \<in> set (fst ?r)" | "c \<in> set (elem_children (snd ?r) b)"
      by (auto simp: Let_def len split: if_splits)
    then show "b < c \<and> c < length (snd (alloc_tree (XTree t ats tx tt cs) st))"
      using new wf_storeD [OF wf] by cases (simp_all add: Let_def)
  qed
qed (simp_all add: Let_def)

lemma wf_deepcopy [simp]: "wf_store st \<Longrightarrow> wf_store (snd (deepcopy st a))"
  by (simp add: deepcopy_def wf_alloc)

lemma length_deepcopy: "length st < length (snd (deepcopy st a))"
  unfolding deepcopy_def using alloc_prefix by blast

text \<open>The value of an element depends on its subtree only.\<close>

lemma read_tree_cong:
  assumes "wf_store st" and "length st \<le> length st'" and "a < length st"
    and "\<And>b. a \<le> b \<Longrightarrow> b < length st \<Longrightarrow> node st' b = node st b"
  shows "read_tree st' a = read_tree st a"
  using assms
proof (induction st a rule: read_tree.induct)
  case (1 st a)
  have "node st' a = node st a" using "1.prems" by simp
  then have d: "down st' a = down st a"
    using "1.prems"(1,2) unfolding down_def by (auto intro!: filter_cong dest: wf_storeD)
  have "read_tree st' c = read_tree st c" if "c \<in> set (down st a)" for c
    using that "1.IH" [OF that] "1.prems" down_less [OF that] by simp
  then have "map (read_tree st') (down st a) = map (read_tree st) (down st a)" by simp
  with d \<open>node st' a = node st a\<close> show ?case
    by (simp add: read_tree.simps [of st' a] read_tree.simps [of st a])
qed

text \<open>Storing a value and reading it back gives the value: \<open>copy.deepcopy\<close> makes an equal element.\<close>

lemma read_alloc:
  "wf_store st \<Longrightarrow> read_tree (snd (alloc_tree t st)) (length st) = t"
  "wf_store st \<Longrightarrow> map (read_tree (snd (alloc_trees ts st))) (fst (alloc_trees ts st)) = ts"
proof (induction t st and ts st rule: alloc_tree_alloc_trees.induct)
  case (1 t ats tx tt cs st)
  let ?n = "\<lparr>etag = t, eattrib = ats, etext = tx, etail = tt, echildren = []\<rparr>"
  let ?r = "alloc_trees cs (st @ [?n])"
  let ?s = "snd (alloc_tree (XTree t ats tx tt cs) st)"
  have old: "node (st @ [?n]) b = (if b = length st then ?n else node st b)" for b
    by (auto simp: node_def nth_append)
  have wf0: "wf_store (st @ [?n])"
  proof (rule wf_storeI)
    fix b c assume "c \<in> set (elem_children (st @ [?n]) b)"
    then have "c \<in> set (elem_children st b)" by (auto simp: old split: if_splits)
    with wf_storeD [OF "1.prems"] show "b < c \<and> c < length (st @ [?n])" by fastforce
  qed
  have len: "length st < length (snd ?r)" using alloc_prefix(2) [of "st @ [?n]" cs] by simp
  note wf = wf_alloc(2) [OF wf0, of cs] wf_alloc(1) [OF "1.prems", of "XTree t ats tx tt cs"]
  have new: "\<forall>a \<in> set (fst ?r). length st < a \<and> a < length (snd ?r)"
    using alloc_trees_addresses [of cs "st @ [?n]"] by fastforce
  have top: "node ?s (length st) = ?n\<lparr>echildren := fst ?r\<rparr>" using len by (simp add: Let_def)
  have s: "length ?s = length (snd ?r)" "\<And>b. length st < b \<Longrightarrow> node ?s b = node (snd ?r) b"
    by (simp_all add: Let_def)
  have "read_tree ?s c = read_tree (snd ?r) c" if c: "c \<in> set (fst ?r)" for c
  proof (rule read_tree_cong [OF wf(1)])
    from new c have "length st < c" "c < length (snd ?r)" by blast+
    then show "c < length (snd ?r)" by blast
    show "node ?s b = node (snd ?r) b" if "c \<le> b" for b
      using \<open>length st < c\<close> that by (intro s(2)) linarith
    show "length (snd ?r) \<le> length ?s" using s(1) by linarith
  qed
  then have "map (read_tree ?s) (fst ?r) = map (read_tree (snd ?r)) (fst ?r)"
    unfolding map_eq_conv by blast
  also have "\<dots> = cs" using "1.IH" wf0 by blast
  finally have "map (read_tree ?s) (fst ?r) = cs" .
  then show ?case
    by (subst read_tree.simps) (simp only: down_wf [OF wf(2)] top xnode.simps xtree.inject simp_thms)
next
  case (3 x xs st)
  let ?s = "snd (alloc_tree x st)" and ?q = "snd (alloc_trees xs (snd (alloc_tree x st)))"
  have "length st < length ?s" "length ?s \<le> length ?q" using alloc_prefix by blast+
  then have "read_tree ?q (length st) = read_tree ?s (length st)"
    using "3.prems" by (intro read_tree_cong) (auto simp: wf_alloc node_alloc_old)
  with "3" show ?case by (simp add: Let_def alloc_address wf_alloc)
qed simp

lemma read_deepcopy:
  "wf_store st \<Longrightarrow> read_tree (snd (deepcopy st a)) (fst (deepcopy st a)) = read_tree st a"
  by (simp add: deepcopy_def alloc_address read_alloc)

section \<open>What every change of the document keeps\<close>

text \<open>
  No operation of the tools shortens the store or renames an element, and all keep it well
  formed; an element that is removed from the tree stays in the store.
\<close>

definition doc_extends :: "store \<Rightarrow> store \<Rightarrow> bool" where
  "doc_extends st st' \<longleftrightarrow> length st \<le> length st' \<and>
     (\<forall>a n. elem_get st a ''name'' = Some n \<longrightarrow> elem_get st' a ''name'' = Some n)"

definition doc_step :: "store \<Rightarrow> store \<Rightarrow> bool" where
  "doc_step st st' \<longleftrightarrow> doc_extends st st' \<and> (wf_store st \<longrightarrow> wf_store st')"

lemma doc_extends_refl [simp]: "doc_extends st st"
  by (simp add: doc_extends_def)

lemma doc_extends_trans: "doc_extends st st' \<Longrightarrow> doc_extends st' st'' \<Longrightarrow> doc_extends st st''"
  by (auto simp: doc_extends_def)

interpretation doc_frame: loop_frame doc_step
  by unfold_locales (auto simp: doc_step_def intro: doc_extends_trans)

lemma elem_set_extends:
  "k \<noteq> ''name'' \<or> elem_get st a ''name'' = None \<Longrightarrow> doc_extends st (elem_set st a k v)"
  by (auto simp: doc_extends_def)

lemma elem_append_extends: "doc_extends st (elem_append st a c)"
  by (simp add: doc_extends_def)

lemma elem_remove_extends: "elem_remove st a c = Inr st' \<Longrightarrow> doc_extends st st'"
  by (simp add: doc_extends_def elem_remove_other)

lemma node_out: "\<not> a < length st \<Longrightarrow> elem_get st a k = None"
  by (simp add: elem_get_def node_def no_node_def)

lemma deepcopy_extends: "doc_extends st (snd (deepcopy st a))"
  unfolding doc_extends_def
proof (intro conjI allI impI)
  show "length st \<le> length (snd (deepcopy st a))" using length_deepcopy [of st a] by simp
  fix b n
  assume g: "elem_get st b ''name'' = Some n"
  then have "b < length st" using node_out by fastforce
  with g show "elem_get (snd (deepcopy st a)) b ''name'' = Some n"
    by (simp add: elem_get_def node_deepcopy_old)
qed

lemma doc_step_length: "doc_step st st' \<Longrightarrow> length st \<le> length st'"
  by (simp add: doc_step_def doc_extends_def)

lemma doc_step_set: "k \<noteq> ''name'' \<or> elem_get st a ''name'' = None \<Longrightarrow> doc_step st (elem_set st a k v)"
  by (simp add: doc_step_def elem_set_extends)

lemma doc_step_remove: "elem_remove st a c = Inr st' \<Longrightarrow> doc_step st st'"
  by (auto simp: doc_step_def intro: elem_remove_extends wf_elem_remove)

lemma doc_step_deepcopy: "doc_step st (snd (deepcopy st a))"
  by (simp add: doc_step_def deepcopy_extends)

lemma doc_step_append_copy:
  assumes "t < length st"
  shows "doc_step st (elem_append (snd (deepcopy st e)) t (fst (deepcopy st e)))"
  unfolding doc_step_def
proof (intro conjI impI)
  show "doc_extends st (elem_append (snd (deepcopy st e)) t (fst (deepcopy st e)))"
    by (rule doc_extends_trans [OF deepcopy_extends elem_append_extends])
  assume "wf_store st"
  then show "wf_store (elem_append (snd (deepcopy st e)) t (fst (deepcopy st e)))"
    using assms length_deepcopy [of st e] by (intro wf_elem_append) simp_all
qed

lemma wf_store_same:
  "wf_store st \<Longrightarrow> length st' = length st \<Longrightarrow> (\<And>a. elem_children st' a = elem_children st a) \<Longrightarrow> wf_store st'"
  using wf_storeD by (intro wf_storeI) metis

lemma elem_del_other [simp, store_simps]:
  "length (elem_del st a k) = length st"
  "elem_children (elem_del st a k) b = elem_children st b"
  "elem_tag (elem_del st a k) b = elem_tag st b"
  "j \<noteq> k \<Longrightarrow> elem_get (elem_del st a k) b j = elem_get st b j"
  by (auto simp: elem_del_def elem_get_def delete_conv')

lemma elem_set_text_other [simp, store_simps]:
  "length (elem_set_text st a t) = length st"
  "elem_children (elem_set_text st a t) b = elem_children st b"
  "elem_tag (elem_set_text st a t) b = elem_tag st b"
  "elem_get (elem_set_text st a t) b j = elem_get st b j"
  by (auto simp: elem_set_text_def elem_get_def)

lemma wf_elem_del [simp]: "wf_store st \<Longrightarrow> wf_store (elem_del st a k)"
  by (erule wf_store_same) simp_all

lemma wf_elem_set_text [simp]: "wf_store st \<Longrightarrow> wf_store (elem_set_text st a t)"
  by (erule wf_store_same) simp_all

lemma findall2_wf: "wf_store st \<Longrightarrow> c \<in> set (findall2 st a t u) \<Longrightarrow> c < length st"
  using findall_wf by (fastforce simp: findall2_def)

end
