(* ===== verification/Numbers.thy ===== *)
theory Numbers
  imports Prelude Complex_Main
begin

text \<open>
  The number formats the tools read and print: \<open>int(s)\<close>, \<open>int(s, 0)\<close>, \<open>float(s)\<close> for
  decimal literals, \<open>'%d'\<close> and \<open>'0x%08x'\<close>. Python integers are unbounded, so they are
  \<open>int\<close>; a decimal literal read as a float is the rational number it denotes (exponents,
  infinities and not-a-number do not occur in version numbers and are rejected).
\<close>

section \<open>Digits\<close>

definition digit_value :: "char \<Rightarrow> nat option" where
  "digit_value c =
     (if py_isdigit c then Some (of_char c - 48)
      else if py_islower c then Some (of_char c - 87)
      else if py_isupper c then Some (of_char c - 55) else None)"

text \<open>Digits of a base, most significant first; one underscore may stand between two digits.\<close>

fun read_digits :: "nat \<Rightarrow> bool \<Rightarrow> nat \<Rightarrow> string \<Rightarrow> nat option" where
  "read_digits b ok acc [] = (if ok then Some acc else None)"
| "read_digits b ok acc (c # cs) =
     (if c = CHR ''_'' then (if ok then read_digits b False acc cs else None)
      else (case digit_value c of
              None \<Rightarrow> None
            | Some v \<Rightarrow> if v < b then read_digits b True (acc * b + v) cs else None))"

definition signed :: "(string \<Rightarrow> nat option) \<Rightarrow> string \<Rightarrow> int res" where
  "signed rd s =
     (case (case s of
              [] \<Rightarrow> None
            | c # cs \<Rightarrow> if c = CHR ''-'' then map_option (\<lambda>n. - int n) (rd cs)
                       else if c = CHR ''+'' then map_option int (rd cs)
                       else map_option int (rd s)) of
        None \<Rightarrow> Inl ValueError | Some i \<Rightarrow> Inr i)"

definition py_int :: "string \<Rightarrow> int res" where
  "py_int s = signed (read_digits 10 False 0) (strip s)"

text \<open>
  \<open>int(s, 0)\<close> takes the base from the prefix, where one underscore may follow the prefix; a
  decimal literal must not start with a zero unless it is zero.
\<close>

definition read_prefixed :: "string \<Rightarrow> nat option" where
  "read_prefixed s =
     (case s of
        c # p # rest \<Rightarrow>
          if c = CHR ''0'' \<and> p \<in> {CHR ''x'', CHR ''X''} then read_digits 16 (take 1 rest = ''_'') 0 rest
          else if c = CHR ''0'' \<and> p \<in> {CHR ''o'', CHR ''O''} then read_digits 8 (take 1 rest = ''_'') 0 rest
          else if c = CHR ''0'' \<and> p \<in> {CHR ''b'', CHR ''B''} then read_digits 2 (take 1 rest = ''_'') 0 rest
          else (case read_digits 10 False 0 s of
                  None \<Rightarrow> None
                | Some n \<Rightarrow> if c = CHR ''0'' \<and> n \<noteq> 0 then None else Some n)
      | _ \<Rightarrow> read_digits 10 False 0 s)"

definition py_int0 :: "string \<Rightarrow> int res" where
  "py_int0 s = signed read_prefixed (strip s)"

text \<open>\<open>float(s)\<close> of a literal \<open>digits\<close>, \<open>digits.digits\<close>, \<open>.digits\<close> or \<open>digits.\<close>\<close>

definition read_decimal :: "string \<Rightarrow> rat option" where
  "read_decimal s =
     (let whole = takeWhile (\<lambda>c. c \<noteq> CHR ''.'') s; rest = drop (length whole) s in
      case rest of
        [] \<Rightarrow> map_option of_nat (read_digits 10 False 0 whole)
      | _ # fpart \<Rightarrow>
          if whole = [] \<and> fpart = [] then None
          else (case (if whole = [] then Some 0 else read_digits 10 False 0 whole,
                      if fpart = [] then Some 0 else read_digits 10 False 0 fpart) of
                  (Some w, Some f) \<Rightarrow>
                    Some (of_nat w + of_nat f / 10 ^ length (filter (\<lambda>c. c \<noteq> CHR ''_'') fpart))
                | _ \<Rightarrow> None))"

definition py_float :: "string \<Rightarrow> rat res" where
  "py_float s =
     (case (case strip s of
              [] \<Rightarrow> None
            | c # cs \<Rightarrow> if c = CHR ''-'' then map_option uminus (read_decimal cs)
                       else if c = CHR ''+'' then read_decimal cs
                       else read_decimal (c # cs)) of
        None \<Rightarrow> Inl ValueError | Some r \<Rightarrow> Inr r)"

section \<open>Printing\<close>

definition digit_char :: "nat \<Rightarrow> char" where
  "digit_char n = (if n < 10 then char_of (48 + n) else char_of (87 + n))"

fun show_base :: "nat \<Rightarrow> nat \<Rightarrow> string" where
  "show_base b n = (if n < b \<or> b \<le> 1 then [digit_char n] else show_base b (n div b) @ [digit_char (n mod b)])"

declare show_base.simps [simp del]

definition show_int :: "int \<Rightarrow> string" where
  "show_int i = (if i < 0 then ''-'' @ show_base 10 (nat (- i)) else show_base 10 (nat i))"

text \<open>\<open>f'0x{n:08x}'\<close> for a non-negative number.\<close>

definition show_hex8 :: "nat \<Rightarrow> string" where
  "show_hex8 n = (let h = show_base 16 n in ''0x'' @ replicate (8 - length h) CHR ''0'' @ h)"

section \<open>Reading back what is printed\<close>

lemma digit_value_char: "v < 16 \<Longrightarrow> digit_value (digit_char v) = Some v"
proof -
  assume "v < 16"
  then have "v \<in> {0,1,2,3,4,5,6,7,8,9,10,11,12,13,14,15}" by simp presburger
  then show ?thesis
    by (auto simp: digit_char_def digit_value_def py_isdigit_def py_islower_def py_isupper_def)
qed

lemma digit_char_not_underscore: "v < 16 \<Longrightarrow> digit_char v \<noteq> CHR ''_''"
proof
  assume "v < 16" and "digit_char v = CHR ''_''"
  with digit_value_char have "digit_value CHR ''_'' = Some v" by metis
  then show False by (simp add: digit_value_def py_isdigit_def py_islower_def py_isupper_def)
qed

lemma read_digits_show:
  assumes "1 < b" and "b \<le> 16"
  shows "read_digits b ok acc (show_base b n @ ys) =
    read_digits b True (acc * b ^ length (show_base b n) + n) ys"
  using assms
proof (induction b n arbitrary: ok acc ys rule: show_base.induct)
  case (1 b n)
  show ?case
  proof (cases "n < b")
    case True
    with "1.prems" show ?thesis
      by (subst (1 2) show_base.simps) (simp add: digit_value_char digit_char_not_underscore)
  next
    case False
    have m: "n mod b < b" using "1.prems" by simp
    then have "n mod b < 16" using "1.prems" by linarith
    then have d: "digit_value (digit_char (n mod b)) = Some (n mod b)"
      "digit_char (n mod b) \<noteq> CHR ''_''" by (simp_all add: digit_value_char digit_char_not_underscore)
    have s: "show_base b n = show_base b (n div b) @ [digit_char (n mod b)]"
      using False "1.prems" by (subst show_base.simps) simp
    have "read_digits b ok acc (show_base b n @ ys) =
        read_digits b True (acc * b ^ length (show_base b (n div b)) + n div b) (digit_char (n mod b) # ys)"
      using "1.IH" [of ok acc "digit_char (n mod b) # ys"] False "1.prems" by (simp add: s)
    also have "\<dots> = read_digits b True ((acc * b ^ length (show_base b (n div b)) + n div b) * b + n mod b) ys"
      using d m by simp
    also have "(acc * b ^ length (show_base b (n div b)) + n div b) * b + n mod b =
        acc * b ^ length (show_base b n) + n"
      by (simp add: s algebra_simps)
    finally show ?thesis .
  qed
qed

lemma show_base_not_Nil [simp]: "show_base b n \<noteq> []"
  by (subst show_base.simps) simp

lemma read_show_base:
  "1 < b \<Longrightarrow> b \<le> 16 \<Longrightarrow> read_digits b False 0 (show_base b n) = Some n"
  using read_digits_show [of b False 0 n "[]"] by simp

lemma read_digits_zeros:
  "read_digits 16 ok 0 (replicate k CHR ''0'' @ xs) = (if k = 0 then read_digits 16 ok 0 xs else read_digits 16 True 0 xs)"
  by (induction k arbitrary: ok) (simp_all add: digit_value_def py_isdigit_def)

end
