(* ===== verification/RegInfo.thy ===== *)
theory RegInfo
  imports XmlStore Numbers
begin

text \<open>
  The \<^verbatim>\<open>*Info\<close> classes of \<^verbatim>\<open>src/tools/vkex/reg.py\<close> and the operations on the dictionaries that
  hold them. Each class is a record that extends \<open>base_info\<close>, as each Python class extends
  \<^verbatim>\<open>BaseInfo\<close>; the field \<open>i_elem\<close> is the address of the element in the store. Every object
  belongs to one dictionary, so it is stored there by value and mutated through its key.
\<close>

text \<open>Names come from \<open>elem.get('name')\<close>, so they are a string or \<open>None\<close>.\<close>

type_synonym pname = "string option"

text \<open>
  A dictionary key: a name, or the pair of a name and an API name that
  \<^verbatim>\<open>lookupElementInfo\<close> tries first.
\<close>

datatype dkey = Name pname | ApiName pname string

definition py_str :: "pname \<Rightarrow> string" where
  "py_str n = (case n of None \<Rightarrow> ''None'' | Some s \<Rightarrow> s)"

section \<open>The classes\<close>

record base_info =
  i_required :: bool
  i_declared :: bool
  i_elem :: addr
  i_deprecatedbyversion :: pname
  i_supersededby :: pname
  i_deprecatedbyextensions :: "pname list"
  i_deprecatedlink :: pname
  i_vendor :: pname

text \<open>\<^verbatim>\<open>TypeInfo\<close> and \<^verbatim>\<open>CmdInfo\<close> have the same extra fields.\<close>

record type_info = base_info +
  additionalValidity :: "addr list"
  removedValidity :: "addr list"

type_synonym cmd_info = type_info

text \<open>\<^verbatim>\<open>flagType\<close> is set from outside; the \<^verbatim>\<open>TypeInfo\<close> it points to is given by its key.\<close>

record group_info = base_info +
  flagType :: "dkey option"

record enum_info = base_info +
  enum_type :: string

record feature_info = base_info +
  f_name :: pname
  f_emit :: bool
  f_sortorder :: int
  f_category :: string
  f_version :: pname
  f_versionNumber :: pname
  f_number :: int
  f_supported :: pname
  f_deprecates :: "addr list"

text \<open>\<^verbatim>\<open>SpirvInfo\<close>, and \<^verbatim>\<open>FormatInfo\<close>, \<^verbatim>\<open>SyncStageInfo\<close>, \<^verbatim>\<open>SyncAccessInfo\<close>, \<^verbatim>\<open>SyncPipelineInfo\<close>;
  the \<^verbatim>\<open>emit\<close> flag of the first two is added by \<^verbatim>\<open>apiGen\<close>.\<close>

record spirv_info = base_info +
  s_emit :: bool

record cond_info = base_info +
  condition :: pname
  c_emit :: bool

section \<open>Constructors\<close>

definition BaseInfo :: "addr \<Rightarrow> base_info" where
  "BaseInfo e = \<lparr>i_required = False, i_declared = False, i_elem = e, i_deprecatedbyversion = None,
     i_supersededby = None, i_deprecatedbyextensions = [], i_deprecatedlink = None, i_vendor = None\<rparr>"

definition TypeInfo :: "addr \<Rightarrow> type_info" where
  "TypeInfo e = base_info.extend (BaseInfo e) (type_info.fields [] [])"

definition CmdInfo :: "addr \<Rightarrow> cmd_info" where
  "CmdInfo e = base_info.extend (BaseInfo e) (type_info.fields [] [])"

definition GroupInfo :: "addr \<Rightarrow> group_info" where
  "GroupInfo e = base_info.extend (BaseInfo e) (group_info.fields None)"

definition EnumInfo :: "store \<Rightarrow> addr \<Rightarrow> enum_info" where
  "EnumInfo st e = base_info.extend (BaseInfo e) (enum_info.fields (elem_get_default st e ''type'' []))"

definition SpirvInfo :: "addr \<Rightarrow> spirv_info" where
  "SpirvInfo e = base_info.extend (BaseInfo e) (spirv_info.fields False)"

definition FormatInfo :: "addr \<Rightarrow> pname \<Rightarrow> cond_info" where
  "FormatInfo e cond = base_info.extend (BaseInfo e) (cond_info.fields cond False)"

definition SyncStageInfo :: "addr \<Rightarrow> pname \<Rightarrow> cond_info" where
  "SyncStageInfo e cond = base_info.extend (BaseInfo e) (cond_info.fields cond False)"

definition SyncAccessInfo :: "addr \<Rightarrow> pname \<Rightarrow> cond_info" where
  "SyncAccessInfo e cond = base_info.extend (BaseInfo e) (cond_info.fields cond False)"

definition SyncPipelineInfo :: "addr \<Rightarrow> base_info" where
  "SyncPipelineInfo e = BaseInfo e"

text \<open>\<^verbatim>\<open>self.name.split('_', 2)[1]\<close>\<close>

definition vendor_part :: "pname \<Rightarrow> string res" where
  "vendor_part name =
     (case name of
        None \<Rightarrow> Inl AttributeError
      | Some n \<Rightarrow> (case py_split CHR ''_'' n of _ # v # _ \<Rightarrow> Inr v | _ \<Rightarrow> Inl IndexError))"

definition FeatureInfo :: "store \<Rightarrow> addr \<Rightarrow> feature_info res" where
  "FeatureInfo st e =
     (let name = elem_get st e ''name'' in
      rbind (case elem_get st e ''sortorder'' of None \<Rightarrow> Inr 0 | Some s \<Rightarrow> py_int s) (\<lambda>sortorder.
      if elem_tag st e = ''feature'' then
        Inr (base_info.extend (BaseInfo e)
          (feature_info.fields name False sortorder ''VERSION'' name (elem_get st e ''number'') 0 None
             (findall st e ''deprecate'')))
      else
        rbind (vendor_part name) (\<lambda>category.
        rbind (py_int (elem_get_default st e ''number'' ''0'')) (\<lambda>number.
        Inr (base_info.extend (BaseInfo e)
          (feature_info.fields name False sortorder category (Some ''0'') (Some ''0'') number
             (Some (elem_get_default st e ''supported'' ''disabled'')) []))))))"

section \<open>Methods\<close>

definition resetState :: "'a base_info_scheme \<Rightarrow> 'a base_info_scheme" where
  "resetState i = i\<lparr>i_required := False, i_declared := False\<rparr>"

definition resetState_validity :: "type_info \<Rightarrow> type_info" where
  "resetState_validity i = (resetState i)\<lparr>additionalValidity := [], removedValidity := []\<rparr>"

definition getMembers :: "store \<Rightarrow> 'a base_info_scheme \<Rightarrow> addr list" where
  "getMembers st i = findall st (i_elem i) ''member''"

definition getParams :: "store \<Rightarrow> 'a base_info_scheme \<Rightarrow> addr list" where
  "getParams st i = findall st (i_elem i) ''param''"

definition compareKeys :: "store \<Rightarrow> 'a base_info_scheme \<Rightarrow> 'a base_info_scheme \<Rightarrow> string \<Rightarrow> bool \<Rightarrow> bool" where
  "compareKeys st self info key required =
     (if required \<and> \<not> elem_has st (i_elem self) key then False
      else elem_get st (i_elem self) key = elem_get st (i_elem info) key)"

definition compareElem :: "store \<Rightarrow> 'a base_info_scheme \<Rightarrow> 'a base_info_scheme \<Rightarrow> string \<Rightarrow> bool" where
  "compareElem st self info infoName =
     (if infoName = ''enum'' then
        if compareKeys st self info ''extends'' False then
          if compareKeys st self info ''value'' True \<or> compareKeys st self info ''bitpos'' True then True
          else if compareKeys st self info ''extnumber'' False \<and> compareKeys st self info ''offset'' False
                 \<and> compareKeys st self info ''dir'' False then True
          else compareKeys st self info ''alias'' False
        else False
      else False)"

section \<open>The dictionaries\<close>

type_synonym 'i info_dict = "(dkey, 'i) dict"

text \<open>The dictionary, and the warnings that were written.\<close>

definition addElementInfo ::
  "store \<Rightarrow> addr \<Rightarrow> 'a base_info_scheme \<Rightarrow> string \<Rightarrow> 'a base_info_scheme info_dict
     \<Rightarrow> 'a base_info_scheme info_dict \<times> string list" where
  "addElementInfo st e info infoName dictionary =
     (let key = elem_get st e ''name'' in
      case map_of dictionary (Name key) of
        Some old \<Rightarrow>
          if compareElem st old info infoName then (dictionary, [])
          else (dictionary, [''Attempt to redefine '' @ py_str key @ '' (this should not happen)''])
      | None \<Rightarrow> (AList.update (Name key) info dictionary, []))"

definition lookupKey :: "string \<Rightarrow> pname \<Rightarrow> 'i info_dict \<Rightarrow> dkey option" where
  "lookupKey apiname fname dictionary =
     (if map_of dictionary (ApiName fname apiname) \<noteq> None then Some (ApiName fname apiname)
      else if map_of dictionary (Name fname) \<noteq> None then Some (Name fname)
      else None)"

definition lookupElementInfo :: "string \<Rightarrow> pname \<Rightarrow> 'i info_dict \<Rightarrow> 'i option" where
  "lookupElementInfo apiname fname dictionary =
     (case lookupKey apiname fname dictionary of None \<Rightarrow> None | Some k \<Rightarrow> map_of dictionary k)"

text \<open>Mutating the object that a lookup returns.\<close>

definition adjustInfo :: "string \<Rightarrow> pname \<Rightarrow> ('i \<Rightarrow> 'i) \<Rightarrow> 'i info_dict \<Rightarrow> 'i info_dict" where
  "adjustInfo apiname fname f dictionary =
     (case lookupKey apiname fname dictionary of None \<Rightarrow> dictionary | Some k \<Rightarrow> dict_adjust k f dictionary)"

section \<open>Facts\<close>

text \<open>Dictionaries built by \<^verbatim>\<open>addElementInfo\<close> have plain names as keys only.\<close>

definition plain_keys :: "'i info_dict \<Rightarrow> bool" where
  "plain_keys d \<longleftrightarrow> (\<forall>k \<in> set (map fst d). \<exists>n. k = Name n)"

lemma plain_keys_Nil [simp]: "plain_keys []"
  by (simp add: plain_keys_def)

lemma plain_keys_update [simp]: "plain_keys d \<Longrightarrow> plain_keys (AList.update (Name n) v d)"
  unfolding plain_keys_def keys_update by blast

lemma plain_keys_adjust [simp]: "plain_keys (dict_adjust k f d) = plain_keys d"
  by (simp add: plain_keys_def)

lemma map_of_ApiName: "plain_keys d \<Longrightarrow> map_of d (ApiName n a) = None"
  by (auto simp: plain_keys_def map_of_eq_None_keys)

lemma lookupElementInfo_plain: "plain_keys d \<Longrightarrow> lookupElementInfo apiname n d = map_of d (Name n)"
  by (auto simp: lookupElementInfo_def lookupKey_def map_of_ApiName split: option.splits)

lemma lookupKey_plain:
  "plain_keys d \<Longrightarrow> lookupKey apiname n d = (if map_of d (Name n) = None then None else Some (Name n))"
  by (simp add: lookupKey_def map_of_ApiName)

lemma lookupKey_adjust [simp]: "lookupKey apiname n (dict_adjust k f d) = lookupKey apiname n d"
  by (auto simp: lookupKey_def)

lemma lookupKey_adjustInfo [simp]:
  "lookupKey apiname n (adjustInfo apiname m f d) = lookupKey apiname n d"
  by (auto simp: adjustInfo_def split: option.splits)

lemma lookupElementInfo_adjustInfo [simp, dict_simps]:
  "lookupElementInfo apiname m (adjustInfo apiname n f d) =
     (if m = n then map_option f (lookupElementInfo apiname n d) else lookupElementInfo apiname m d)"
  by (auto simp: lookupElementInfo_def adjustInfo_def lookupKey_def split: option.splits if_splits)

lemma plain_keys_adjustInfo [simp]: "plain_keys (adjustInfo a n f d) = plain_keys d"
  by (simp add: adjustInfo_def split: option.splits)

lemma keys_adjustInfo [simp]: "map fst (adjustInfo a n f d) = map fst d"
  by (simp add: adjustInfo_def split: option.splits)

lemma adjustInfo_plain:
  "plain_keys d \<Longrightarrow> adjustInfo a n f d = dict_adjust (Name n) f d"
proof -
  assume "plain_keys d"
  moreover have "dict_adjust k f d = d" if "map_of d k = None" for k
    using that by (induction d) (auto simp: dict_adjust_def split: if_splits)
  ultimately show ?thesis by (simp add: adjustInfo_def lookupKey_plain)
qed

lemma addElementInfo_keys:
  "addElementInfo st e info t d = (d', ws) \<Longrightarrow>
     set (map fst d') = insert (Name (elem_get st e ''name'')) (set (map fst d))"
proof -
  assume a: "addElementInfo st e info t d = (d', ws)"
  show ?thesis
  proof (cases "map_of d (Name (elem_get st e ''name''))")
    case None
    with a have "d' = AList.update (Name (elem_get st e ''name'')) info d"
      by (simp add: addElementInfo_def Let_def)
    then show ?thesis by (simp only: keys_update)
  next
    case (Some i)
    then have "Name (elem_get st e ''name'') \<in> set (map fst d)"
      by (force dest: map_of_SomeD)
    with a Some show ?thesis by (auto simp: addElementInfo_def Let_def split: if_splits)
  qed
qed

lemma addElementInfo_wf:
  "addElementInfo st e info t d = (d', ws) \<Longrightarrow> wf_dict d \<Longrightarrow> plain_keys d \<Longrightarrow> wf_dict d' \<and> plain_keys d'"
  by (auto simp: addElementInfo_def Let_def split: option.splits if_splits)

text \<open>An entry is never replaced: the first definition of a name stays.\<close>

lemma addElementInfo_old:
  "addElementInfo st e info t d = (d', ws) \<Longrightarrow> map_of d k = Some i \<Longrightarrow> map_of d' k = Some i"
  by (auto simp: addElementInfo_def Let_def split: option.splits if_splits)

end
