(* ===== verification/SortFeatures.thy ===== *)
theory SortFeatures
  imports RegInfo "HOL-Library.Multiset" "HOL-Library.Product_Lexorder"
begin

text \<open>
  The order in which features are generated: \<^verbatim>\<open>regSortFeatures\<close> of \<^verbatim>\<open>src/tools/vkex/generator.py\<close>
  sorts a list of feature names four times with different keys. The lemmas show that this is
  one stable sort by the four keys together, the last sort being the most significant.
\<close>

section \<open>\<open>list.sort\<close>\<close>

text \<open>
  \<open>list.sort(key=f)\<close> first computes every key, in list order, so an exception in the key
  function leaves the sort; the sort itself is stable.
\<close>

fun all_keys :: "('a \<Rightarrow> 'k res) \<Rightarrow> 'a list \<Rightarrow> ('k \<times> 'a) list res" where
  "all_keys key [] = Inr []"
| "all_keys key (x # xs) = rbind (key x) (\<lambda>k. rbind (all_keys key xs) (\<lambda>ks. Inr ((k, x) # ks)))"

definition py_sort :: "('a \<Rightarrow> ('k::linorder) res) \<Rightarrow> 'a list \<Rightarrow> 'a list res" where
  "py_sort key xs = rbind (all_keys key xs) (\<lambda>ks. Inr (map snd (sort_key fst ks)))"

lemma all_keys_pure: "(\<And>x. x \<in> set xs \<Longrightarrow> key x = Inr (f x)) \<Longrightarrow> all_keys key xs = Inr (map (\<lambda>x. (f x, x)) xs)"
  by (induction xs) auto

lemma sort_pairs: "sort_key fst (map (\<lambda>x. (f x, x)) xs) = map (\<lambda>x. (f x, x)) (sort_key f xs)"
proof (induction xs)
  case (Cons x xs)
  have "insort_key fst (f x, x) (map (\<lambda>x. (f x, x)) ys) = map (\<lambda>x. (f x, x)) (insort_key f x ys)" for ys
    by (induction ys) auto
  with Cons show ?case by simp
qed simp

lemma py_sort_pure:
  assumes "\<And>x. x \<in> set xs \<Longrightarrow> key x = Inr (f x)"
  shows "py_sort key xs = Inr (sort_key f xs)"
  using all_keys_pure [of xs key f] assms by (simp add: py_sort_def sort_pairs comp_def)

lemma all_keys_error: "all_keys key xs = Inl e \<Longrightarrow> \<exists>x \<in> set xs. key x = Inl e"
  by (induction xs) (auto simp: res_simps)

section \<open>Two stable sorts are one\<close>

lemma sorted_append_pairs:
  assumes "sorted (map f ys)" and "\<And>k. sorted (map g (filter (\<lambda>y. f y = k) ys))"
  shows "sorted (map (\<lambda>y. (f y, g y)) ys)"
  using assms
proof (induction ys)
  case (Cons y ys)
  have s: "sorted (map g (filter (\<lambda>z. f z = k) ys))" for k
    using Cons.prems(2) [of k] by (auto split: if_splits)
  have "sorted (map (\<lambda>y. (f y, g y)) ys)" using Cons.IH Cons.prems(1) s by simp
  moreover have "(f y, g y) \<le> (f z, g z)" if "z \<in> set ys" for z
  proof (cases "f z = f y")
    case True
    then show ?thesis using Cons.prems(2) [of "f y"] that by simp
  next
    case False
    then show ?thesis using Cons.prems(1) that by (auto simp: less_le)
  qed
  ultimately show ?case by simp
qed simp

lemma sort_key_sort_key:
  fixes f :: "'a \<Rightarrow> 'k::linorder" and g :: "'a \<Rightarrow> 'l::linorder"
  shows "sort_key f (sort_key g xs) = sort_key (\<lambda>x. (f x, g x)) xs"
proof (rule properties_for_sort_key [symmetric])
  fix k :: 'a
  let ?p = "\<lambda>y. f k = f y" and ?q = "\<lambda>y. g k = g y"
  have stable: "filter ?p (sort_key f zs) = filter ?p zs" "filter ?q (sort_key g zs) = filter ?q zs" for zs
    using sort_key_stable [of f "f k" zs] sort_key_stable [of g "g k" zs] by (simp_all only: eq_commute)
  have split: "filter (\<lambda>y. (f k, g k) = (f y, g y)) zs = filter ?q (filter ?p zs)"
    "filter ?q (filter ?p zs) = filter ?p (filter ?q zs)" for zs
    by (auto intro: filter_cong)
  show "filter (\<lambda>y. (f k, g k) = (f y, g y)) (sort_key f (sort_key g xs)) =
    filter (\<lambda>y. (f k, g k) = (f y, g y)) xs"
    by (simp only: split stable)
next
  show "sorted (map (\<lambda>x. (f x, g x)) (sort_key f (sort_key g xs)))"
  proof (rule sorted_append_pairs)
    fix k
    show "sorted (map g (filter (\<lambda>y. f y = k) (sort_key f (sort_key g xs))))"
      by (simp add: sort_key_stable sorted_filter)
  qed simp
qed simp

section \<open>\<open>regSortFeatures\<close>\<close>

text \<open>
  \<^verbatim>\<open>float(versionNumber)\<close> is the rational number that the literal denotes, so two literals
  compare as their values; the category key \<open>0.5\<close> is \<open>1 / 2\<close>.
\<close>

definition feature_of :: "(pname, feature_info) dict \<Rightarrow> pname \<Rightarrow> feature_info res" where
  "feature_of features name = (case map_of features name of None \<Rightarrow> Inl KeyError | Some f \<Rightarrow> Inr f)"

definition versionKey :: "feature_info \<Rightarrow> rat res" where
  "versionKey f = (case f_versionNumber f of None \<Rightarrow> Inl TypeError | Some v \<Rightarrow> py_float v)"

definition categoryKey :: "store \<Rightarrow> feature_info \<Rightarrow> rat res" where
  "categoryKey st f =
     (if elem_tag st (i_elem f) = ''feature'' then
        (case f_name f of
           None \<Rightarrow> Inl AttributeError
         | Some n \<Rightarrow> Inr (if prefix ''VKSC'' n then 1 / 2 else 0))
      else if py_upper (f_category f) \<in> {''ARB'', ''KHR'', ''OES''} then Inr 1
      else Inr 2)"

definition regSortFeatures ::
  "store \<Rightarrow> pname list \<Rightarrow> (pname, feature_info) dict \<Rightarrow> pname list res" where
  "regSortFeatures st orderedFeatureNames features =
     rbind (py_sort (\<lambda>name. rbind (feature_of features name) (\<lambda>f. Inr (f_number f))) orderedFeatureNames) (\<lambda>names.
     rbind (py_sort (\<lambda>name. rbind (feature_of features name) versionKey) names) (\<lambda>names.
     rbind (py_sort (\<lambda>name. rbind (feature_of features name) (categoryKey st)) names) (\<lambda>names.
     py_sort (\<lambda>name. rbind (feature_of features name) (\<lambda>f. Inr (f_sortorder f))) names)))"

text \<open>What the order means: the four keys of a feature, most significant first.\<close>

definition sortable :: "store \<Rightarrow> (pname, feature_info) dict \<Rightarrow> pname \<Rightarrow> bool" where
  "sortable st features name \<longleftrightarrow>
     (case map_of features name of
        None \<Rightarrow> False
      | Some f \<Rightarrow> \<not> isl (versionKey f) \<and> \<not> isl (categoryKey st f))"

definition order_key ::
  "store \<Rightarrow> (pname, feature_info) dict \<Rightarrow> pname \<Rightarrow> int \<times> rat \<times> rat \<times> int" where
  "order_key st features name =
     (let f = the (map_of features name) in
      (f_sortorder f, projr (categoryKey st f), projr (versionKey f), f_number f))"

lemma not_isl_projr: "\<not> isl r \<Longrightarrow> r = Inr (projr r)"
  by (cases r) auto

lemma all_keys_Inr: "all_keys key xs = Inr ks \<Longrightarrow> \<forall>x \<in> set xs. \<not> isl (key x)"
  by (induction xs arbitrary: ks) (auto simp: res_simps)

lemma py_sort_iff:
  "py_sort key xs = Inr ys \<longleftrightarrow> (\<forall>x \<in> set xs. \<not> isl (key x)) \<and> ys = sort_key (\<lambda>x. projr (key x)) xs"
proof
  assume sorted: "py_sort key xs = Inr ys"
  then obtain ks where "all_keys key xs = Inr ks" by (auto simp: py_sort_def res_simps)
  then have ok: "\<forall>x \<in> set xs. \<not> isl (key x)" by (rule all_keys_Inr)
  then have "py_sort key xs = Inr (sort_key (\<lambda>x. projr (key x)) xs)"
    by (intro py_sort_pure not_isl_projr) blast
  with sorted ok show "(\<forall>x \<in> set xs. \<not> isl (key x)) \<and> ys = sort_key (\<lambda>x. projr (key x)) xs" by simp
next
  assume "(\<forall>x \<in> set xs. \<not> isl (key x)) \<and> ys = sort_key (\<lambda>x. projr (key x)) xs"
  then show "py_sort key xs = Inr ys" using py_sort_pure not_isl_projr by metis
qed

lemma py_sort_four:
  "rbind (py_sort k1 xs) (\<lambda>a. rbind (py_sort k2 a) (\<lambda>b. rbind (py_sort k3 b) (py_sort k4))) = Inr ys \<longleftrightarrow>
     (\<forall>x \<in> set xs. \<not> isl (k1 x) \<and> \<not> isl (k2 x) \<and> \<not> isl (k3 x) \<and> \<not> isl (k4 x)) \<and>
     ys = sort_key (\<lambda>x. (projr (k4 x), projr (k3 x), projr (k2 x), projr (k1 x))) xs"
  unfolding sort_key_sort_key [symmetric] by (simp add: res_simps py_sort_iff) blast

lemma sort_key_cong_set:
  "(\<And>x. x \<in> set xs \<Longrightarrow> f x = g x) \<Longrightarrow> sort_key f xs = sort_key g xs"
proof (induction xs)
  case (Cons x xs)
  have "insort_key f x ys = insort_key g x ys" if "set ys \<subseteq> set xs" for ys
    using that Cons.prems by (induction ys) auto
  with Cons show ?case by simp
qed simp

text \<open>C10: \<^verbatim>\<open>regSortFeatures\<close> returns exactly when every name is a known feature whose version number
  is a number and whose category can be read; its result is then the stable sort of the names by
  sort order, category, version number and extension number, in this significance.
\<close>

theorem regSortFeatures_correct:
  "regSortFeatures st names features = Inr sorted_names \<longleftrightarrow>
     (\<forall>n \<in> set names. sortable st features n) \<and>
     sorted_names = sort_key (order_key st features) names"
proof -
  let ?f = "\<lambda>g name. rbind (feature_of features name) g"
  let ?number = "?f (\<lambda>f. Inr (f_number f) :: int res)" and ?sortorder = "?f (\<lambda>f. Inr (f_sortorder f) :: int res)"
  let ?key = "\<lambda>x. (projr (?sortorder x), projr (?f (categoryKey st) x), projr (?f versionKey x), projr (?number x))"
  have ok: "sortable st features n \<longleftrightarrow> \<not> isl (?number n) \<and> \<not> isl (?f versionKey n)
      \<and> \<not> isl (?f (categoryKey st) n) \<and> \<not> isl (?sortorder n)" for n
    by (cases "map_of features n") (auto simp: sortable_def feature_of_def)
  have "regSortFeatures st names features = Inr sorted_names \<longleftrightarrow>
     (\<forall>n \<in> set names. sortable st features n) \<and> sorted_names = sort_key ?key names"
    unfolding regSortFeatures_def py_sort_four ok by blast
  moreover have "sort_key ?key names = sort_key (order_key st features) names"
    if "\<forall>n \<in> set names. sortable st features n"
    using that by (intro sort_key_cong_set)
      (auto simp: order_key_def sortable_def feature_of_def Let_def split: option.splits)
  ultimately show ?thesis by (cases "\<forall>n \<in> set names. sortable st features n") simp_all
qed

definition sort_example_store :: store where
  "sort_example_store =
     [\<lparr>etag = ''feature'', eattrib = [], etext = None, etail = None, echildren = []\<rparr>,
      \<lparr>etag = ''extension'', eattrib = [], etext = None, etail = None, echildren = []\<rparr>]"

definition sort_example :: "(pname, feature_info) dict" where
  "sort_example =
     (let f = (\<lambda>e n c v k. base_info.extend (BaseInfo e)
                 (feature_info.fields (Some n) False 0 c None (Some v) k None [])) in
      [(Some ''E'', f 1 ''E'' ''EXT'' ''0'' 3), (Some ''K'', f 1 ''K'' ''KHR'' ''0'' 7),
       (Some ''B'', f 0 ''B'' ''VERSION'' ''1.1'' 0), (Some ''A'', f 0 ''A'' ''VERSION'' ''1.0'' 0)])"

theorem regSortFeatures_correct_witness:
  "regSortFeatures sort_example_store [Some ''E'', Some ''B'', Some ''K'', Some ''A''] sort_example
     = Inr [Some ''A'', Some ''B'', Some ''K'', Some ''E'']"
proof -
  have "\<forall>n \<in> set [Some ''E'', Some ''B'', Some ''K'', Some ''A'']. sortable sort_example_store sort_example n"
    by code_simp
  moreover have "[Some ''A'', Some ''B'', Some ''K'', Some ''E''] =
      sort_key (order_key sort_example_store sort_example) [Some ''E'', Some ''B'', Some ''K'', Some ''A'']"
    by code_simp
  ultimately show ?thesis using regSortFeatures_correct by blast
qed

end
