(* ===== verification/RegTree.thy ===== *)
theory RegTree
  imports XmlStore "HOL-Library.Multiset"
begin

text \<open>
  The preprocessing of the registry document in \<^verbatim>\<open>src/tools/vkex/reg.py\<close>: which elements match
  an API, and the three functions that rewrite the tree before it is parsed
  (\<^verbatim>\<open>mergeAPIs\<close>, \<^verbatim>\<open>mergeInternalFeatures\<close>, \<^verbatim>\<open>stripNonmatchingAPIs\<close>). The stack of a traversal is a
  list whose head is the top of the \<^verbatim>\<open>deque\<close>.
\<close>

section \<open>Matching an API\<close>

text \<open>
  What can arrive as the API to match: \<open>None\<close>, a name, or (from \<^verbatim>\<open>genvkex.py\<close>, which passes
  the class \<^verbatim>\<open>APIConventions\<close> itself) an object that equals no string.
\<close>

datatype api_arg = ApiNone | ApiStr string | ApiObject

definition apiNameMatch :: "api_arg \<Rightarrow> string option \<Rightarrow> bool" where
  "apiNameMatch str supported =
     (case str of
        ApiNone \<Rightarrow> False
      | ApiStr a \<Rightarrow> (case supported of None \<Rightarrow> True | Some l \<Rightarrow> a \<in> set (py_split CHR '','' l))
      | ApiObject \<Rightarrow> supported = None)"

definition quoted :: "string \<Rightarrow> string" where
  "quoted s = [CHR 0x27] @ s @ [CHR 0x27]"

definition matchAPIProfile :: "string option \<Rightarrow> string option \<Rightarrow> store \<Rightarrow> addr \<Rightarrow> bool res" where
  "matchAPIProfile api profile st elem =
     (let elem_api = elem_get st elem ''api''; elem_profile = elem_get st elem ''profile'' in
      if truthy elem_api \<and> api = None then
        Inl (UserWarning (''No API requested, but '' @ quoted ''api'' @ '' attribute is present with value ''
          @ quoted (the elem_api)))
      else if truthy elem_api \<and> api \<noteq> elem_api then Inr False
      else if truthy elem_profile \<and> profile = None then
        Inl (UserWarning (''No profile requested, but '' @ quoted ''profile''
          @ '' attribute is present with value '' @ quoted (the elem_profile)))
      else if truthy elem_profile \<and> profile \<noteq> elem_profile then Inr False
      else Inr True)"

section \<open>Traversals\<close>

text \<open>
  Every traversal pops an element and pushes some of its children; children have larger
  addresses, so the multiset of distances to the end of the store shrinks.
\<close>

definition visit_rel :: "((store \<times> addr list) \<times> (store \<times> addr list)) set" where
  "visit_rel = inv_image (mult less_than) (\<lambda>(st, stack). image_mset (\<lambda>a. length st - a) (mset stack))"

lemma wf_visit_rel [simp, intro]: "wf visit_rel"
  by (simp add: visit_rel_def wf_mult)

lemma visit_relI:
  assumes "length st' = length st" and "set new \<subseteq> set (down st p)"
  shows "((st', new @ stack), (st, p # stack)) \<in> visit_rel"
proof -
  let ?f = "\<lambda>a. length st - a"
  have "(image_mset ?f (mset stack) + image_mset ?f (mset new), image_mset ?f (mset stack) + {#?f p#})
      \<in> mult less_than"
  proof (rule one_step_implies_mult)
    show "\<forall>k \<in> set_mset (image_mset ?f (mset new)). \<exists>j \<in> set_mset {#?f p#}. (k, j) \<in> less_than"
      using assms(2) by (fastforce dest: down_less)
  qed simp
  with assms(1) show ?thesis by (simp add: visit_rel_def add.commute)
qed

section \<open>Stripping the other APIs\<close>

definition strip_child ::
  "api_arg \<Rightarrow> bool \<Rightarrow> addr \<Rightarrow> addr \<Rightarrow> store \<times> addr list \<Rightarrow> (store \<times> addr list) res" where
  "strip_child apiName actuallyDelete parent child s =
     (case s of (st, stack) \<Rightarrow>
        if apiNameMatch apiName (elem_get st child ''api'') then Inr (st, child # stack)
        else if actuallyDelete then rbind (elem_remove st parent child) (\<lambda>st. Inr (st, stack))
        else Inr (st, stack))"

lemma strip_children_stack:
  assumes "for_each (strip_child api del p) cs (st, stack) = Inr (st', stack')"
  shows "length st' = length st \<and> (\<exists>new. stack' = new @ stack \<and> set new \<subseteq> set cs)"
  using assms
proof (induction cs arbitrary: st stack)
  case (Cons c cs)
  from Cons.prems obtain st1 stack1 where 1: "strip_child api del p c (st, stack) = Inr (st1, stack1)"
    and 2: "for_each (strip_child api del p) cs (st1, stack1) = Inr (st', stack')"
    by (auto simp: res_simps)
  from 1 have "length st1 = length st \<and> (stack1 = stack \<or> stack1 = c # stack)"
    by (auto simp: strip_child_def res_simps split: if_splits dest: elem_remove_other(4))
  with Cons.IH [OF 2] show ?case by (auto intro: exI [where x = "_ @ [c]"])
qed simp

function strip_loop :: "api_arg \<Rightarrow> bool \<Rightarrow> store \<times> addr list \<Rightarrow> store res" where
  "strip_loop api del (st, []) = Inr st"
| "strip_loop api del (st, p # stack) =
     rbind (for_each (strip_child api del p) (down st p) (st, stack)) (strip_loop api del)"
  by pat_completeness auto
termination
proof (relation "inv_image visit_rel (\<lambda>(api, del, s). s)")
  fix api del st p stack x
  assume "for_each (strip_child api del p) (down st p) (st, stack) = Inr x"
  then show "((api, del, x), (api, del, st, p # stack)) \<in> inv_image visit_rel (\<lambda>(api, del, s). s)"
    by (cases x) (auto dest!: strip_children_stack intro: visit_relI)
qed simp

definition stripNonmatchingAPIs :: "store \<Rightarrow> addr \<Rightarrow> api_arg \<Rightarrow> bool \<Rightarrow> store res" where
  "stripNonmatchingAPIs st tree apiName actuallyDelete = strip_loop apiName actuallyDelete (st, [tree])"

section \<open>Merging APIs\<close>

definition elem_text_of :: "store \<Rightarrow> addr option \<Rightarrow> string option res" where
  "elem_text_of st x = (case x of None \<Rightarrow> Inl AttributeError | Some a \<Rightarrow> Inr (elem_text st a))"

definition merge_supported :: "string \<Rightarrow> string list \<Rightarrow> addr \<Rightarrow> store \<Rightarrow> store" where
  "merge_supported toApiName fromApiNames child st =
     (case elem_get st child ''supported'' of
        None \<Rightarrow> st
      | Some l \<Rightarrow>
          if l = [] then st
          else if \<exists>a \<in> set (toApiName # fromApiNames). a \<in> set (py_split CHR '','' l)
          then elem_set st child ''supported'' toApiName else st)"

text \<open>The name of a definition and the elements that define it too, by the kind of element.\<close>

definition definition_variants :: "store \<Rightarrow> addr \<Rightarrow> addr \<Rightarrow> (string option \<times> addr list) res" where
  "definition_variants st parent child =
     (let t = elem_tag st child; by_name = (\<lambda>name. case name of
            None \<Rightarrow> Inr (None, []) | Some n \<Rightarrow> Inr (Some n, findall_named st parent t n)) in
      if t = ''type'' then
        (case elem_get st child ''name'' of
           Some n \<Rightarrow> Inr (Some n, findall_attr st parent t ''name'' n)
         | None \<Rightarrow> rbind (elem_text_of st (find_elem st child ''name'')) by_name)
      else if t = ''member'' \<or> t = ''param'' then
        rbind (elem_text_of st (find_elem st child ''name'')) by_name
      else if t = ''enum'' \<or> t = ''feature'' then
        (case elem_get st child ''name'' of
           None \<Rightarrow> Inr (None, [])
         | Some n \<Rightarrow> Inr (Some n, findall_attr st parent t ''name'' n))
      else if t = ''command'' then
        rbind (elem_text_of st (first (findall2 st child ''proto'' ''name''))) (\<lambda>name. case name of
            None \<Rightarrow> Inr (None, []) | Some n \<Rightarrow> Inr (Some n, findall_proto_named st parent t n))
      else Inr (None, []))"

text \<open>One round of the search for the best variant: \<open>(bestMatchApi, requires)\<close>.\<close>

definition match_variant ::
  "store \<Rightarrow> string \<Rightarrow> addr \<Rightarrow> string option \<times> string option \<Rightarrow> (string option \<times> string option) res" where
  "match_variant st apiName variant s =
     (case s of (best, requires) \<Rightarrow>
        let api = elem_get st variant ''api'';
            requires' = (if truthy (elem_get st variant ''requires'') \<and> api = Some apiName
                         then elem_get st variant ''requires'' else requires)
        in case api of
             None \<Rightarrow> Inl AttributeError
           | Some l \<Rightarrow> Inr (if apiName \<in> set (py_split CHR '','' l) \<and> best = None then api else best, requires'))"

definition keep_variant ::
  "addr \<Rightarrow> string \<Rightarrow> string \<Rightarrow> string option \<Rightarrow> addr \<Rightarrow> store \<Rightarrow> store res" where
  "keep_variant parent toApiName best requires variant st =
     (if elem_get st variant ''api'' \<noteq> Some best then elem_remove st parent variant
      else
        let st1 = (case requires of
                     Some r \<Rightarrow> if elem_get st variant ''requires'' = None
                               then elem_set st variant ''requires'' r else st
                   | None \<Rightarrow> st)
        in Inr (elem_set st1 variant ''api'' toApiName))"

definition merge_definition :: "string \<Rightarrow> string list \<Rightarrow> addr \<Rightarrow> addr \<Rightarrow> store \<Rightarrow> store res" where
  "merge_definition toApiName fromApiNames parent child st =
     (if \<not> truthy (elem_get st child ''api'') then Inr st
      else
        let st1 = (if elem_tag st child = ''require'' \<and>
                     elem_get st child ''api'' \<in> set (map Some fromApiNames)
                   then elem_set st child ''api'' toApiName else st) in
        rbind (definition_variants st parent child) (\<lambda>(name, variants).
          if \<not> truthy name then Inr st1
          else
            rbind (for_each (\<lambda>apiName. for_each (match_variant st1 apiName) variants)
                     (toApiName # fromApiNames) (None, None)) (\<lambda>(best, requires).
              if \<not> truthy best then Inr st1
              else for_each (keep_variant parent toApiName (the best) requires) variants st1)))"

definition merge_child ::
  "string \<Rightarrow> string list \<Rightarrow> addr \<Rightarrow> addr \<Rightarrow> store \<times> addr list \<Rightarrow> (store \<times> addr list) res" where
  "merge_child toApiName fromApiNames parent child s =
     (case s of (st, stack) \<Rightarrow>
        rbind (if elem_tag st child = ''remove''
               then rbind (elem_remove st parent child) (\<lambda>st. Inr (st, stack))
               else Inr (st, child # stack)) (\<lambda>(st, stack).
        rbind (merge_definition toApiName fromApiNames parent child
                 (merge_supported toApiName fromApiNames child st)) (\<lambda>st. Inr (st, stack))))"

lemma length_merge_supported [simp]: "length (merge_supported to fr c st) = length st"
  by (auto simp: merge_supported_def split: option.splits)

lemma length_keep_variant: "keep_variant p to best req v st = Inr st' \<Longrightarrow> length st' = length st"
  by (auto simp: keep_variant_def Let_def split: if_splits option.splits dest: elem_remove_other(4))

lemma length_merge_definition:
  assumes "merge_definition to fr p c st = Inr st'"
  shows "length st' = length st"
proof -
  have kv: "length st' = length st0"
    if "for_each (keep_variant p to best req) vs st0 = Inr st'" for best req vs st0
    using for_each_inv [OF that, of "\<lambda>s. length s = length st0"] length_keep_variant by force
  show ?thesis
    using assms unfolding merge_definition_def Let_def
    by (auto simp: res_simps split: if_splits prod.splits dest!: kv)
qed

lemma merge_children_stack:
  assumes "for_each (merge_child to fr p) cs (st, stack) = Inr (st', stack')"
  shows "length st' = length st \<and> (\<exists>new. stack' = new @ stack \<and> set new \<subseteq> set cs)"
  using assms
proof (induction cs arbitrary: st stack)
  case (Cons c cs)
  from Cons.prems obtain st1 stack1 where 1: "merge_child to fr p c (st, stack) = Inr (st1, stack1)"
    and 2: "for_each (merge_child to fr p) cs (st1, stack1) = Inr (st', stack')"
    by (auto simp: res_simps)
  from 1 have "length st1 = length st \<and> (stack1 = stack \<or> stack1 = c # stack)"
    by (auto simp: merge_child_def res_simps split: if_splits
        dest!: length_merge_definition elem_remove_other(4))
  with Cons.IH [OF 2] show ?case by (auto intro: exI [where x = "_ @ [c]"])
qed simp

function merge_loop :: "string \<Rightarrow> string list \<Rightarrow> store \<times> addr list \<Rightarrow> store res" where
  "merge_loop to fr (st, []) = Inr st"
| "merge_loop to fr (st, p # stack) =
     rbind (for_each (merge_child to fr p) (down st p) (st, stack)) (merge_loop to fr)"
  by pat_completeness auto
termination
proof (relation "inv_image visit_rel (\<lambda>(to, fr, s). s)")
  fix to fr st p stack x
  assume "for_each (merge_child to fr p) (down st p) (st, stack) = Inr x"
  then show "((to, fr, x), (to, fr, st, p # stack)) \<in> inv_image visit_rel (\<lambda>(to, fr, s). s)"
    by (cases x) (auto dest!: merge_children_stack intro: visit_relI)
qed simp

definition mergeAPIs :: "store \<Rightarrow> addr \<Rightarrow> string list \<Rightarrow> string \<Rightarrow> store res" where
  "mergeAPIs st tree fromApiNames toApiName = merge_loop toApiName fromApiNames (st, [tree])"

section \<open>Merging internal features\<close>

definition matching_features :: "store \<Rightarrow> addr \<Rightarrow> string \<Rightarrow> addr list" where
  "matching_features st tree apiName =
     filter (\<lambda>f. apiName \<in> set (py_split CHR '','' (elem_get_default st f ''api'' [])))
       (findall st tree ''feature'')"

definition is_internal :: "store \<Rightarrow> addr \<Rightarrow> bool" where
  "is_internal st f \<longleftrightarrow> elem_get_default st f ''apitype'' [] = ''internal''"

text \<open>The set of names in a \<^verbatim>\<open>depends\<close> attribute, in the order of their first occurrence.\<close>

definition get_dependencies :: "store \<Rightarrow> addr \<Rightarrow> string list" where
  "get_dependencies st feature =
     (let depends = elem_get_default st feature ''depends'' [] in
      if depends = [] then []
      else remdups (filter (\<lambda>d. d \<noteq> [])
             (map strip (py_split CHR '','' (map (\<lambda>c. if c = CHR ''+'' then CHR '','' else c) depends)))))"

text \<open>A loop that returns \<open>True\<close> at the first element for which the body does.\<close>

fun any_m :: "('a \<Rightarrow> 's \<Rightarrow> (bool \<times> 's) res) \<Rightarrow> 'a list \<Rightarrow> 's \<Rightarrow> (bool \<times> 's) res" where
  "any_m f [] s = Inr (False, s)"
| "any_m f (x # xs) s = rbind (f x s) (\<lambda>(b, s). if b then Inr (True, s) else any_m f xs s)"

fun has_dependency ::
  "nat \<Rightarrow> store \<Rightarrow> string option \<Rightarrow> (string option, addr) dict \<Rightarrow> addr \<Rightarrow> string option list
     \<Rightarrow> (bool \<times> string option list) res" where
  "has_dependency 0 st target_name all_features_map feature visited = Inl RecursionError"
| "has_dependency (Suc d) st target_name all_features_map feature visited =
     (let feature_name = elem_get st feature ''name''; deps = get_dependencies st feature in
      if feature_name \<in> set visited then Inr (False, visited)
      else if target_name \<in> Some ` set deps then Inr (True, feature_name # visited)
      else any_m (\<lambda>dep_name visited.
             case map_of all_features_map (Some dep_name) of
               None \<Rightarrow> Inr (False, visited)
             | Some f \<Rightarrow> has_dependency d st target_name all_features_map f visited)
           deps (feature_name # visited))"

definition features_map :: "store \<Rightarrow> addr list \<Rightarrow> (string option, addr) dict" where
  "features_map st fs = fold (\<lambda>f m. AList.update (elem_get st f ''name'') f m) fs []"

text \<open>The first public feature that depends on the internal one.\<close>

fun find_target ::
  "nat \<Rightarrow> store \<Rightarrow> (string option, addr) dict \<Rightarrow> string option \<Rightarrow> addr list \<Rightarrow> addr option res" where
  "find_target d st m internal_name [] = Inr None"
| "find_target d st m internal_name (f # fs) =
     rbind (has_dependency d st internal_name m f []) (\<lambda>(b, _).
       if b then Inr (Some f) else find_target d st m internal_name fs)"

definition append_copies :: "addr \<Rightarrow> string \<Rightarrow> addr \<Rightarrow> store \<Rightarrow> store" where
  "append_copies internal t target st =
     fold (\<lambda>e st. elem_append (snd (deepcopy st e)) target (fst (deepcopy st e))) (findall st internal t) st"

definition merge_internal ::
  "nat \<Rightarrow> addr \<Rightarrow> addr list \<Rightarrow> (string option, addr) dict \<Rightarrow> addr \<Rightarrow> store \<Rightarrow> store res" where
  "merge_internal d tree public_features m internal st =
     rbind (find_target d st m (elem_get st internal ''name'') public_features) (\<lambda>target.
       case target of
         None \<Rightarrow> Inr st
       | Some t \<Rightarrow>
           elem_remove
             (append_copies internal ''remove'' t
               (append_copies internal ''deprecate'' t (append_copies internal ''require'' t st)))
             tree internal)"

definition mergeInternalFeatures :: "nat \<Rightarrow> store \<Rightarrow> addr \<Rightarrow> string \<Rightarrow> store res" where
  "mergeInternalFeatures d st tree apiName =
     (let fs = matching_features st tree apiName;
          internal_features = filter (is_internal st) fs;
          public_features = filter (\<lambda>f. \<not> is_internal st f) fs;
          m = features_map st (public_features @ internal_features)
      in for_each (merge_internal d tree public_features m) internal_features st)"

section \<open>The preprocessing keeps the store well formed\<close>

lemma strip_child_step: "strip_child api del p c (st, k) = Inr (st', k') \<Longrightarrow> doc_step st st'"
  by (auto simp: strip_child_def res_simps doc_frame.rel_refl split: if_splits intro: doc_step_remove)

interpretation traversal_frame: loop_frame "\<lambda>s s'. doc_step (fst s) (fst s')"
  by unfold_locales (auto intro: doc_frame.rel_refl doc_frame.rel_trans)

lemma for_each_fst:
  assumes "for_each f cs (st, k) = Inr (st', k')"
    and "\<And>c st k st' k'. f c (st, k) = Inr (st', k') \<Longrightarrow> doc_step st st'"
  shows "doc_step st st'"
  using traversal_frame.for_each_rel [OF assms(1)] assms(2) by fastforce

lemma strip_loop_step: "strip_loop api del s = Inr st' \<Longrightarrow> doc_step (fst s) st'"
proof (induction api del s rule: strip_loop.induct)
  case (2 api del st p stack)
  from "2.prems" obtain x where x: "for_each (strip_child api del p) (down st p) (st, stack) = Inr x"
    "strip_loop api del x = Inr st'" by (auto simp: res_simps)
  from "2.IH" [OF x] have "doc_step (fst x) st'" .
  moreover have "doc_step st (fst x)"
    using x(1) by (cases x) (auto intro: for_each_fst strip_child_step)
  ultimately show ?case by (auto intro: doc_frame.rel_trans)
qed (simp add: doc_frame.rel_refl)

lemma keep_variant_step: "keep_variant p to best req v st = Inr st' \<Longrightarrow> doc_step st st'"
  by (auto simp: keep_variant_def Let_def split: if_splits option.splits
      intro: doc_step_remove doc_step_set doc_frame.rel_trans [OF doc_step_set doc_step_set])

lemma merge_definition_step:
  assumes "merge_definition to fr p c st = Inr st'"
  shows "doc_step st st'"
proof -
  have kv: "doc_step st0 st'"
    if "for_each (keep_variant p to best req) vs st0 = Inr st'" for best req vs st0
    by (rule doc_frame.for_each_rel [OF that keep_variant_step])
  have "doc_step st (elem_set st c ''api'' to)" by (simp add: doc_step_set)
  then show ?thesis
    using assms unfolding merge_definition_def Let_def
    by (auto simp: res_simps doc_frame.rel_refl split: if_splits prod.splits
        dest!: kv intro: doc_frame.rel_trans)
qed

lemma merge_supported_step: "doc_step st (merge_supported to fr c st)"
  by (auto simp: merge_supported_def doc_frame.rel_refl doc_step_set split: option.splits)

lemma merge_child_step: "merge_child to fr p c (st, k) = Inr (st', k') \<Longrightarrow> doc_step st st'"
  by (auto simp: merge_child_def res_simps split: if_splits dest!: merge_definition_step
      intro: doc_frame.rel_trans [OF doc_step_remove] doc_frame.rel_trans [OF merge_supported_step])

lemma merge_loop_step: "merge_loop to fr s = Inr st' \<Longrightarrow> doc_step (fst s) st'"
proof (induction to fr s rule: merge_loop.induct)
  case (2 to fr st p stack)
  from "2.prems" obtain x where x: "for_each (merge_child to fr p) (down st p) (st, stack) = Inr x"
    "merge_loop to fr x = Inr st'" by (auto simp: res_simps)
  from "2.IH" [OF x] have "doc_step (fst x) st'" .
  moreover have "doc_step st (fst x)"
    using x(1) by (cases x) (auto intro: for_each_fst merge_child_step)
  ultimately show ?case by (auto intro: doc_frame.rel_trans)
qed (simp add: doc_frame.rel_refl)

lemma append_copies_step: "t < length st \<Longrightarrow> doc_step st (append_copies i tag t st)"
proof -
  have "doc_step st (fold (\<lambda>e st. elem_append (snd (deepcopy st e)) t (fst (deepcopy st e))) es st)"
    if "t < length st" for es
    using that
  proof (induction es arbitrary: st)
    case (Cons e es)
    have s: "doc_step st (elem_append (snd (deepcopy st e)) t (fst (deepcopy st e)))"
      by (rule doc_step_append_copy [OF Cons.prems])
    then have "t < length (elem_append (snd (deepcopy st e)) t (fst (deepcopy st e)))"
      using Cons.prems doc_step_length by fastforce
    from doc_frame.rel_trans [OF s Cons.IH [OF this]] show ?case by simp
  qed (simp add: doc_frame.rel_refl)
  then show "t < length st \<Longrightarrow> doc_step st (append_copies i tag t st)" by (simp add: append_copies_def)
qed

lemma find_target_in: "find_target d st m n fs = Inr (Some t) \<Longrightarrow> t \<in> set fs"
  by (induction fs) (auto simp: res_simps split: if_splits)

lemma merge_internal_step:
  assumes "merge_internal d tree pub m i st = Inr st'" and "\<forall>f \<in> set pub. f < length st"
  shows "doc_step st st'"
proof -
  have app: "doc_step st (append_copies i ''remove'' t (append_copies i ''deprecate'' t (append_copies i ''require'' t st)))"
    if "t < length st" for t
    using that append_copies_step doc_step_length doc_frame.rel_trans order_less_le_trans by meson
  from assms show ?thesis
    by (auto simp: merge_internal_def res_simps doc_frame.rel_refl split: option.splits
        dest!: find_target_in doc_step_remove intro: doc_frame.rel_trans [OF app])
qed

lemma mergeInternalFeatures_step:
  assumes "mergeInternalFeatures d st tree api = Inr st'" and "wf_store st"
  shows "doc_step st st'"
proof -
  let ?fs = "matching_features st tree api"
  have len: "\<forall>f \<in> set ?fs. f < length st"
    using findall_wf [OF assms(2)] by (auto simp: matching_features_def)
  from assms(1) show ?thesis unfolding mergeInternalFeatures_def Let_def
  proof (rule for_each_inv)
    show "doc_step st st" by (rule doc_frame.rel_refl)
    fix i s s'
    assume s: "doc_step st s"
      and i: "merge_internal d tree (filter (\<lambda>f. \<not> is_internal st f) ?fs)
        (features_map st (filter (\<lambda>f. \<not> is_internal st f) ?fs @ filter (is_internal st) ?fs)) i s = Inr s'"
    have "doc_step s s'"
      using len doc_step_length [OF s] by (intro merge_internal_step [OF i]) fastforce
    with s show "doc_step st s'" by (rule doc_frame.rel_trans)
  qed
qed

section \<open>Properties of the stripped tree\<close>

text \<open>What stripping is meant to leave: below the root, the elements whose \<^verbatim>\<open>api\<close> matches.\<close>

fun prune :: "api_arg \<Rightarrow> xtree \<Rightarrow> xtree" where
  "prune api (XTree t ats tx tt cs) =
     XTree t ats tx tt (map (prune api) (filter (\<lambda>c. apiNameMatch api (map_of (xt_attrib c) ''api'')) cs))"

definition api_matches :: "api_arg \<Rightarrow> store \<Rightarrow> addr \<Rightarrow> bool" where
  "api_matches api st c \<longleftrightarrow> apiNameMatch api (elem_get st c ''api'')"

text \<open>
  The effect of the worklist so far, for the set \<open>V\<close> of elements whose children have been
  filtered: nothing but children lists changes, and those of \<open>V\<close> are filtered.
\<close>

definition stripped :: "api_arg \<Rightarrow> store \<Rightarrow> addr set \<Rightarrow> store \<Rightarrow> bool" where
  "stripped api st V st' \<longleftrightarrow> length st' = length st \<and>
     (\<forall>a. etag (node st' a) = etag (node st a) \<and> eattrib (node st' a) = eattrib (node st a) \<and>
          etext (node st' a) = etext (node st a) \<and> etail (node st' a) = etail (node st a) \<and>
          echildren (node st' a) =
            (if a \<in> V then filter (api_matches api st) (echildren (node st a)) else echildren (node st a)))"

lemma strip_children_filter:
  assumes "wf_store st" and "elem_children st p = pre @ cs" and "distinct (pre @ cs)"
  shows "for_each (strip_child api True p) cs (st, stack) =
    Inr (st[p := (node st p)\<lparr>echildren := pre @ filter (api_matches api st) cs\<rparr>],
         rev (filter (api_matches api st) cs) @ stack)"
  using assms
proof (induction cs arbitrary: st pre stack)
  case Nil
  have "(node st p)\<lparr>echildren := elem_children st p\<rparr> = node st p" by simp
  with Nil have n: "(node st p)\<lparr>echildren := pre\<rparr> = node st p" by simp
  have "st[p := node st p] = st"
    by (cases "p < length st") (simp_all add: node_def list_update_beyond)
  then show ?case by (simp add: n)
next
  case (Cons c cs)
  have c: "c \<in> set (elem_children st p)" using Cons.prems by simp
  with wf_storeD [OF Cons.prems(1) this] have p: "p < length st" by linarith
  show ?case
  proof (cases "api_matches api st c")
    case True
    with Cons.IH [of st "pre @ [c]" "c # stack"] Cons.prems show ?thesis
      by (simp add: strip_child_def api_matches_def)
  next
    case False
    let ?st = "st[p := (node st p)\<lparr>echildren := remove1 c (elem_children st p)\<rparr>]"
    have rm: "elem_remove st p c = Inr ?st" using c by (simp add: elem_remove_def)
    have same: "api_matches api ?st = api_matches api st"
      by (rule ext) (simp add: api_matches_def elem_get_def p)
    have "remove1 c (elem_children st p) = pre @ cs"
      using Cons.prems(2,3) by (simp add: remove1_append)
    then have ch: "elem_children ?st p = pre @ cs" using p by simp
    show ?thesis
      using Cons.IH [OF wf_elem_remove [OF Cons.prems(1) rm] ch] Cons.prems(3) False rm p
      by (simp add: strip_child_def same api_matches_def)
  qed
qed

definition distinct_children :: "store \<Rightarrow> bool" where
  "distinct_children st \<longleftrightarrow> (\<forall>a < length st. distinct (echildren (st ! a)))"

lemma distinct_childrenD: "distinct_children st \<Longrightarrow> distinct (elem_children st a)"
  by (simp add: distinct_children_def node_def no_node_def)

lemma stripped_step:
  assumes "stripped api st V st'" and "wf_store st'" and "p < length st"
    and "distinct (elem_children st' p)"
  shows "\<exists>st''. for_each (strip_child api True p) (down st' p) (st', stack) =
      Inr (st'', rev (filter (api_matches api st) (elem_children st p)) @ stack)
    \<and> stripped api st (insert p V) st'' \<and> wf_store st''
    \<and> (\<forall>a. set (elem_children st'' a) \<subseteq> set (elem_children st' a) \<and>
         (distinct (elem_children st' a) \<longrightarrow> distinct (elem_children st'' a)))"
proof -
  have am: "api_matches api st' = api_matches api st"
    using assms(1) by (auto simp: stripped_def api_matches_def elem_get_def fun_eq_iff)
  have fl: "filter (api_matches api st) (elem_children st' p) = filter (api_matches api st) (elem_children st p)"
    using assms(1) by (auto simp: stripped_def)
  let ?q = "st'[p := (node st' p)\<lparr>echildren := filter (api_matches api st) (elem_children st' p)\<rparr>]"
  have p: "p < length st'" using assms(1,3) by (simp add: stripped_def)
  have "for_each (strip_child api True p) (down st' p) (st', stack) =
      Inr (?q, rev (filter (api_matches api st) (elem_children st p)) @ stack)"
    using strip_children_filter [OF assms(2), of p "[]" "elem_children st' p" api stack] assms(2,4)
    by (simp add: am fl)
  moreover have "stripped api st (insert p V) ?q"
    using assms(1) p by (auto simp: stripped_def)
  moreover have "wf_store ?q"
  proof (rule wf_storeI)
    fix b c assume "c \<in> set (elem_children ?q b)"
    then have "c \<in> set (elem_children st' b)" using p by (auto split: if_splits)
    from wf_storeD [OF assms(2) this] show "b < c \<and> c < length ?q" by simp
  qed
  ultimately show ?thesis using p by (intro exI [where x = ?q]) auto
qed

lemma strip_loop_correct:
  assumes "stripped api st V st'" and "wf_store st'" and "\<forall>a. distinct (elem_children st' a)"
    and "set stack \<subseteq> {a. a < length st}"
    and "\<forall>a \<in> V. \<forall>c \<in> set (elem_children st a). api_matches api st c \<longrightarrow> c \<in> V \<union> set stack"
  shows "\<exists>st'' W. strip_loop api True (st', stack) = Inr st'' \<and> stripped api st W st'' \<and> wf_store st''
    \<and> V \<union> set stack \<subseteq> W \<and> (\<forall>a \<in> W. \<forall>c \<in> set (elem_children st a). api_matches api st c \<longrightarrow> c \<in> W)"
  using assms
proof (induction api "True" "(st', stack)" arbitrary: st' stack V rule: strip_loop.induct)
  case (1 api st')
  then show ?case by (intro exI [where x = st'] exI [where x = V]) auto
next
  case (2 api st' p stack)
  let ?ks = "filter (api_matches api st) (elem_children st p)"
  have p: "p < length st" using "2.prems"(4) by simp
  obtain st1 where step: "for_each (strip_child api True p) (down st' p) (st', stack) = Inr (st1, rev ?ks @ stack)"
    and s1: "stripped api st (insert p V) st1" "wf_store st1"
    and ch: "\<forall>a. set (elem_children st1 a) \<subseteq> set (elem_children st' a) \<and>
         (distinct (elem_children st' a) \<longrightarrow> distinct (elem_children st1 a))"
    using stripped_step [OF "2.prems"(1,2) p, of stack] "2.prems"(3) by blast
  have sub: "set ?ks \<subseteq> {a. a < length st}"
  proof
    fix c assume "c \<in> set ?ks"
    then have "c \<in> set (elem_children st' p)"
      using "2.prems"(1) by (auto simp: stripped_def)
    with wf_storeD [OF "2.prems"(2)] "2.prems"(1) show "c \<in> {a. a < length st}"
      by (auto simp: stripped_def)
  qed
  have "\<exists>st'' W. strip_loop api True (st1, rev ?ks @ stack) = Inr st'' \<and> stripped api st W st'' \<and> wf_store st''
    \<and> insert p V \<union> set (rev ?ks @ stack) \<subseteq> W
    \<and> (\<forall>a \<in> W. \<forall>c \<in> set (elem_children st a). api_matches api st c \<longrightarrow> c \<in> W)"
    by (rule "2.hyps" [OF step s1]) (use ch "2.prems"(3-5) sub in auto)
  then show ?case by (auto simp: step)
qed

lemma prune_read:
  assumes "stripped api st W st'" and "wf_store st" and "wf_store st'" and "a \<in> W"
    and "\<forall>a \<in> W. \<forall>c \<in> set (elem_children st a). api_matches api st c \<longrightarrow> c \<in> W"
  shows "read_tree st' a = prune api (read_tree st a)"
  using assms
proof (induction st a rule: read_tree.induct)
  case (1 st a)
  have ch: "elem_children st' a = filter (api_matches api st) (elem_children st a)"
    using "1.prems"(1,4) by (simp add: stripped_def)
  have root: "map_of (xt_attrib (read_tree st c)) ''api'' = elem_get st c ''api''" for c
    by (subst read_tree.simps) (simp add: elem_get_def)
  have IH: "read_tree st' c = prune api (read_tree st c)"
    if "c \<in> set (filter (api_matches api st) (elem_children st a))" for c
    using that "1.IH" [of c] "1.prems" by auto
  have "read_tree st' a = XTree (elem_tag st a) (eattrib (node st a)) (elem_text st a) (elem_tail st a)
      (map (read_tree st') (elem_children st' a))"
    using "1.prems"(1,3) by (subst read_tree.simps) (simp add: stripped_def)
  also have "\<dots> = XTree (elem_tag st a) (eattrib (node st a)) (elem_text st a) (elem_tail st a)
      (map (prune api) (map (read_tree st) (filter (api_matches api st) (elem_children st a))))"
    using IH by (simp add: ch)
  also have "\<dots> = prune api (XTree (elem_tag st a) (eattrib (node st a)) (elem_text st a)
      (elem_tail st a) (map (read_tree st) (elem_children st a)))"
    by (simp add: filter_map comp_def root api_matches_def [abs_def])
  also have "\<dots> = prune api (read_tree st a)"
    unfolding read_tree.simps [of st a] down_wf [OF "1.prems"(2)] ..
  finally show ?case .
qed

section \<open>Properties of the dependency search\<close>

definition dep_step :: "store \<Rightarrow> (string option, addr) dict \<Rightarrow> addr \<Rightarrow> addr \<Rightarrow> bool" where
  "dep_step st m f g \<longleftrightarrow> (\<exists>n \<in> set (get_dependencies st f). map_of m (Some n) = Some g)"

definition names_target :: "store \<Rightarrow> string option \<Rightarrow> addr \<Rightarrow> bool" where
  "names_target st target f \<longleftrightarrow> target \<in> Some ` set (get_dependencies st f)"

definition feature_name :: "store \<Rightarrow> addr \<Rightarrow> string option" where
  "feature_name st f = elem_get st f ''name''"

text \<open>The map sends every name to a feature of that name.\<close>

definition names_agree :: "store \<Rightarrow> (string option, addr) dict \<Rightarrow> bool" where
  "names_agree st m \<longleftrightarrow> (\<forall>(k, f) \<in> set m. feature_name st f = k)"

definition listed :: "store \<Rightarrow> (string option, addr) dict \<Rightarrow> addr \<Rightarrow> bool" where
  "listed st m f \<longleftrightarrow> map_of m (feature_name st f) = Some f"

definition explored ::
  "store \<Rightarrow> string option \<Rightarrow> (string option, addr) dict \<Rightarrow> string option set \<Rightarrow> string option set \<Rightarrow> bool" where
  "explored st target m V V' \<longleftrightarrow> (\<forall>f. listed st m f \<and> feature_name st f \<in> V' - V \<longrightarrow>
     \<not> names_target st target f \<and> (\<forall>g. dep_step st m f g \<longrightarrow> feature_name st g \<in> V'))"

abbreviation dep_body where
  "dep_body d st target m \<equiv> (\<lambda>dep_name visited. case map_of m (Some dep_name) of
     None \<Rightarrow> Inr (False, visited) | Some f \<Rightarrow> has_dependency d st target m f visited)"

lemma listed_map_of: "names_agree st m \<Longrightarrow> map_of m k = Some g \<Longrightarrow> listed st m g \<and> feature_name st g = k"
  using map_of_SomeD [of m k g] by (auto simp: names_agree_def listed_def)

lemma has_dependency_sound:
  assumes "names_agree st m" and "listed st m f"
    and "has_dependency d st target m f V = Inr (b, V')"
  shows "set V \<subseteq> set V' \<and> (b \<longrightarrow> (\<exists>g. (dep_step st m)\<^sup>*\<^sup>* f g \<and> names_target st target g)) \<and>
    (\<not> b \<longrightarrow> feature_name st f \<in> set V' \<and> explored st target m (set V) (set V'))"
  using assms(2,3)
proof (induction d arbitrary: f V b V')
  case (Suc d)
  have loop: "set U \<subseteq> set U' \<and> (b \<longrightarrow> (\<exists>g. (dep_step st m)\<^sup>*\<^sup>* f g \<and> names_target st target g)) \<and>
      (\<not> b \<longrightarrow> explored st target m (set U) (set U') \<and>
        (\<forall>n \<in> set ns. \<forall>g. map_of m (Some n) = Some g \<longrightarrow> feature_name st g \<in> set U'))"
    if "any_m (dep_body d st target m) ns U = Inr (b, U')" "set ns \<subseteq> set (get_dependencies st f)" for ns U b U'
    using that
  proof (induction ns arbitrary: U)
    case Nil
    then show ?case by (auto simp: explored_def)
  next
    case (Cons n ns)
    from Cons.prems(1) obtain b1 U1 where 1: "dep_body d st target m n U = Inr (b1, U1)"
      and 2: "if b1 then b \<and> U' = U1 else any_m (dep_body d st target m) ns U1 = Inr (b, U')"
      by (fastforce simp: res_simps split: if_splits)
    have one: "set U \<subseteq> set U1 \<and> (b1 \<longrightarrow> (\<exists>g. (dep_step st m)\<^sup>*\<^sup>* f g \<and> names_target st target g)) \<and>
        (\<not> b1 \<longrightarrow> explored st target m (set U) (set U1) \<and>
          (\<forall>g. map_of m (Some n) = Some g \<longrightarrow> feature_name st g \<in> set U1))"
    proof (cases "map_of m (Some n)")
      case None
      with 1 show ?thesis by (auto simp: explored_def)
    next
      case (Some g)
      with 1 have "has_dependency d st target m g U = Inr (b1, U1)" by simp
      from Suc.IH [OF _ this] listed_map_of [OF assms(1) Some]
      have g: "set U \<subseteq> set U1 \<and> (b1 \<longrightarrow> (\<exists>h. (dep_step st m)\<^sup>*\<^sup>* g h \<and> names_target st target h)) \<and>
        (\<not> b1 \<longrightarrow> feature_name st g \<in> set U1 \<and> explored st target m (set U) (set U1))" by blast
      have "dep_step st m f g" using Some Cons.prems(2) by (auto simp: dep_step_def)
      with g show ?thesis using Some by (auto intro: converse_rtranclp_into_rtranclp)
    qed
    show ?case
    proof (cases b1)
      case True
      with 2 one show ?thesis by auto
    next
      case False
      with 2 Cons.IH [of U1] Cons.prems(2)
      have rest: "set U1 \<subseteq> set U' \<and> (b \<longrightarrow> (\<exists>g. (dep_step st m)\<^sup>*\<^sup>* f g \<and> names_target st target g)) \<and>
        (\<not> b \<longrightarrow> explored st target m (set U1) (set U') \<and>
          (\<forall>n \<in> set ns. \<forall>g. map_of m (Some n) = Some g \<longrightarrow> feature_name st g \<in> set U'))" by simp
      have "explored st target m (set U) (set U')" if "\<not> b"
        using that rest one False unfolding explored_def by blast
      with rest one False show ?thesis by auto
    qed
  qed
  show ?case
  proof (cases "feature_name st f \<in> set V")
    case True
    with Suc.prems show ?thesis by (auto simp: Let_def feature_name_def explored_def)
  next
    case new: False
    show ?thesis
    proof (cases "names_target st target f")
      case True
      with new Suc.prems show ?thesis by (auto simp: Let_def feature_name_def names_target_def)
    next
      case False
      with new Suc.prems(2)
      have "any_m (dep_body d st target m) (get_dependencies st f) (feature_name st f # V) = Inr (b, V')"
        by (simp add: Let_def feature_name_def names_target_def)
      from loop [OF this]
      have l: "insert (feature_name st f) (set V) \<subseteq> set V'"
          "b \<longrightarrow> (\<exists>g. (dep_step st m)\<^sup>*\<^sup>* f g \<and> names_target st target g)"
        and c: "\<not> b \<longrightarrow> explored st target m (insert (feature_name st f) (set V)) (set V') \<and>
            (\<forall>g. dep_step st m f g \<longrightarrow> feature_name st g \<in> set V')"
        by (auto simp: dep_step_def)
      have "explored st target m (set V) (set V')" if "\<not> b"
        unfolding explored_def
      proof (intro allI impI)
        fix h assume h: "listed st m h \<and> feature_name st h \<in> set V' - set V"
        show "\<not> names_target st target h \<and> (\<forall>g. dep_step st m h g \<longrightarrow> feature_name st g \<in> set V')"
        proof (cases "feature_name st h = feature_name st f")
          case True
          with h Suc.prems(1) have "h = f" by (simp add: listed_def)
          with False c that show ?thesis by simp
        next
          case diff: False
          with h c that show ?thesis unfolding explored_def by blast
        qed
      qed
      with l show ?thesis by auto
    qed
  qed
qed simp

lemma has_dependency_returns:
  assumes "names_agree st m" and "listed st m f" and "card (fst ` set m - set V) < d"
  shows "\<exists>r. has_dependency d st target m f V = Inr r"
  using assms(2,3)
proof (induction d arbitrary: f V)
  case (Suc d)
  have fin: "finite (fst ` set m)" by simp
  have name: "feature_name st f \<in> fst ` set m"
    using Suc.prems(1) by (auto simp: listed_def dest!: map_of_SomeD intro: rev_image_eqI)
  have loop: "\<exists>r. any_m (dep_body d st target m) ns U = Inr r" if "card (fst ` set m - set U) < d" for ns U
    using that
  proof (induction ns arbitrary: U)
    case (Cons n ns)
    show ?case
    proof (cases "map_of m (Some n)")
      case None
      with Cons.IH [OF Cons.prems] show ?thesis by simp
    next
      case (Some g)
      have lg: "listed st m g" using listed_map_of [OF assms(1) Some] by simp
      from Suc.IH [OF lg Cons.prems] obtain b1 U1 where h: "has_dependency d st target m g U = Inr (b1, U1)"
        by (metis surj_pair)
      have "set U \<subseteq> set U1" using has_dependency_sound [OF assms(1) lg h] by simp
      then have "card (fst ` set m - set U1) \<le> card (fst ` set m - set U)" using fin by (intro card_mono) auto
      with Cons.prems Cons.IH [of U1] h Some show ?thesis by auto
    qed
  qed (simp only: any_m.simps, blast)
  show ?case
  proof (cases "feature_name st f \<in> set V")
    case True
    then show ?thesis by (auto simp: Let_def feature_name_def intro: exI [where x = False])
  next
    case False
    have "fst ` set m - set (feature_name st f # V) \<subset> fst ` set m - set V" using name False by auto
    then have "card (fst ` set m - set (feature_name st f # V)) < card (fst ` set m - set V)"
      using fin by (intro psubset_card_mono) auto
    with Suc.prems(2) have "card (fst ` set m - set (feature_name st f # V)) < d" by linarith
    from loop [OF this, of "get_dependencies st f"] show ?thesis
      using False by (auto simp: Let_def feature_name_def)
  qed
qed simp

section \<open>Claims\<close>

text \<open>C6: stripping removes exactly the elements below the root whose \<^verbatim>\<open>api\<close> attribute does not
  match, with everything under them, keeps the order and contents of the rest, and never raises.\<close>

theorem stripNonmatchingAPIs_prunes:
  assumes "wf_store st" and "distinct_children st" and "tree < length st"
  shows "\<exists>st'. stripNonmatchingAPIs st tree api True = Inr st' \<and> wf_store st' \<and>
    read_tree st' tree = prune api (read_tree st tree)"
proof -
  have "stripped api st {} st" by (simp add: stripped_def)
  from strip_loop_correct [OF this assms(1), of "[tree]"] assms(2,3)
  obtain st' W where 1: "strip_loop api True (st, [tree]) = Inr st'" "stripped api st W st'" "wf_store st'"
    "tree \<in> W" "\<forall>a \<in> W. \<forall>c \<in> set (elem_children st a). api_matches api st c \<longrightarrow> c \<in> W"
    by (auto simp: distinct_childrenD)
  with prune_read [OF 1(2) assms(1) 1(3,4,5)] show ?thesis by (simp add: stripNonmatchingAPIs_def)
qed

definition strip_example :: store where
  "strip_example = snd (alloc_tree (XTree ''registry'' [] None None
     [XTree ''type'' [(''api'', ''vulkansc'')] None None [], XTree ''type'' [(''api'', ''vulkan,vulkansc'')] None None []]) [])"

theorem stripNonmatchingAPIs_prunes_witness:
  "\<exists>st'. stripNonmatchingAPIs strip_example 0 (ApiStr ''vulkan'') True = Inr st' \<and>
     read_tree st' 0 = XTree ''registry'' [] None None [XTree ''type'' [(''api'', ''vulkan,vulkansc'')] None None []]"
proof -
  have "wf_store strip_example" by (simp add: strip_example_def wf_alloc del: alloc_tree.simps)
  moreover have "distinct_children strip_example" and "0 < length strip_example"
    by (auto simp: strip_example_def distinct_children_def less_Suc_eq nth_Cons')
  moreover have "read_tree strip_example 0 = XTree ''registry'' [] None None
     [XTree ''type'' [(''api'', ''vulkansc'')] None None [], XTree ''type'' [(''api'', ''vulkan,vulkansc'')] None None []]"
    unfolding strip_example_def by (metis read_alloc(1) list.size(3) wf_store_Nil)
  ultimately show ?thesis
    using stripNonmatchingAPIs_prunes [of strip_example 0 "ApiStr ''vulkan''"]
    by (auto simp: apiNameMatch_def)
qed

text \<open>C7: the search for a dependency of a public feature on an internal one answers whether
  some feature it transitively depends on (itself included) names the target, for any cyclic
  dependency graph, as soon as the recursion depth exceeds the number of features.\<close>

theorem has_dependency_reachable:
  assumes "names_agree st m" and "listed st m f" and "length m < d"
  shows "\<exists>visited. has_dependency d st target m f [] =
    Inr (\<exists>g. (dep_step st m)\<^sup>*\<^sup>* f g \<and> names_target st target g, visited)"
proof -
  have "card (fst ` set m - set []) \<le> length m"
    by (simp, metis card_length length_map set_map)
  with assms(3) have "card (fst ` set m - set []) < d" by linarith
  from has_dependency_returns [OF assms(1,2) this] obtain b V where
    r: "has_dependency d st target m f [] = Inr (b, V)" by (metis surj_pair)
  from has_dependency_sound [OF assms(1,2) r]
  have yes: "b \<longrightarrow> (\<exists>g. (dep_step st m)\<^sup>*\<^sup>* f g \<and> names_target st target g)"
    and no: "\<not> b \<longrightarrow> feature_name st f \<in> set V \<and> explored st target m {} (set V)" by auto
  have "\<not> names_target st target g" if "\<not> b" "(dep_step st m)\<^sup>*\<^sup>* f g" for g
  proof -
    from that(2) have "listed st m g \<and> feature_name st g \<in> set V"
    proof (induction rule: rtranclp_induct)
      case base
      then show ?case using assms(2) no that(1) by simp
    next
      case (step g h)
      then have "listed st m h" using listed_map_of [OF assms(1)] by (auto simp: dep_step_def)
      with step no that(1) show ?case by (auto simp: explored_def)
    qed
    with no that(1) show ?thesis by (auto simp: explored_def)
  qed
  with yes have "b = (\<exists>g. (dep_step st m)\<^sup>*\<^sup>* f g \<and> names_target st target g)" by blast
  with r show ?thesis by blast
qed

definition cyclic_features :: store where
  "cyclic_features =
     [\<lparr>etag = ''feature'', eattrib = [(''name'', ''A''), (''depends'', ''B+X'')], etext = None, etail = None, echildren = []\<rparr>,
      \<lparr>etag = ''feature'', eattrib = [(''name'', ''B''), (''depends'', ''A,T'')], etext = None, etail = None, echildren = []\<rparr>]"

theorem has_dependency_reachable_witness:
  "\<exists>v. has_dependency 3 cyclic_features (Some ''T'') [(Some ''A'', 0), (Some ''B'', 1)] 0 [] = Inr (True, v)"
proof -
  let ?m = "[(Some ''A'', 0), (Some ''B'', 1)]"
  have deps: "get_dependencies cyclic_features 0 = [''B'', ''X'']" "get_dependencies cyclic_features (Suc 0) = [''A'', ''T'']"
    by (simp_all add: get_dependencies_def elem_get_default_def elem_get_def node_def cyclic_features_def
        strip_def lstrip_def rstrip_def py_isspace_def)
  have "dep_step cyclic_features ?m 0 1" by (simp add: dep_step_def deps)
  moreover have "names_target cyclic_features (Some ''T'') 1" by (simp add: names_target_def deps)
  ultimately have reach: "\<exists>g. (dep_step cyclic_features ?m)\<^sup>*\<^sup>* 0 g \<and> names_target cyclic_features (Some ''T'') g"
    by blast
  have "names_agree cyclic_features ?m" and "listed cyclic_features ?m 0"
    by (simp_all add: names_agree_def listed_def feature_name_def elem_get_def node_def cyclic_features_def)
  from has_dependency_reachable [OF this, of 3 "Some ''T''"] reach show ?thesis by simp
qed

end
