(* ===== verification/Options.thy ===== *)
theory Options
  imports SortFeatures RegTree
begin

text \<open>
  The options of a generator: the regular expressions that select versions and extensions
  (\<^verbatim>\<open>emptyRegex\<close> of \<^verbatim>\<open>generator.py\<close>, \<^verbatim>\<open>makeREstring\<close> of \<^verbatim>\<open>genvkex.py\<close>), the classes
  \<^verbatim>\<open>GeneratorOptions\<close> and \<^verbatim>\<open>VkexGeneratorOptions\<close>, and \<^verbatim>\<open>genTarget\<close>, which fills them from the
  command line. A pattern is kept as its syntax tree; \<open>re_match\<close> is \<^verbatim>\<open>re.match\<close>, which anchors
  the pattern at the start of the string only.
\<close>

section \<open>Regular expressions\<close>

datatype rx =
    Eps
  | Chr char
  | Dot
  | Begin
  | End
  | Seq rx rx
  | Alt rx rx
  | Star rx

text \<open>The positions at which a match that starts at \<open>i\<close> can end.\<close>

fun star_ends :: "(nat \<Rightarrow> nat list) \<Rightarrow> nat \<Rightarrow> nat \<Rightarrow> nat list" where
  "star_ends f 0 i = [i]"
| "star_ends f (Suc n) i = i # concat (map (star_ends f n) (filter (\<lambda>j. i < j) (f i)))"

fun rx_ends :: "rx \<Rightarrow> string \<Rightarrow> nat \<Rightarrow> nat list" where
  "rx_ends Eps s i = [i]"
| "rx_ends (Chr c) s i = (if i < length s \<and> s ! i = c then [Suc i] else [])"
| "rx_ends Dot s i = (if i < length s \<and> s ! i \<noteq> CHR 0x0A then [Suc i] else [])"
| "rx_ends Begin s i = (if i = 0 then [i] else [])"
| "rx_ends End s i = (if i = length s \<or> Suc i = length s \<and> s ! i = CHR 0x0A then [i] else [])"
| "rx_ends (Seq p q) s i = concat (map (rx_ends q s) (rx_ends p s i))"
| "rx_ends (Alt p q) s i = rx_ends p s i @ rx_ends q s i"
| "rx_ends (Star p) s i = star_ends (rx_ends p s) (length s) i"

definition re_match :: "rx \<Rightarrow> string \<Rightarrow> bool" where
  "re_match p s \<longleftrightarrow> rx_ends p s 0 \<noteq> []"

text \<open>A literal string (\<^verbatim>\<open>re.escape\<close>), the pattern \<^verbatim>\<open>.*\<close>, and patterns joined by \<^verbatim>\<open>|\<close>.\<close>

definition rx_str :: "string \<Rightarrow> rx" where
  "rx_str s = foldr (\<lambda>c r. Seq (Chr c) r) s Eps"

definition rx_all :: rx where
  "rx_all = Star Dot"

fun rx_alts :: "rx list \<Rightarrow> rx" where
  "rx_alts [] = Eps"
| "rx_alts [r] = r"
| "rx_alts (r # q # rs) = Alt r (rx_alts (q # rs))"

text \<open>\<^verbatim>\<open>emptyRegex\<close>: no pattern, or the empty one, becomes \<^verbatim>\<open>_nomatch_^\<close>.\<close>

definition emptyRegex :: "rx option \<Rightarrow> rx" where
  "emptyRegex pat =
     (if pat = None \<or> pat = Some Eps then Seq (rx_str ''_nomatch_'') Begin else the pat)"

text \<open>
  \<^verbatim>\<open>makeREstring\<close>; \<open>rd\<close> reads the pattern that the user wrote, for the call that takes
  patterns instead of names.
\<close>

definition makeREstring :: "(string \<Rightarrow> rx) \<Rightarrow> string list \<Rightarrow> rx option \<Rightarrow> bool \<Rightarrow> rx option" where
  "makeREstring rd strings def strings_are_regex =
     (if strings \<noteq> [] \<or> def = None then
        let strings = (if strings_are_regex then map rd strings else map rx_str strings) in
        Some (Seq Begin (Seq (rx_alts strings) End))
      else def)"

section \<open>\<open>GeneratorOptions\<close>\<close>

datatype conventions_object = VulkanConventions

type_synonym sort_procedure = "store \<Rightarrow> pname list \<Rightarrow> (pname, feature_info) dict \<Rightarrow> pname list res"

text \<open>The keyword arguments of the constructor, and their defaults.\<close>

record gen_args =
  a_conventions :: "conventions_object option"
  a_filename :: "string option"
  a_directory :: string
  a_genpath :: "string option"
  a_apiname :: "string option"
  a_mergeApiNames :: "string option"
  a_mergeInternalApis :: bool
  a_profile :: "string option"
  a_versions :: "rx option"
  a_emitversions :: "rx option"
  a_defaultExtensions :: api_arg
  a_addExtensions :: "rx option"
  a_removeExtensions :: "rx option"
  a_emitExtensions :: "rx option"
  a_emitSpirv :: "rx option"
  a_emitFormats :: "rx option"
  a_reparentEnums :: bool
  a_sortProcedure :: "sort_procedure option"
  a_requireCommandAliases :: bool
  a_requireDepends :: bool

definition default_args :: gen_args where
  "default_args =
     \<lparr>a_conventions = None, a_filename = None, a_directory = ''.'', a_genpath = None, a_apiname = None,
      a_mergeApiNames = None, a_mergeInternalApis = True, a_profile = None,
      a_versions = Some rx_all, a_emitversions = Some rx_all, a_defaultExtensions = ApiNone,
      a_addExtensions = None, a_removeExtensions = None, a_emitExtensions = None, a_emitSpirv = None,
      a_emitFormats = None, a_reparentEnums = True, a_sortProcedure = Some regSortFeatures,
      a_requireCommandAliases = False, a_requireDepends = True\<rparr>"

record generator_options =
  conventions :: "conventions_object option"
  filename :: "string option"
  genpath :: "string option"
  directory :: string
  apiname :: "string option"
  mergeApiNames :: "string option"
  mergeInternalApis :: bool
  profile :: "string option"
  versions :: rx
  emitversions :: rx
  defaultExtensions :: api_arg
  addExtensions :: rx
  removeExtensions :: rx
  emitExtensions :: rx
  emitSpirv :: rx
  emitFormats :: rx
  reparentEnums :: bool
  sortProcedure :: "sort_procedure option"
  codeGenerator :: bool
  requireCommandAliases :: bool
  requireDepends :: bool

definition GeneratorOptions :: "'a gen_args_scheme \<Rightarrow> generator_options" where
  "GeneratorOptions a =
     \<lparr>conventions = a_conventions a, filename = a_filename a, genpath = a_genpath a,
      directory = a_directory a, apiname = a_apiname a, mergeApiNames = a_mergeApiNames a,
      mergeInternalApis = a_mergeInternalApis a, profile = a_profile a,
      versions = emptyRegex (a_versions a), emitversions = emptyRegex (a_emitversions a),
      defaultExtensions = a_defaultExtensions a, addExtensions = emptyRegex (a_addExtensions a),
      removeExtensions = emptyRegex (a_removeExtensions a),
      emitExtensions = emptyRegex (a_emitExtensions a), emitSpirv = emptyRegex (a_emitSpirv a),
      emitFormats = emptyRegex (a_emitFormats a), reparentEnums = a_reparentEnums a,
      sortProcedure = a_sortProcedure a, codeGenerator = False,
      requireCommandAliases = a_requireCommandAliases a, requireDepends = a_requireDepends a\<rparr>"

section \<open>\<open>VkexGeneratorOptions\<close>\<close>

record vkex_fields =
  prefixText :: "string list"
  genFuncPointers :: bool
  protectFile :: bool
  protectFeature :: bool
  protectProto :: "string option"
  protectProtoStr :: "string option"
  protectExtensionProto :: "string option"
  protectExtensionProtoStr :: "string option"
  apicall :: string
  apientry :: string
  apientryp :: string
  indentFuncProto :: bool
  indentFuncPointer :: bool
  alignFuncParam :: int
  genEnumBeginEndRange :: bool
  genAliasMacro :: bool
  genStructExtendsComment :: bool
  aliasMacro :: string
  misracstyle :: bool
  misracppstyle :: bool

definition default_vkex :: vkex_fields where
  "default_vkex =
     \<lparr>prefixText = [], genFuncPointers = True, protectFile = True, protectFeature = True,
      protectProto = None, protectProtoStr = None, protectExtensionProto = None,
      protectExtensionProtoStr = None, apicall = [], apientry = [], apientryp = [],
      indentFuncProto = True, indentFuncPointer = False, alignFuncParam = 0,
      genEnumBeginEndRange = False, genAliasMacro = False, genStructExtendsComment = False,
      aliasMacro = [], misracstyle = False, misracppstyle = False\<rparr>"

record vkex_options = generator_options +
  vkex :: vkex_fields

definition VkexGeneratorOptions :: "vkex_fields \<Rightarrow> gen_args \<Rightarrow> vkex_options" where
  "VkexGeneratorOptions f a =
     generator_options.extend ((GeneratorOptions a)\<lparr>codeGenerator := True\<rparr>) (vkex_options.fields f)"

section \<open>\<open>genTarget\<close>\<close>

text \<open>The parsed command line, as far as \<^verbatim>\<open>genTarget\<close> reads it.\<close>

record cli_args =
  cli_apiname :: "string option"
  cli_mergeApiNames :: "string option"
  cli_extension :: "string list"
  cli_removeExtensions :: "string list"
  cli_emitExtensions :: "string list"
  cli_feature :: "string list"
  cli_protect :: bool
  cli_directory :: string
  cli_misracstyle :: bool
  cli_misracppstyle :: bool

definition xml_api_name :: "conventions_object \<Rightarrow> string" where
  "xml_api_name c = ''vulkan''"

definition genTarget :: "(string \<Rightarrow> rx) \<Rightarrow> cli_args \<Rightarrow> vkex_options" where
  "genTarget rd args =
     (let defaultExtensions = ApiObject;
          allFeatures = rx_all; allExtensions = rx_all;
          addExtensionsPat = rx_all;
          emitExtensionsPat = makeREstring rd (cli_emitExtensions args) (Some allExtensions) False;
          featuresPat = makeREstring rd (cli_feature args) (Some allFeatures) False;
          conventions = VulkanConventions;
          defaultAPIName = (case cli_apiname args of Some a \<Rightarrow> a | None \<Rightarrow> xml_api_name conventions);
          removeExtensionsPat = makeREstring rd (cli_removeExtensions args) None True
      in VkexGeneratorOptions
           (default_vkex\<lparr>
              prefixText := [''/*'',
                ''** This header is generated from the Khronos Vulkan XML API Registry.'', ''**'', ''*/'', []],
              genFuncPointers := False, protectFile := cli_protect args, protectFeature := True,
              protectProto := Some ''#ifndef'', protectProtoStr := Some ''VK_NO_PROTOTYPES'',
              apicall := ''VKAPI_ATTR '', apientry := ''VKAPI_CALL '', apientryp := ''VKAPI_PTR *'',
              alignFuncParam := 48, misracstyle := cli_misracstyle args,
              misracppstyle := cli_misracppstyle args\<rparr>)
           (default_args\<lparr>
              a_conventions := Some conventions, a_filename := Some ''vkex.hpp'',
              a_directory := cli_directory args, a_genpath := None, a_apiname := Some defaultAPIName,
              a_mergeApiNames := cli_mergeApiNames args, a_profile := None,
              a_versions := featuresPat, a_emitversions := featuresPat,
              a_defaultExtensions := defaultExtensions, a_addExtensions := Some addExtensionsPat,
              a_removeExtensions := removeExtensionsPat, a_emitExtensions := emitExtensionsPat\<rparr>))"

section \<open>What the patterns match\<close>

lemma prefix_drop_Cons: "prefix (c # x) (drop i s) \<longleftrightarrow> i < length s \<and> s ! i = c \<and> prefix x (drop (Suc i) s)"
  by (cases "i < length s") (auto simp: Cons_nth_drop_Suc [symmetric])

lemma rx_ends_str: "rx_ends (rx_str x) s i = (if prefix x (drop i s) then [i + length x] else [])"
proof (induction x arbitrary: i)
  case (Cons c x)
  have "rx_str (c # x) = Seq (Chr c) (rx_str x)" by (simp add: rx_str_def)
  with Cons show ?case by (simp add: prefix_drop_Cons)
qed (simp add: rx_str_def)

lemma rx_ends_alts: "rs \<noteq> [] \<Longrightarrow> set (rx_ends (rx_alts rs) s i) = (\<Union>r \<in> set rs. set (rx_ends r s i))"
  by (induction rs rule: rx_alts.induct) auto

lemma star_ends_start: "i \<in> set (star_ends f n i)"
  by (cases n) auto

lemma re_match_all [simp]: "re_match rx_all s"
  using star_ends_start [of 0 "rx_ends Dot s" "length s"] by (auto simp: re_match_def rx_all_def)

lemma re_match_iff: "re_match p s \<longleftrightarrow> (\<exists>j. j \<in> set (rx_ends p s 0))"
  by (auto simp: re_match_def simp flip: set_empty)

lemma emptyRegex_None [simp]: "\<not> re_match (emptyRegex None) s"
  by (simp add: re_match_def emptyRegex_def rx_ends_str)

lemma End_iff: "i \<le> length s \<Longrightarrow> rx_ends End s i \<noteq> [] \<longleftrightarrow> drop i s = [] \<or> drop i s = [CHR 0x0A]"
proof -
  assume "i \<le> length s"
  have "drop i s = [CHR 0x0A] \<longleftrightarrow> Suc i = length s \<and> s ! i = CHR 0x0A"
  proof
    assume d: "drop i s = [CHR 0x0A]"
    then have "length (drop i s) = 1" "hd (drop i s) = CHR 0x0A" by simp_all
    then show "Suc i = length s \<and> s ! i = CHR 0x0A" by (simp add: hd_drop_conv_nth)
  next
    assume "Suc i = length s \<and> s ! i = CHR 0x0A"
    then show "drop i s = [CHR 0x0A]" by (metis Cons_nth_drop_Suc drop_all lessI order_refl)
  qed
  with \<open>i \<le> length s\<close> show ?thesis by auto
qed

text \<open>A whole name, or a name and a final line feed, which \<^verbatim>\<open>$\<close> lets through.\<close>

lemma str_End: "(\<exists>i \<in> set (rx_ends (rx_str x) s 0). rx_ends End s i \<noteq> []) \<longleftrightarrow> s = x \<or> s = x @ [CHR 0x0A]"
proof (cases "prefix x s")
  case True
  then obtain t where "s = x @ t" by (auto simp: prefix_def)
  then show ?thesis using End_iff [of "length x" s] by (auto simp: rx_ends_str)
qed (auto simp: rx_ends_str)

lemma re_match_names:
  "re_match (Seq Begin (Seq (rx_alts (map rx_str names)) End)) s \<longleftrightarrow>
     (if names = [] then s = [] \<or> s = [CHR 0x0A] else \<exists>n \<in> set names. s = n \<or> s = n @ [CHR 0x0A])"
proof -
  have m: "re_match (Seq Begin (Seq r End)) s \<longleftrightarrow> (\<exists>i \<in> set (rx_ends r s 0). rx_ends End s i \<noteq> [])" for r
    unfolding re_match_iff by (auto split: if_splits)
  show ?thesis
  proof (cases "names = []")
    case True
    have "rx_alts (map rx_str names) = rx_str []" by (simp add: True rx_str_def)
    with str_End [of "[]" s] True show ?thesis unfolding m by (simp del: rx_ends.simps)
  next
    case False
    then have "(\<exists>i \<in> set (rx_ends (rx_alts (map rx_str names)) s 0). rx_ends End s i \<noteq> []) \<longleftrightarrow>
        (\<exists>n \<in> set names. \<exists>i \<in> set (rx_ends (rx_str n) s 0). rx_ends End s i \<noteq> [])"
      by (simp add: rx_ends_alts del: rx_ends.simps)
    then show ?thesis using False unfolding m by (simp only: str_End if_False)
  qed
qed

text \<open>The pattern that \<^verbatim>\<open>makeREstring\<close> builds from names matches exactly the names and the names
  followed by a line feed; with no names and no default it matches the empty name only, so an
  empty list of removed extensions removes nothing.
\<close>

lemma makeREstring_matches:
  "names \<noteq> [] \<or> def = None \<Longrightarrow>
     \<exists>p. makeREstring rd names def False = Some p \<and>
         (\<forall>s. re_match p s \<longleftrightarrow>
            (if names = [] then s = [] \<or> s = [CHR 0x0A]
             else \<exists>n \<in> set names. s = n \<or> s = n @ [CHR 0x0A]))"
proof -
  assume "names \<noteq> [] \<or> def = None"
  then have "makeREstring rd names def False = Some (Seq Begin (Seq (rx_alts (map rx_str names)) End))"
    by (auto simp: makeREstring_def)
  with re_match_names [of names] show ?thesis by blast
qed

lemma makeREstring_example:
  "\<exists>p. makeREstring rx_str [''VK_KHR_surface''] None False = Some p \<and>
     re_match p ''VK_KHR_surface'' \<and> \<not> re_match p ''VK_KHR_surface2''"
  using makeREstring_matches [of "[''VK_KHR_surface'']" None rx_str] by fastforce


definition example_args :: cli_args where
  "example_args = \<lparr>cli_apiname = None, cli_mergeApiNames = None, cli_extension = [],
     cli_removeExtensions = [], cli_emitExtensions = [], cli_feature = [], cli_protect = True,
     cli_directory = ''.'', cli_misracstyle = False, cli_misracppstyle = False\<rparr>"


end
