(* ===== verification/Registry.thy ===== *)
theory Registry
  imports Options
begin

text \<open>
  The class \<^verbatim>\<open>Registry\<close> of \<^verbatim>\<open>src/tools/vkex/reg.py\<close>: its state as a record, its messages, and the
  operations that every other part uses. The element tree is the store \<open>doc\<close>; \<open>tree_root\<close> is
  \<^verbatim>\<open>self.tree\<close> and \<open>reg\<close> is \<^verbatim>\<open>self.reg\<close>. The dictionary of features that the generator keeps
  (\<^verbatim>\<open>self.gen.featureDictionary\<close>) is written by the registry only, so it is part of the record.
  The warnings are kept in \<open>warnings\<close>, oldest first; diagnostics are not modelled.
\<close>

section \<open>State\<close>

text \<open>
  The inner dictionaries of \<^verbatim>\<open>featureDictionary\<close>: by category, by the \<^verbatim>\<open>depends\<close> attribute of the
  block, and (commands excepted) by the name that is extended.
\<close>

datatype feature_names = Names "pname list" | NamesBy "(pname, pname list) dict"

type_synonym feature_entry = "(pname, (pname, feature_names) dict) dict"

record command_extension =
  ce_command :: pname
  ce_value :: string
  ce_extension :: pname

record registry =
  gen_opts :: generator_options
  doc :: store
  tree_root :: "addr option"
  reg :: addr
  typedict :: "type_info info_dict"
  groupdict :: "group_info info_dict"
  enumdict :: "enum_info info_dict"
  cmddict :: "cmd_info info_dict"
  aliasdict :: "(pname, string) dict"
  enumvaluedict :: "(pname, pname) dict"
  apidict :: "feature_info info_dict"
  extensions :: "addr list"
  genFeatures :: "(pname, feature_info) dict"
  extdict :: "feature_info info_dict"
  spirvextdict :: "spirv_info info_dict"
  spirvcapdict :: "spirv_info info_dict"
  formatsdict :: "cond_info info_dict"
  syncstagedict :: "cond_info info_dict"
  syncaccessdict :: "cond_info info_dict"
  syncpipelinedict :: "base_info info_dict"
  emitFeatures :: bool
  requiredextensions :: "pname list"
  validextensionstructs :: "(string, pname list) dict"
  commandextensionsuccesses :: "command_extension list"
  commandextensionerrors :: "command_extension list"
  removedExtensionNames :: "pname list option"
  featureDictionary :: "(pname, feature_entry) dict"
  warnings :: "string list"

text \<open>\<^verbatim>\<open>Registry(gen, genOpts)\<close>; without options, those of the default API are used.\<close>

definition Registry :: "generator_options option \<Rightarrow> registry" where
  "Registry genOpts =
     \<lparr>gen_opts = (case genOpts of
         None \<Rightarrow> GeneratorOptions (default_args\<lparr>a_apiname := Some (xml_api_name VulkanConventions)\<rparr>)
       | Some opts \<Rightarrow> opts),
      doc = [], tree_root = None, reg = 0, typedict = [], groupdict = [], enumdict = [], cmddict = [],
      aliasdict = [], enumvaluedict = [], apidict = [], extensions = [], genFeatures = [], extdict = [],
      spirvextdict = [], spirvcapdict = [], formatsdict = [], syncstagedict = [], syncaccessdict = [],
      syncpipelinedict = [], emitFeatures = False, requiredextensions = [], validextensionstructs = [],
      commandextensionsuccesses = [], commandextensionerrors = [], removedExtensionNames = None,
      featureDictionary = [], warnings = []\<rparr>"

section \<open>Messages\<close>

text \<open>\<^verbatim>\<open>logMsg('warn', ...)\<close> and \<^verbatim>\<open>logMsg('error', ...)\<close>; the latter raises.\<close>

definition warn :: "string list \<Rightarrow> registry \<Rightarrow> registry" where
  "warn args r = r\<lparr>warnings := warnings r @ [py_join '' '' (''WARNING:'' # args)]\<rparr>"

definition log_error :: "string list \<Rightarrow> 'a res" where
  "log_error args = Inl (UserWarning (py_join '' '' (''ERROR:'' # args) @ [CHR 0x0A]))"

section \<open>Dictionaries\<close>

text \<open>
  The API name of the options as \<^verbatim>\<open>lookupElementInfo\<close> pairs it with a name; no key of a
  dictionary is such a pair, so the empty name stands for a missing one.
\<close>

definition api_name :: "registry \<Rightarrow> string" where
  "api_name r = (case apiname (gen_opts r) of None \<Rightarrow> [] | Some a \<Rightarrow> a)"

definition reg_lookup :: "registry \<Rightarrow> pname \<Rightarrow> 'i info_dict \<Rightarrow> 'i option" where
  "reg_lookup r name d = lookupElementInfo (api_name r) name d"

text \<open>\<^verbatim>\<open>addElementInfo\<close> on one of the dictionaries, given by its selector and its update.\<close>

definition reg_add ::
  "(registry \<Rightarrow> 'a base_info_scheme info_dict)
     \<Rightarrow> (('a base_info_scheme info_dict \<Rightarrow> 'a base_info_scheme info_dict) \<Rightarrow> registry \<Rightarrow> registry)
     \<Rightarrow> addr \<Rightarrow> 'a base_info_scheme \<Rightarrow> string \<Rightarrow> registry \<Rightarrow> registry" where
  "reg_add sel upd e info infoName r =
     (case addElementInfo (doc r) e info infoName (sel r) of
        (d, ws) \<Rightarrow> fold (\<lambda>w. warn [w]) ws (upd (\<lambda>_. d) r))"

definition addEnumValue :: "addr \<Rightarrow> pname \<Rightarrow> registry \<Rightarrow> registry res" where
  "addEnumValue enum type_name r =
     (let value = elem_get (doc r) enum ''name'';
          alias = elem_get (doc r) enum ''alias'';
          r = (if truthy alias then r\<lparr>aliasdict := AList.update value (the alias) (aliasdict r)\<rparr> else r);
          type_name = (case map_of (aliasdict r) type_name of Some t \<Rightarrow> Some t | None \<Rightarrow> type_name)
      in case map_of (enumvaluedict r) value of
           Some t \<Rightarrow> if type_name = t then Inr r else Inl AssertionError
         | None \<Rightarrow> Inr (r\<lparr>enumvaluedict := AList.update value type_name (enumvaluedict r)\<rparr>))"

section \<open>The invariant\<close>

text \<open>
  Every entry of a dictionary points to an element of the document, and an element listed under
  a name carries that name. Nothing the registry does takes an element away or renames one: an
  element that leaves the tree stays in the store.
\<close>

definition dict_ok :: "store \<Rightarrow> 'a base_info_scheme info_dict \<Rightarrow> bool" where
  "dict_ok st d \<longleftrightarrow> wf_dict d \<and> plain_keys d \<and>
     (\<forall>(k, i) \<in> set d. i_elem i < length st \<and>
        (\<forall>n. k = Name (Some n) \<longrightarrow> elem_get st (i_elem i) ''name'' = Some n))"

definition reg_ok :: "registry \<Rightarrow> bool" where
  "reg_ok r \<longleftrightarrow> wf_store (doc r) \<and>
     dict_ok (doc r) (typedict r) \<and> dict_ok (doc r) (groupdict r) \<and> dict_ok (doc r) (enumdict r) \<and>
     dict_ok (doc r) (cmddict r) \<and> dict_ok (doc r) (apidict r) \<and> dict_ok (doc r) (extdict r) \<and>
     dict_ok (doc r) (spirvextdict r) \<and> dict_ok (doc r) (spirvcapdict r) \<and>
     dict_ok (doc r) (formatsdict r) \<and> dict_ok (doc r) (syncstagedict r) \<and>
     dict_ok (doc r) (syncaccessdict r) \<and> dict_ok (doc r) (syncpipelinedict r)"

text \<open>What a step of the registry guarantees to its callers.\<close>

definition reg_step :: "registry \<Rightarrow> registry \<Rightarrow> bool" where
  "reg_step r r' \<longleftrightarrow> (reg_ok r \<longrightarrow> reg_ok r' \<and> doc_extends (doc r) (doc r'))"

interpretation reg_frame: loop_frame reg_step
  by unfold_locales (auto simp: reg_step_def intro: doc_extends_trans)

lemma dict_ok_Nil [simp]: "dict_ok st []"
  by (simp add: dict_ok_def)

lemma dict_ok_extends: "dict_ok st d \<Longrightarrow> doc_extends st st' \<Longrightarrow> dict_ok st' d"
  unfolding dict_ok_def doc_extends_def by fastforce

lemma dict_ok_update:
  assumes "dict_ok st d" and "i_elem info < length st"
    and "n = elem_get st (i_elem info) ''name''"
  shows "dict_ok st (AList.update (Name n) info d)"
proof -
  have "x \<in> insert (Name n, info) (set d)" if "x \<in> set (AList.update (Name n) info d)" for x
    using that by (induction d) (auto split: if_splits)
  with assms show ?thesis by (fastforce simp: dict_ok_def)
qed

lemma dict_ok_add:
  assumes "dict_ok st d" and "i_elem info = e" and "e < length st"
    and "addElementInfo st e info t d = (d', ws)"
  shows "dict_ok st d'"
  using assms dict_ok_update [of st d info]
  by (auto simp: addElementInfo_def Let_def split: option.splits if_splits)

lemma dict_ok_added:
  "dict_ok st d \<Longrightarrow> i_elem info < length st \<Longrightarrow> dict_ok st (fst (addElementInfo st (i_elem info) info t d))"
  by (metis dict_ok_add prod.collapse)

lemma dict_ok_adjust:
  assumes "dict_ok st d" and "\<And>i. i_elem (f i) = i_elem i"
  shows "dict_ok st (dict_adjust k f d)"
proof -
  have "\<exists>j. (fst x, j) \<in> set d \<and> i_elem (snd x) = i_elem j" if "x \<in> set (dict_adjust k f d)" for x
    using that assms(2) by (auto simp: dict_adjust_def)
  moreover have "wf_dict (dict_adjust k f d)" "plain_keys (dict_adjust k f d)"
    using assms(1) by (simp_all add: dict_ok_def)
  ultimately show ?thesis using assms(1) unfolding dict_ok_def by fastforce
qed

lemma dict_ok_lookup:
  "dict_ok st d \<Longrightarrow> map_of d k = Some i \<Longrightarrow> i_elem i < length st"
  unfolding dict_ok_def by (fastforce dest: map_of_SomeD)

lemma reg_ok_wf [dest]: "reg_ok r \<Longrightarrow> wf_store (doc r)"
  by (simp add: reg_ok_def)

lemma reg_ok_doc:
  assumes "reg_ok r" and "doc_extends (doc r) st" and "wf_store st"
  shows "reg_ok (r\<lparr>doc := st\<rparr>)"
  using assms unfolding reg_ok_def by (auto intro: dict_ok_extends)

lemma warn_simps [simp]:
  "doc (warn a r) = doc r" "reg_ok (warn a r) = reg_ok r" "gen_opts (warn a r) = gen_opts r"
  "reg (warn a r) = reg r" "typedict (warn a r) = typedict r" "groupdict (warn a r) = groupdict r"
  "enumdict (warn a r) = enumdict r" "cmddict (warn a r) = cmddict r"
  "genFeatures (warn a r) = genFeatures r" "apidict (warn a r) = apidict r"
  "extdict (warn a r) = extdict r" "api_name (warn a r) = api_name r"
  "emitFeatures (warn a r) = emitFeatures r" "removedExtensionNames (warn a r) = removedExtensionNames r"
  "featureDictionary (warn a r) = featureDictionary r"
  by (simp_all add: warn_def reg_ok_def api_name_def)

lemma fold_warn [simp]: "doc (fold (\<lambda>w. warn [w]) ws r) = doc r" "reg_ok (fold (\<lambda>w. warn [w]) ws r) = reg_ok r"
  by (induction ws arbitrary: r) auto

lemma reg_ok_other [simp]:
  "reg_ok (r\<lparr>aliasdict := a\<rparr>) = reg_ok r" "reg_ok (r\<lparr>enumvaluedict := b\<rparr>) = reg_ok r"
  "reg_ok (r\<lparr>reg := c\<rparr>) = reg_ok r" "reg_ok (r\<lparr>tree_root := t\<rparr>) = reg_ok r"
  "reg_ok (r\<lparr>extensions := x\<rparr>) = reg_ok r" "reg_ok (r\<lparr>warnings := w\<rparr>) = reg_ok r"
  by (simp_all add: reg_ok_def)

lemma reg_step_other [simp]:
  "reg_step r (r'\<lparr>aliasdict := a\<rparr>) = reg_step r r'" "reg_step r (r'\<lparr>enumvaluedict := b\<rparr>) = reg_step r r'"
  "reg_step r (warn w r') = reg_step r r'"
  by (simp_all add: reg_step_def)

lemma addEnumValue_step: "addEnumValue enum t r = Inr r' \<Longrightarrow> reg_step r r'"
  by (auto simp: addEnumValue_def Let_def reg_frame.rel_refl split: option.splits if_splits)

text \<open>The document changes alone.\<close>

lemma reg_step_doc: "doc_step (doc r) st \<Longrightarrow> reg_step r (r\<lparr>doc := st\<rparr>)"
  by (auto simp: reg_step_def doc_step_def intro: reg_ok_doc)

lemma reg_stepI: "(reg_ok r \<Longrightarrow> reg_ok r' \<and> doc_extends (doc r) (doc r')) \<Longrightarrow> reg_step r r'"
  by (simp add: reg_step_def)

lemma reg_stepD: "reg_step r r' \<Longrightarrow> reg_ok r \<Longrightarrow> reg_ok r' \<and> length (doc r) \<le> length (doc r')"
  by (simp add: reg_step_def doc_extends_def)

lemma doc_reg_add [simp]:
  "doc (reg_add typedict typedict_update e i1 t r) = doc r"
  "doc (reg_add groupdict groupdict_update e i2 t r) = doc r"
  "doc (reg_add enumdict enumdict_update e i3 t r) = doc r"
  "doc (reg_add cmddict cmddict_update e i1 t r) = doc r"
  "doc (reg_add apidict apidict_update e i4 t r) = doc r"
  "doc (reg_add extdict extdict_update e i4 t r) = doc r"
  "doc (reg_add spirvextdict spirvextdict_update e i5 t r) = doc r"
  "doc (reg_add spirvcapdict spirvcapdict_update e i5 t r) = doc r"
  "doc (reg_add formatsdict formatsdict_update e i6 t r) = doc r"
  "doc (reg_add syncstagedict syncstagedict_update e i6 t r) = doc r"
  "doc (reg_add syncaccessdict syncaccessdict_update e i6 t r) = doc r"
  "doc (reg_add syncpipelinedict syncpipelinedict_update e i7 t r) = doc r"
  by (simp_all add: reg_add_def split: prod.splits)

lemma reg_ok_add:
  "reg_ok r \<Longrightarrow> e < length (doc r) \<Longrightarrow> i_elem i1 = e \<Longrightarrow> reg_ok (reg_add typedict typedict_update e i1 t r)"
  "reg_ok r \<Longrightarrow> e < length (doc r) \<Longrightarrow> i_elem i2 = e \<Longrightarrow> reg_ok (reg_add groupdict groupdict_update e i2 t r)"
  "reg_ok r \<Longrightarrow> e < length (doc r) \<Longrightarrow> i_elem i3 = e \<Longrightarrow> reg_ok (reg_add enumdict enumdict_update e i3 t r)"
  "reg_ok r \<Longrightarrow> e < length (doc r) \<Longrightarrow> i_elem i1 = e \<Longrightarrow> reg_ok (reg_add cmddict cmddict_update e i1 t r)"
  "reg_ok r \<Longrightarrow> e < length (doc r) \<Longrightarrow> i_elem i4 = e \<Longrightarrow> reg_ok (reg_add apidict apidict_update e i4 t r)"
  "reg_ok r \<Longrightarrow> e < length (doc r) \<Longrightarrow> i_elem i4 = e \<Longrightarrow> reg_ok (reg_add extdict extdict_update e i4 t r)"
  "reg_ok r \<Longrightarrow> e < length (doc r) \<Longrightarrow> i_elem i5 = e \<Longrightarrow> reg_ok (reg_add spirvextdict spirvextdict_update e i5 t r)"
  "reg_ok r \<Longrightarrow> e < length (doc r) \<Longrightarrow> i_elem i5 = e \<Longrightarrow> reg_ok (reg_add spirvcapdict spirvcapdict_update e i5 t r)"
  "reg_ok r \<Longrightarrow> e < length (doc r) \<Longrightarrow> i_elem i6 = e \<Longrightarrow> reg_ok (reg_add formatsdict formatsdict_update e i6 t r)"
  "reg_ok r \<Longrightarrow> e < length (doc r) \<Longrightarrow> i_elem i6 = e \<Longrightarrow> reg_ok (reg_add syncstagedict syncstagedict_update e i6 t r)"
  "reg_ok r \<Longrightarrow> e < length (doc r) \<Longrightarrow> i_elem i6 = e \<Longrightarrow> reg_ok (reg_add syncaccessdict syncaccessdict_update e i6 t r)"
  "reg_ok r \<Longrightarrow> e < length (doc r) \<Longrightarrow> i_elem i7 = e \<Longrightarrow> reg_ok (reg_add syncpipelinedict syncpipelinedict_update e i7 t r)"
  unfolding reg_add_def case_prod_beta fold_warn by (clarsimp simp: reg_ok_def dict_ok_added)+

text \<open>A loop over elements that were there when it started; \<open>g\<close> selects the registry in the state.\<close>

lemma reg_loop:
  assumes "for_each f xs s = Inr s'"
    and step: "\<And>x s s'. x \<in> set xs \<Longrightarrow> f x s = Inr s' \<Longrightarrow> x < length (doc (g s)) \<Longrightarrow> reg_step (g s) (g s')"
    and len: "reg_ok (g s) \<Longrightarrow> \<forall>x \<in> set xs. x < length (doc (g s))"
  shows "reg_step (g s) (g s')"
proof (cases "reg_ok (g s)")
  case True
  from assms(1) show ?thesis
  proof (rule for_each_inv)
    show "reg_step (g s) (g s)" by (rule reg_frame.rel_refl)
    fix x t t'
    assume x: "x \<in> set xs" and t: "reg_step (g s) (g t)" and "f x t = Inr t'"
    moreover have "x < length (doc (g t))"
      using len [OF True] x reg_stepD [OF t True] by fastforce
    ultimately have "reg_step (g t) (g t')" using step by blast
    with t show "reg_step (g s) (g t')" by (rule reg_frame.rel_trans)
  qed
qed (simp add: reg_step_def)

lemma reg_fold:
  assumes "\<And>x r. x \<in> set xs \<Longrightarrow> x < length (doc r) \<Longrightarrow> reg_step r (f x r)"
    and "reg_ok r \<Longrightarrow> \<forall>x \<in> set xs. x < length (doc r)"
  shows "reg_step r (fold f xs r)"
  by (rule reg_loop [where f = "\<lambda>x s. Inr (f x s)" and g = "\<lambda>s. s"]) (use assms in \<open>auto simp: for_each_pure\<close>)

end
