(* ===== verification/RegParse.thy ===== *)
theory RegParse
  imports Registry
begin

text \<open>
  \<^verbatim>\<open>Registry.parseTree\<close> of \<^verbatim>\<open>src/tools/vkex/reg.py\<close>: the document is preprocessed, then each block of
  it fills one dictionary. The definitions follow the method from top to bottom; each is one
  loop of it. The last part shows that whatever document is loaded, a successful parse leaves
  the registry well formed (\<open>reg_ok\<close>).
\<close>

section \<open>Preprocessing\<close>

definition api_to_match :: "registry \<Rightarrow> api_arg" where
  "api_to_match r = (case apiname (gen_opts r) of None \<Rightarrow> ApiNone | Some a \<Rightarrow> ApiStr a)"

text \<open>
  Without an API name no feature matches \<^verbatim>\<open>mergeInternalFeatures\<close>. \<^verbatim>\<open>mergeAPIs\<close> would then store
  \<^verbatim>\<open>None\<close> as an attribute, which no XML writer takes: it is a \<open>TypeError\<close> here.
\<close>

definition preprocess :: "nat \<Rightarrow> registry \<Rightarrow> registry res" where
  "preprocess d r =
     (let opts = gen_opts r in
      rbind (if truthy (mergeApiNames opts)
             then (case apiname opts of
                     None \<Rightarrow> Inl TypeError
                   | Some to \<Rightarrow> mergeAPIs (doc r) (reg r) (py_split CHR '','' (the (mergeApiNames opts))) to)
             else stripNonmatchingAPIs (doc r) (reg r) (api_to_match r) True) (\<lambda>st.
      rbind (if mergeInternalApis opts
             then (case apiname opts of None \<Rightarrow> Inr st | Some a \<Rightarrow> mergeInternalFeatures d st (reg r) a)
             else Inr st) (\<lambda>st.
      Inr (r\<lparr>doc := st, aliasdict := [], enumvaluedict := []\<rparr>))))"

definition vendor_tags :: "registry \<Rightarrow> pname list" where
  "vendor_tags r = map (\<lambda>t. elem_get (doc r) t ''name'') (findall2 (doc r) (reg r) ''tags'' ''tag'')"

text \<open>\<^verbatim>\<open>name[-n:]\<close>; for \<^verbatim>\<open>n = 0\<close> this is the whole string.\<close>

definition last_n :: "nat \<Rightarrow> string \<Rightarrow> string" where
  "last_n n s = (if n = 0 then s else drop (length s - n) s)"

fun getApiVendorTag :: "pname list \<Rightarrow> pname \<Rightarrow> pname res" where
  "getApiVendorTag [] name = Inr None"
| "getApiVendorTag (None # vendors) name = Inl TypeError"
| "getApiVendorTag (Some v # vendors) None = Inl TypeError"
| "getApiVendorTag (Some v # vendors) (Some n) =
     (if last_n (length v) n = v then Inr (Some v) else getApiVendorTag vendors (Some n))"

section \<open>Types\<close>

definition name_from :: "store \<Rightarrow> addr option \<Rightarrow> string \<Rightarrow> string res" where
  "name_from st name_elem msg =
     (case name_elem of
        None \<Rightarrow> Inl (RuntimeError msg)
      | Some a \<Rightarrow> if truthy (elem_text st a) then Inr (the (elem_text st a)) else Inl (RuntimeError msg))"

text \<open>The name of an element, from its attribute or else from its text, where it is then added.\<close>

definition name_element :: "addr \<Rightarrow> addr option \<Rightarrow> string \<Rightarrow> registry \<Rightarrow> (string \<times> registry) res" where
  "name_element e name_elem msg r =
     (case elem_get (doc r) e ''name'' of
        Some n \<Rightarrow> Inr (n, r)
      | None \<Rightarrow> rbind (name_from (doc r) name_elem msg) (\<lambda>n. Inr (n, r\<lparr>doc := elem_set (doc r) e ''name'' n\<rparr>)))"

definition parse_type :: "pname list \<Rightarrow> addr \<Rightarrow> registry \<Rightarrow> registry res" where
  "parse_type vendors type_elem r =
     (let name_elem = (if elem_get (doc r) type_elem ''category'' = Some ''funcpointer''
                       then first (findall2 (doc r) type_elem ''proto'' ''name'')
                       else find_elem (doc r) type_elem ''name'') in
      rbind (name_element type_elem name_elem ''Type without a name!'' r) (\<lambda>(name, r).
      rbind (getApiVendorTag vendors (Some name)) (\<lambda>vendor.
      let typeInfo = (TypeInfo type_elem)\<lparr>i_vendor := vendor\<rparr>;
          r = reg_add typedict typedict_update type_elem typeInfo ''type'' r;
          alias = elem_get (doc r) type_elem ''alias''
      in Inr (if truthy alias
              then r\<lparr>aliasdict := AList.update (Some name) (the alias) (aliasdict r)\<rparr> else r))))"

definition parse_types :: "pname list \<Rightarrow> registry \<Rightarrow> registry res" where
  "parse_types vendors r =
     for_each (parse_type vendors) (findall2 (doc r) (reg r) ''types'' ''type'') (r\<lparr>typedict := []\<rparr>)"

section \<open>Groups and enums\<close>

definition parse_groups :: "registry \<Rightarrow> registry" where
  "parse_groups r =
     fold (\<lambda>group. reg_add groupdict groupdict_update group (GroupInfo group) ''group'')
       (findall (doc r) (reg r) ''enums'') (r\<lparr>groupdict := []\<rparr>)"

definition parse_group_enum :: "pname list \<Rightarrow> bool \<Rightarrow> pname \<Rightarrow> addr \<Rightarrow> registry \<Rightarrow> registry res" where
  "parse_group_enum vendors required type_name enum r =
     rbind (getApiVendorTag vendors type_name) (\<lambda>vendor.
       let enumInfo = (EnumInfo (doc r) enum)\<lparr>i_required := required, i_vendor := vendor\<rparr>
       in addEnumValue enum type_name (reg_add enumdict enumdict_update enum enumInfo ''enum'' r))"

definition parse_group_enums :: "pname list \<Rightarrow> addr \<Rightarrow> registry \<Rightarrow> registry res" where
  "parse_group_enums vendors enums r =
     (let required = elem_has (doc r) enums ''type''; type_name = elem_get (doc r) enums ''name'' in
      if map_of (aliasdict r) type_name \<noteq> None then Inl AssertionError
      else for_each (parse_group_enum vendors required type_name) (findall (doc r) enums ''enum'') r)"

definition parse_enums :: "pname list \<Rightarrow> registry \<Rightarrow> registry res" where
  "parse_enums vendors r =
     for_each (parse_group_enums vendors) (findall (doc r) (reg r) ''enums'') (r\<lparr>enumdict := []\<rparr>)"

section \<open>Commands\<close>

type_synonym cmd_alias = "string \<times> string \<times> addr"

definition parse_command ::
  "pname list \<Rightarrow> addr \<Rightarrow> registry \<times> cmd_alias list \<Rightarrow> (registry \<times> cmd_alias list) res" where
  "parse_command vendors cmd s =
     (case s of (r, cmdAlias) \<Rightarrow>
        rbind (name_element cmd (first (findall2 (doc r) cmd ''proto'' ''name''))
                 ''Command without a name!'' r) (\<lambda>(name, r).
        rbind (getApiVendorTag vendors (Some name)) (\<lambda>vendor.
        let ci = (CmdInfo cmd)\<lparr>i_vendor := vendor\<rparr>;
            r = reg_add cmddict cmddict_update cmd ci ''command'' r;
            alias = elem_get (doc r) cmd ''alias''
        in Inr (if truthy alias
                then (r\<lparr>aliasdict := AList.update (Some name) (the alias) (aliasdict r)\<rparr>,
                      cmdAlias @ [(name, the alias, cmd)])
                else (r, cmdAlias)))))"

text \<open>The copy of the aliased command that takes the place of an alias.\<close>

definition copy_export :: "store \<Rightarrow> addr \<Rightarrow> addr \<Rightarrow> store" where
  "copy_export st cmd cmdElem =
     (case elem_get st cmd ''export'' of
        Some export \<Rightarrow> elem_set st cmdElem ''export'' export
      | None \<Rightarrow> if elem_has st cmdElem ''export'' then elem_del st cmdElem ''export'' else st)"

definition alias_command :: "store \<Rightarrow> addr \<Rightarrow> cmd_alias \<Rightarrow> (addr \<times> store) res" where
  "alias_command st aliased ca =
     (case ca of (name, alias, cmd) \<Rightarrow>
        let cmdElem = fst (deepcopy st aliased); st = snd (deepcopy st aliased) in
        (case first (findall2 st cmdElem ''proto'' ''name'') of
           None \<Rightarrow> Inl AttributeError
         | Some n \<Rightarrow>
             let st = elem_set_text st n (Some name);
                 st = elem_set st cmdElem ''name'' name;
                 st = elem_set st cmdElem ''alias'' alias
             in Inr (cmdElem, copy_export st cmd cmdElem)))"

definition parse_alias :: "cmd_alias \<Rightarrow> registry \<Rightarrow> registry res" where
  "parse_alias ca r =
     (case ca of (name, alias, cmd) \<Rightarrow>
        (case map_of (cmddict r) (Name (Some alias)) of
           Some aliasInfo \<Rightarrow>
             rbind (alias_command (doc r) (i_elem aliasInfo) ca) (\<lambda>(cmdElem, st).
             Inr (r\<lparr>doc := st,
                    cmddict := AList.update (Name (Some name)) (CmdInfo cmdElem) (cmddict r)\<rparr>))
         | None \<Rightarrow> Inr (warn [''No matching <command> found for command'',
             py_str (elem_get (doc r) cmd ''name''), ''alias'', alias] r)))"

definition parse_commands :: "pname list \<Rightarrow> registry \<Rightarrow> registry res" where
  "parse_commands vendors r =
     rbind (for_each (parse_command vendors) (findall2 (doc r) (reg r) ''commands'' ''command'')
              (r\<lparr>cmddict := []\<rparr>, [])) (\<lambda>(r, cmdAlias).
     for_each parse_alias cmdAlias r)"

section \<open>Features and extensions\<close>

text \<open>The condition lists of formats, pipeline stages and accesses, local to the method.\<close>

record conditions =
  format_condition :: "(pname, pname) dict"
  stage_condition :: "(pname, pname) dict"
  access_condition :: "(pname, pname) dict"

definition addFormatCondition :: "pname \<Rightarrow> pname \<Rightarrow> (pname, pname) dict \<Rightarrow> (pname, pname) dict res" where
  "addFormatCondition format_name featureName d =
     (case map_of d format_name of
        None \<Rightarrow> Inr (AList.update format_name featureName d)
      | Some None \<Rightarrow> Inl AttributeError
      | Some (Some existing) \<Rightarrow>
          if featureName \<in> Some ` set (py_split CHR '','' existing) then Inr d
          else Inr (AList.update format_name (Some (existing @ '','' @ py_str featureName)) d))"

text \<open>The same for a stage or an access flag, where duplicates stay.\<close>

definition addSyncCondition :: "pname \<Rightarrow> pname \<Rightarrow> (pname, pname) dict \<Rightarrow> (pname, pname) dict res" where
  "addSyncCondition flag featureName d =
     (case map_of d flag of
        None \<Rightarrow> Inr (AList.update flag featureName d)
      | Some None \<Rightarrow> Inl TypeError
      | Some (Some existing) \<Rightarrow>
          Inr (AList.update flag (Some (existing @ '','' @ py_str featureName)) d))"

text \<open>The name under which an enum that extends a group is listed: its alias, if it has one.\<close>

definition alias_or_name :: "store \<Rightarrow> addr \<Rightarrow> pname" where
  "alias_or_name st enum =
     (if truthy (elem_get st enum ''alias'') then elem_get st enum ''alias'' else elem_get st enum ''name'')"

text \<open>A copy of an enum that extends a group is added to the group.\<close>

definition extend_group :: "string \<Rightarrow> addr \<Rightarrow> registry \<Rightarrow> registry" where
  "extend_group groupName enum r =
     (case map_of (groupdict r) (Name (Some groupName)) of
        Some gi \<Rightarrow>
          r\<lparr>doc := elem_append (snd (deepcopy (doc r) enum)) (i_elem gi) (fst (deepcopy (doc r) enum))\<rparr>
      | None \<Rightarrow> warn [''NO matching group'', groupName, ''for enum'',
                  py_str (elem_get (doc r) enum ''name''), ''found.''] r)"

definition is_constant :: "store \<Rightarrow> addr \<Rightarrow> bool" where
  "is_constant st enum \<longleftrightarrow> truthy (elem_get st enum ''value'') \<or> truthy (elem_get st enum ''bitpos'')
     \<or> truthy (elem_get st enum ''alias'')"

definition add_enum_info :: "addr \<Rightarrow> pname \<Rightarrow> registry \<Rightarrow> registry res" where
  "add_enum_info enum groupName r =
     addEnumValue enum groupName (reg_add enumdict enumdict_update enum (EnumInfo (doc r) enum) ''enum'' r)"

definition set_optional :: "store \<Rightarrow> addr \<Rightarrow> string \<Rightarrow> pname \<Rightarrow> store" where
  "set_optional st e k v = (case v of None \<Rightarrow> st | Some s \<Rightarrow> elem_set st e k s)"

definition parse_feature_enum ::
  "feature_info \<Rightarrow> addr \<Rightarrow> registry \<times> conditions \<Rightarrow> (registry \<times> conditions) res" where
  "parse_feature_enum featureInfo enum s =
     (case s of (r, cs) \<Rightarrow>
        (case elem_get (doc r) enum ''extends'' of
           Some groupName \<Rightarrow>
             let r = extend_group groupName enum
                       (r\<lparr>doc := set_optional (doc r) enum ''version'' (f_version featureInfo)\<rparr>) in
             rbind (if groupName = ''VkFormat''
                    then addFormatCondition (alias_or_name (doc r) enum) (f_name featureInfo) (format_condition cs)
                    else Inr (format_condition cs)) (\<lambda>fc.
             rbind (add_enum_info enum (Some groupName) r) (\<lambda>r.
             Inr (r, cs\<lparr>format_condition := fc\<rparr>)))
         | None \<Rightarrow>
             if is_constant (doc r) enum
             then rbind (add_enum_info enum None r) (\<lambda>r. Inr (r, cs))
             else Inr (r, cs)))"

definition parse_feature :: "addr \<Rightarrow> registry \<times> conditions \<Rightarrow> (registry \<times> conditions) res" where
  "parse_feature feature s =
     (case s of (r, cs) \<Rightarrow>
        rbind (FeatureInfo (doc r) feature) (\<lambda>featureInfo.
        for_each (\<lambda>elem s. for_each (parse_feature_enum featureInfo) (findall (doc (fst s)) elem ''enum'') s)
          (findall (doc r) feature ''require'')
          (reg_add apidict apidict_update feature featureInfo ''feature'' r, cs)))"

text \<open>The attributes that an extension adds to an enum it introduces.\<close>

definition tag_extension_enum :: "feature_info \<Rightarrow> addr \<Rightarrow> store \<Rightarrow> store" where
  "tag_extension_enum featureInfo enum st =
     (let st = (if truthy (elem_get st enum ''extnumber'') then st
                else elem_set st enum ''extnumber'' (show_int (f_number featureInfo)));
          st = set_optional st enum ''extname'' (f_name featureInfo)
      in elem_set st enum ''supported'' (if truthy (f_supported featureInfo) then the (f_supported featureInfo) else []))"

definition extension_condition ::
  "store \<Rightarrow> string \<Rightarrow> feature_info \<Rightarrow> addr \<Rightarrow> addr \<Rightarrow> conditions \<Rightarrow> conditions res" where
  "extension_condition st groupName featureInfo elem enum cs =
     (let flag = alias_or_name st enum;
          featureName = (if elem_has st elem ''depends'' then elem_get st elem ''depends'' else f_name featureInfo)
      in if groupName = ''VkFormat'' then
           rbind (addFormatCondition flag (f_name featureInfo) (format_condition cs)) (\<lambda>d.
           Inr (cs\<lparr>format_condition := d\<rparr>))
         else if groupName = ''VkPipelineStageFlagBits2'' then
           rbind (addSyncCondition flag featureName (stage_condition cs)) (\<lambda>d.
           Inr (cs\<lparr>stage_condition := d\<rparr>))
         else if groupName = ''VkAccessFlagBits2'' then
           rbind (addSyncCondition flag featureName (access_condition cs)) (\<lambda>d.
           Inr (cs\<lparr>access_condition := d\<rparr>))
         else Inr cs)"

definition parse_extension_enum ::
  "feature_info \<Rightarrow> addr \<Rightarrow> addr \<Rightarrow> registry \<times> conditions \<Rightarrow> (registry \<times> conditions) res" where
  "parse_extension_enum featureInfo elem enum s =
     (case s of (r, cs) \<Rightarrow>
        (case elem_get (doc r) enum ''extends'' of
           Some groupName \<Rightarrow>
             let r = extend_group groupName enum (r\<lparr>doc := tag_extension_enum featureInfo enum (doc r)\<rparr>) in
             rbind (extension_condition (doc r) groupName featureInfo elem enum cs) (\<lambda>cs.
             rbind (add_enum_info enum (Some groupName) r) (\<lambda>r. Inr (r, cs)))
         | None \<Rightarrow>
             if is_constant (doc r) enum
             then rbind (add_enum_info enum None r) (\<lambda>r. Inr (r, cs))
             else Inr (r, cs)))"

definition parse_extension :: "addr \<Rightarrow> registry \<times> conditions \<Rightarrow> (registry \<times> conditions) res" where
  "parse_extension feature s =
     (case s of (r, cs) \<Rightarrow>
        rbind (FeatureInfo (doc r) feature) (\<lambda>featureInfo.
        for_each (\<lambda>elem s. for_each (parse_extension_enum featureInfo elem) (findall (doc (fst s)) elem ''enum'') s)
          (findall (doc r) feature ''require'')
          (reg_add extdict extdict_update feature featureInfo ''extension'' r, cs)))"

definition parse_features :: "registry \<Rightarrow> (registry \<times> conditions) res" where
  "parse_features r =
     rbind (for_each parse_feature (findall (doc r) (reg r) ''feature'')
              (r\<lparr>apidict := []\<rparr>, \<lparr>format_condition = [], stage_condition = [], access_condition = []\<rparr>)) (\<lambda>(r, cs).
     let exts = findall2 (doc r) (reg r) ''extensions'' ''extension'' in
     for_each parse_extension exts (r\<lparr>extensions := exts, extdict := []\<rparr>, cs))"

section \<open>SPIR-V, formats and synchronization\<close>

definition parse_spirv :: "registry \<Rightarrow> registry" where
  "parse_spirv r =
     (let r = fold (\<lambda>e. reg_add spirvextdict spirvextdict_update e (SpirvInfo e) ''spirvextension'')
                (findall2 (doc r) (reg r) ''spirvextensions'' ''spirvextension'') r
      in fold (\<lambda>e. reg_add spirvcapdict spirvcapdict_update e (SpirvInfo e) ''spirvcapability'')
           (findall2 (doc r) (reg r) ''spirvcapabilities'' ''spirvcapability'') r)"

definition condition_of :: "(pname, pname) dict \<Rightarrow> store \<Rightarrow> addr \<Rightarrow> pname" where
  "condition_of d st e =
     (case map_of d (elem_get st e ''name'') of Some c \<Rightarrow> c | None \<Rightarrow> None)"

definition parse_formats :: "conditions \<Rightarrow> registry \<Rightarrow> registry" where
  "parse_formats cs r =
     fold (\<lambda>e r. reg_add formatsdict formatsdict_update e
             (FormatInfo e (condition_of (format_condition cs) (doc r) e)) ''format'' r)
       (findall2 (doc r) (reg r) ''formats'' ''format'') r"

definition parse_sync :: "conditions \<Rightarrow> registry \<Rightarrow> registry" where
  "parse_sync cs r =
     (let r = fold (\<lambda>e r. reg_add syncstagedict syncstagedict_update e
                       (SyncStageInfo e (condition_of (stage_condition cs) (doc r) e)) ''syncstage'' r)
                (findall2 (doc r) (reg r) ''sync'' ''syncstage'') r;
          r = fold (\<lambda>e r. reg_add syncaccessdict syncaccessdict_update e
                       (SyncAccessInfo e (condition_of (access_condition cs) (doc r) e)) ''syncaccess'' r)
                (findall2 (doc r) (reg r) ''sync'' ''syncaccess'') r
      in fold (\<lambda>e. reg_add syncpipelinedict syncpipelinedict_update e (SyncPipelineInfo e) ''syncpipeline'')
           (findall2 (doc r) (reg r) ''sync'' ''syncpipeline'') r)"

section \<open>The whole method\<close>

text \<open>\<open>d\<close> bounds the recursion of \<^verbatim>\<open>has_dependency\<close>, as Python's recursion limit does.\<close>

definition parseTree :: "nat \<Rightarrow> registry \<Rightarrow> registry res" where
  "parseTree d r =
     (case tree_root r of
        None \<Rightarrow> Inl (RuntimeError ''Tree not initialized!'')
      | Some rt \<Rightarrow>
          rbind (preprocess d (r\<lparr>reg := rt\<rparr>)) (\<lambda>r.
          let vendors = vendor_tags r in
          rbind (parse_types vendors r) (\<lambda>r.
          rbind (parse_enums vendors (parse_groups r)) (\<lambda>r.
          rbind (parse_commands vendors r) (\<lambda>r.
          rbind (parse_features r) (\<lambda>(r, cs).
          Inr (parse_sync cs (parse_formats cs (parse_spirv r)))))))))"

definition loadElementTree :: "nat \<Rightarrow> xtree \<Rightarrow> registry \<Rightarrow> registry res" where
  "loadElementTree d tree r =
     (case alloc_tree tree (doc r) of (rt, st) \<Rightarrow> parseTree d (r\<lparr>doc := st, tree_root := Some rt\<rparr>))"

section \<open>The parse leaves a well-formed registry\<close>

lemma alloc_extends: "doc_step st (snd (alloc_tree t st))"
  unfolding doc_step_def doc_extends_def
proof (intro conjI allI impI)
  show "length st \<le> length (snd (alloc_tree t st))" using alloc_prefix(1) by blast
  show "wf_store st \<Longrightarrow> wf_store (snd (alloc_tree t st))" by (rule wf_alloc(1))
  fix a n assume g: "elem_get st a ''name'' = Some n"
  then have "a < length st" using node_out by fastforce
  with g show "elem_get (snd (alloc_tree t st)) a ''name'' = Some n"
    by (simp add: elem_get_def node_alloc_old)
qed

lemma reg_ok_clear:
  "reg_ok r \<Longrightarrow> reg_ok (r\<lparr>typedict := []\<rparr>)" "reg_ok r \<Longrightarrow> reg_ok (r\<lparr>groupdict := []\<rparr>)"
  "reg_ok r \<Longrightarrow> reg_ok (r\<lparr>enumdict := []\<rparr>)" "reg_ok r \<Longrightarrow> reg_ok (r\<lparr>cmddict := []\<rparr>)"
  "reg_ok r \<Longrightarrow> reg_ok (r\<lparr>apidict := []\<rparr>)" "reg_ok r \<Longrightarrow> reg_ok (r\<lparr>extdict := []\<rparr>)"
  by (simp_all add: reg_ok_def)

lemma i_elem_new [simp]:
  "i_elem (TypeInfo e) = e" "i_elem (CmdInfo e) = e" "i_elem (GroupInfo e) = e"
  "i_elem (EnumInfo st e) = e" "i_elem (SpirvInfo e) = e" "i_elem (FormatInfo e c) = e"
  "i_elem (SyncStageInfo e c) = e" "i_elem (SyncAccessInfo e c) = e" "i_elem (SyncPipelineInfo e) = e"
  by (simp_all add: TypeInfo_def CmdInfo_def GroupInfo_def EnumInfo_def SpirvInfo_def FormatInfo_def
      SyncStageInfo_def SyncAccessInfo_def SyncPipelineInfo_def BaseInfo_def base_info.defs
      type_info.defs group_info.defs enum_info.defs spirv_info.defs cond_info.defs)

lemma i_elem_feature: "FeatureInfo st e = Inr fi \<Longrightarrow> i_elem fi = e"
  by (auto simp: FeatureInfo_def Let_def res_simps BaseInfo_def base_info.defs feature_info.defs
      split: if_splits option.splits)

lemma preprocess_ok:
  assumes "preprocess d r = Inr r'" and "reg_ok r"
  shows "reg_ok r'"
proof -
  have strip: "stripNonmatchingAPIs (doc r) (reg r) a True = Inr st \<Longrightarrow> doc_step (doc r) st" for a st
    using strip_loop_step [of a True "(doc r, [reg r])"] by (simp add: stripNonmatchingAPIs_def)
  have merge: "mergeAPIs (doc r) (reg r) fr to = Inr st \<Longrightarrow> doc_step (doc r) st" for fr to st
    using merge_loop_step [of to fr "(doc r, [reg r])"] by (simp add: mergeAPIs_def)
  have wf: "wf_store (doc r)" using assms(2) by (rule reg_ok_wf)
  obtain st1 st2 where "doc_step (doc r) st1"
    and st2: "st2 = st1 \<or> (\<exists>a. mergeInternalFeatures d st1 (reg r) a = Inr st2)"
    and r': "r' = r\<lparr>doc := st2, aliasdict := [], enumvaluedict := []\<rparr>"
    using assms(1) unfolding preprocess_def Let_def
    by (auto simp: res_simps split: if_splits option.splits dest!: strip merge)
  then have "wf_store st1" using wf by (simp add: doc_step_def)
  with st2 have "doc_step st1 st2" using mergeInternalFeatures_step doc_frame.rel_refl by blast
  with \<open>doc_step (doc r) st1\<close> have "doc_step (doc r) st2" by (rule doc_frame.rel_trans)
  then have "reg_ok (r\<lparr>doc := st2\<rparr>)" using assms(2) reg_step_doc by (simp add: reg_step_def)
  with r' show ?thesis by simp
qed

lemma name_element_ok:
  assumes "name_element e ne msg r = Inr (n, r')"
  shows "reg_step r r'"
  using assms by (auto simp: name_element_def res_simps reg_frame.rel_refl split: option.splits
      intro!: reg_step_doc doc_step_set)

lemma name_element_length: "name_element e ne msg r = Inr (n, r') \<Longrightarrow> length (doc r') = length (doc r)"
  by (auto simp: name_element_def res_simps split: option.splits)

lemma reg_step_add:
  "e < length (doc r) \<Longrightarrow> i_elem i1 = e \<Longrightarrow> reg_step r (reg_add typedict typedict_update e i1 t r)"
  "e < length (doc r) \<Longrightarrow> i_elem i2 = e \<Longrightarrow> reg_step r (reg_add groupdict groupdict_update e i2 t r)"
  "e < length (doc r) \<Longrightarrow> i_elem i3 = e \<Longrightarrow> reg_step r (reg_add enumdict enumdict_update e i3 t r)"
  "e < length (doc r) \<Longrightarrow> i_elem i1 = e \<Longrightarrow> reg_step r (reg_add cmddict cmddict_update e i1 t r)"
  "e < length (doc r) \<Longrightarrow> i_elem i4 = e \<Longrightarrow> reg_step r (reg_add apidict apidict_update e i4 t r)"
  "e < length (doc r) \<Longrightarrow> i_elem i4 = e \<Longrightarrow> reg_step r (reg_add extdict extdict_update e i4 t r)"
  "e < length (doc r) \<Longrightarrow> i_elem i5 = e \<Longrightarrow> reg_step r (reg_add spirvextdict spirvextdict_update e i5 t r)"
  "e < length (doc r) \<Longrightarrow> i_elem i5 = e \<Longrightarrow> reg_step r (reg_add spirvcapdict spirvcapdict_update e i5 t r)"
  "e < length (doc r) \<Longrightarrow> i_elem i6 = e \<Longrightarrow> reg_step r (reg_add formatsdict formatsdict_update e i6 t r)"
  "e < length (doc r) \<Longrightarrow> i_elem i6 = e \<Longrightarrow> reg_step r (reg_add syncstagedict syncstagedict_update e i6 t r)"
  "e < length (doc r) \<Longrightarrow> i_elem i6 = e \<Longrightarrow> reg_step r (reg_add syncaccessdict syncaccessdict_update e i6 t r)"
  "e < length (doc r) \<Longrightarrow> i_elem i7 = e \<Longrightarrow> reg_step r (reg_add syncpipelinedict syncpipelinedict_update e i7 t r)"
  by (simp_all add: reg_step_def reg_ok_add)

lemmas reg_step_intros = reg_step_add reg_step_doc addEnumValue_step name_element_ok reg_frame.rel_refl

lemma named_add:
  assumes "name_element e ne msg r = Inr (n, r1)" and "e < length (doc r)" and "i_elem i = e"
  shows "reg_step r (reg_add typedict typedict_update e i t r1)"
    and "reg_step r (reg_add cmddict cmddict_update e i t r1)"
  using assms reg_frame.rel_trans [OF name_element_ok [OF assms(1)]]
  by (simp_all add: reg_step_add name_element_length)

lemma parse_type_step: "parse_type vs e r = Inr r' \<Longrightarrow> e < length (doc r) \<Longrightarrow> reg_step r r'"
  unfolding parse_type_def Let_def
  by (elim rbind_InrE) (auto split: if_splits elim!: rbind_InrE intro!: named_add)

lemma parse_types_ok: "parse_types vs r = Inr r' \<Longrightarrow> reg_ok r \<Longrightarrow> reg_ok r'"
proof -
  assume p: "parse_types vs r = Inr r'" and ok: "reg_ok r"
  have "reg_step (r\<lparr>typedict := []\<rparr>) r'"
    using p unfolding parse_types_def
    by (rule reg_loop [where g = "\<lambda>s. s"]) (use ok in \<open>auto intro: parse_type_step findall2_wf\<close>)
  then show "reg_ok r'" using ok by (simp add: reg_step_def reg_ok_clear)
qed

lemma parse_groups_ok: "reg_ok r \<Longrightarrow> reg_ok (parse_groups r)"
proof -
  assume ok: "reg_ok r"
  have "reg_step (r\<lparr>groupdict := []\<rparr>) (parse_groups r)"
    unfolding parse_groups_def
    by (rule reg_fold) (use ok in \<open>auto intro: reg_step_add findall_wf [THEN conjunct2]\<close>)
  then show ?thesis using ok by (simp add: reg_step_def reg_ok_clear)
qed

lemma add_enum_step:
  "addEnumValue e t (reg_add enumdict enumdict_update e i w r) = Inr r' \<Longrightarrow> e < length (doc r)
     \<Longrightarrow> i_elem i = e \<Longrightarrow> reg_step r r'"
  using addEnumValue_step reg_step_add(3) reg_frame.rel_trans by blast

lemma parse_group_enum_step:
  "parse_group_enum vs rq tn e r = Inr r' \<Longrightarrow> e < length (doc r) \<Longrightarrow> reg_step r r'"
  unfolding parse_group_enum_def Let_def by (elim rbind_InrE) (auto intro: add_enum_step)

lemma parse_enums_ok: "parse_enums vs r = Inr r' \<Longrightarrow> reg_ok r \<Longrightarrow> reg_ok r'"
proof -
  assume p: "parse_enums vs r = Inr r'" and ok: "reg_ok r"
  have group: "reg_step s s'" if "parse_group_enums vs x s = Inr s'" for x s s'
  proof -
    have "for_each (parse_group_enum vs (elem_has (doc s) x ''type'') (elem_get (doc s) x ''name''))
        (findall (doc s) x ''enum'') s = Inr s'"
      using that by (simp add: parse_group_enums_def Let_def split: if_splits)
    then show ?thesis
      by (rule reg_loop [where g = "\<lambda>s. s"]) (auto intro: parse_group_enum_step findall_wf [THEN conjunct2])
  qed
  have "reg_step (r\<lparr>enumdict := []\<rparr>) r'"
    using p unfolding parse_enums_def by (rule reg_frame.for_each_rel) (rule group)
  then show "reg_ok r'" using ok by (simp add: reg_step_def reg_ok_clear)
qed

lemma parse_command_step:
  "parse_command vs e s = Inr s' \<Longrightarrow> e < length (doc (fst s)) \<Longrightarrow> reg_step (fst s) (fst s')"
  unfolding parse_command_def Let_def
  by (cases s) (auto split: if_splits elim!: rbind_InrE intro!: named_add)

text \<open>The copy made for an alias does not touch older elements, and carries the name of the alias.\<close>

lemma doc_extends_new:
  assumes "doc_extends st st'" and "length st \<le> a"
  shows "doc_extends st (elem_set st' a k v)" and "doc_extends st (elem_del st' a k)"
proof -
  have "b \<noteq> a" if "elem_get st b ''name'' = Some n" for b n
    using that node_out [of b st "''name''"] assms(2) by fastforce
  moreover have "elem_get (elem_del st' a k) b ''name'' = elem_get st' b ''name''" if "b \<noteq> a" for b
    using that by (simp add: elem_del_def elem_get_def)
  ultimately show "doc_extends st (elem_set st' a k v)" "doc_extends st (elem_del st' a k)"
    using assms by (auto simp: doc_extends_def)
qed

lemma alias_command_ok:
  assumes "alias_command st aliased (name, al, cmd) = Inr (e, st')" and "wf_store st"
  shows "doc_step st st' \<and> e < length st' \<and> elem_get st' e ''name'' = Some name"
proof -
  let ?c = "snd (deepcopy st aliased)"
  obtain n where e: "e = length st" and st': "st' = copy_export
      (elem_set (elem_set (elem_set_text ?c n (Some name)) e ''name'' name) e ''alias'' al) cmd e"
    using assms(1) by (auto simp: alias_command_def Let_def split: option.splits)
  have c: "doc_extends st ?c" "wf_store ?c" "length st < length ?c"
    using deepcopy_extends assms(2) length_deepcopy by auto
  have t: "doc_extends st (elem_set_text ?c n (Some name))"
    using c(1) by (simp add: doc_extends_def)
  have "doc_extends st st'"
    unfolding st' copy_export_def e
    by (auto intro!: doc_extends_new t split: option.splits)
  moreover have "wf_store st'" using c(2) by (simp add: st' copy_export_def split: option.splits)
  moreover have "e < length st'" "elem_get st' e ''name'' = Some name"
    using c(3) by (simp_all add: st' e copy_export_def split: option.splits)
  ultimately show ?thesis by (simp add: doc_step_def)
qed

lemma parse_alias_step: "parse_alias ca r = Inr r' \<Longrightarrow> reg_step r r'"
proof (rule reg_stepI)
  assume p: "parse_alias ca r = Inr r'" and ok: "reg_ok r"
  obtain name al cmd where ca: "ca = (name, al, cmd)" by (cases ca)
  show "reg_ok r' \<and> doc_extends (doc r) (doc r')"
  proof (cases "map_of (cmddict r) (Name (Some al))")
    case None
    with p ok ca show ?thesis by (auto simp: parse_alias_def)
  next
    case (Some i)
    then obtain e st where c: "alias_command (doc r) (i_elem i) (name, al, cmd) = Inr (e, st)"
      and r': "r' = r\<lparr>doc := st, cmddict := AList.update (Name (Some name)) (CmdInfo e) (cmddict r)\<rparr>"
      using p by (auto simp: parse_alias_def ca elim!: rbind_InrE)
    from alias_command_ok [OF c] ok
    have st: "doc_step (doc r) st" "e < length st" "elem_get st e ''name'' = Some name" by auto
    have ok': "reg_ok (r\<lparr>doc := st\<rparr>)" using reg_step_doc [OF st(1)] ok by (simp add: reg_step_def)
    then have "dict_ok st (AList.update (Name (Some name)) (CmdInfo e) (cmddict r))"
      using st(2,3) by (intro dict_ok_update) (simp_all add: reg_ok_def)
    with ok' have "reg_ok r'" by (simp add: r' reg_ok_def)
    with st(1) show ?thesis by (simp add: r' doc_step_def)
  qed
qed

lemma parse_commands_ok: "parse_commands vs r = Inr r' \<Longrightarrow> reg_ok r \<Longrightarrow> reg_ok r'"
proof -
  assume p: "parse_commands vs r = Inr r'" and ok: "reg_ok r"
  obtain r1 cas where 1: "for_each (parse_command vs) (findall2 (doc r) (reg r) ''commands'' ''command'')
      (r\<lparr>cmddict := []\<rparr>, []) = Inr (r1, cas)" and 2: "for_each parse_alias cas r1 = Inr r'"
    using p by (auto simp: parse_commands_def elim!: rbind_InrE)
  have "reg_step (fst (r\<lparr>cmddict := []\<rparr>, [] :: cmd_alias list)) (fst (r1, cas))"
    by (rule reg_loop [OF 1]) (use ok in \<open>auto intro: parse_command_step findall2_wf\<close>)
  moreover have "reg_step r1 r'" by (rule reg_frame.for_each_rel [OF 2]) (rule parse_alias_step)
  ultimately show "reg_ok r'" using ok by (simp add: reg_step_def reg_ok_clear)
qed

lemma extend_group_step: "reg_step r (extend_group g e r)"
proof (rule reg_stepI)
  assume ok: "reg_ok r"
  show "reg_ok (extend_group g e r) \<and> doc_extends (doc r) (doc (extend_group g e r))"
  proof (cases "map_of (groupdict r) (Name (Some g))")
    case (Some gi)
    with ok have "i_elem gi < length (doc r)" by (auto simp: reg_ok_def intro: dict_ok_lookup)
    then have "doc_step (doc r) (doc (extend_group g e r))"
      using Some doc_step_append_copy by (simp add: extend_group_def)
    from reg_step_doc [OF this] Some ok show ?thesis by (simp add: reg_step_def extend_group_def)
  qed (simp add: extend_group_def ok)
qed

lemma set_optional_step: "k \<noteq> ''name'' \<Longrightarrow> doc_step st (set_optional st e k v)"
  by (auto simp: set_optional_def doc_frame.rel_refl intro: doc_step_set split: option.splits)

lemma tag_extension_enum_step: "doc_step st (tag_extension_enum fi e st)"
proof -
  have "doc_step st (if truthy (elem_get st e ''extnumber'') then st
      else elem_set st e ''extnumber'' (show_int (f_number fi)))"
    by (simp add: doc_step_set doc_frame.rel_refl)
  then show ?thesis
    unfolding tag_extension_enum_def Let_def
    by (intro doc_step_set [THEN doc_frame.rel_trans [rotated]] set_optional_step [THEN doc_frame.rel_trans [rotated]])
      simp_all
qed

text \<open>The element stays in range while the document grows.\<close>

lemma step_in_range:
  assumes "reg_step r r1" and "e < length (doc r)" and "e < length (doc r1) \<Longrightarrow> reg_step r1 r'"
  shows "reg_step r r'"
proof (cases "reg_ok r")
  case True
  with assms(1,2) have "e < length (doc r1)" using reg_stepD by fastforce
  with assms(1,3) show ?thesis using reg_frame.rel_trans by blast
qed (simp add: reg_step_def)

lemma add_enum_info_step: "add_enum_info e g r = Inr r' \<Longrightarrow> e < length (doc r) \<Longrightarrow> reg_step r r'"
  unfolding add_enum_info_def by (erule add_enum_step) simp_all

lemma parse_feature_enum_step:
  "parse_feature_enum fi e s = Inr s' \<Longrightarrow> e < length (doc (fst s)) \<Longrightarrow> reg_step (fst s) (fst s')"
proof -
  assume p: "parse_feature_enum fi e s = Inr s'" and e: "e < length (doc (fst s))"
  obtain r cs where s: "s = (r, cs)" by (cases s)
  show ?thesis
  proof (cases "elem_get (doc r) e ''extends''")
    case None
    with p e s show ?thesis
      by (auto simp: parse_feature_enum_def reg_frame.rel_refl split: if_splits elim!: rbind_InrE
          intro: add_enum_info_step)
  next
    case (Some g)
    let ?r1 = "r\<lparr>doc := set_optional (doc r) e ''version'' (f_version fi)\<rparr>"
    from p Some have add: "add_enum_info e (Some g) (extend_group g e ?r1) = Inr (fst s')"
      by (auto simp: parse_feature_enum_def s Let_def elim!: rbind_InrE)
    have "reg_step r ?r1" by (rule reg_step_doc) (simp add: set_optional_step)
    then have "reg_step r (extend_group g e ?r1)" using extend_group_step reg_frame.rel_trans by blast
    then show ?thesis
      using e add_enum_info_step [OF add] by (auto simp: s intro: step_in_range)
  qed
qed

lemma parse_extension_enum_step:
  "parse_extension_enum fi el e s = Inr s' \<Longrightarrow> e < length (doc (fst s)) \<Longrightarrow> reg_step (fst s) (fst s')"
proof -
  assume p: "parse_extension_enum fi el e s = Inr s'" and e: "e < length (doc (fst s))"
  obtain r cs where s: "s = (r, cs)" by (cases s)
  show ?thesis
  proof (cases "elem_get (doc r) e ''extends''")
    case None
    with p e s show ?thesis
      by (auto simp: parse_extension_enum_def reg_frame.rel_refl split: if_splits elim!: rbind_InrE
          intro: add_enum_info_step)
  next
    case (Some g)
    let ?r1 = "r\<lparr>doc := tag_extension_enum fi e (doc r)\<rparr>"
    from p Some have add: "add_enum_info e (Some g) (extend_group g e ?r1) = Inr (fst s')"
      by (auto simp: parse_extension_enum_def s Let_def elim!: rbind_InrE)
    have "reg_step r ?r1" by (rule reg_step_doc) (rule tag_extension_enum_step)
    then have "reg_step r (extend_group g e ?r1)" using extend_group_step reg_frame.rel_trans by blast
    then show ?thesis
      using e add_enum_info_step [OF add] by (auto simp: s intro: step_in_range)
  qed
qed

interpretation parse_frame: loop_frame "\<lambda>s s'. reg_step (fst s) (fst s')"
  by unfold_locales (auto intro: reg_frame.rel_refl reg_frame.rel_trans)

lemma require_loop_step:
  assumes "for_each (\<lambda>el s. for_each (f el) (findall (doc (fst s)) el ''enum'') s) els s = Inr s'"
    and "\<And>el e s s'. f el e s = Inr s' \<Longrightarrow> e < length (doc (fst s)) \<Longrightarrow> reg_step (fst s) (fst s')"
  shows "reg_step (fst s) (fst s')"
proof (rule parse_frame.for_each_rel [OF assms(1)])
  fix el t t' assume t: "for_each (f el) (findall (doc (fst t)) el ''enum'') t = Inr t'"
  show "reg_step (fst t) (fst t')"
    by (rule reg_loop [OF t]) (auto intro: assms(2) findall_wf [THEN conjunct2])
qed

lemma parse_feature_step:
  assumes "parse_feature e s = Inr s'" and "e < length (doc (fst s))"
  shows "reg_step (fst s) (fst s')"
proof -
  obtain r cs where s: "s = (r, cs)" by (cases s)
  obtain fi where fi: "FeatureInfo (doc r) e = Inr fi" and loop:
    "for_each (\<lambda>el s. for_each (parse_feature_enum fi) (findall (doc (fst s)) el ''enum'') s)
       (findall (doc r) e ''require'') (reg_add apidict apidict_update e fi ''feature'' r, cs) = Inr s'"
    using assms(1) by (auto simp: parse_feature_def s elim!: rbind_InrE)
  have "reg_step r (reg_add apidict apidict_update e fi ''feature'' r)"
    using assms(2) i_elem_feature [OF fi] by (intro reg_step_add) (simp_all add: s)
  moreover have "reg_step (reg_add apidict apidict_update e fi ''feature'' r) (fst s')"
    using require_loop_step [where f = "\<lambda>_. parse_feature_enum fi", OF loop] parse_feature_enum_step by simp
  ultimately show ?thesis unfolding s fst_conv by (rule reg_frame.rel_trans)
qed

lemma parse_extension_step:
  assumes "parse_extension e s = Inr s'" and "e < length (doc (fst s))"
  shows "reg_step (fst s) (fst s')"
proof -
  obtain r cs where s: "s = (r, cs)" by (cases s)
  obtain fi where fi: "FeatureInfo (doc r) e = Inr fi" and loop:
    "for_each (\<lambda>el s. for_each (parse_extension_enum fi el) (findall (doc (fst s)) el ''enum'') s)
       (findall (doc r) e ''require'') (reg_add extdict extdict_update e fi ''extension'' r, cs) = Inr s'"
    using assms(1) by (auto simp: parse_extension_def s elim!: rbind_InrE)
  have "reg_step r (reg_add extdict extdict_update e fi ''extension'' r)"
    using assms(2) i_elem_feature [OF fi] by (intro reg_step_add) (simp_all add: s)
  moreover have "reg_step (reg_add extdict extdict_update e fi ''extension'' r) (fst s')"
    using require_loop_step [where f = "parse_extension_enum fi", OF loop] parse_extension_enum_step by simp
  ultimately show ?thesis unfolding s fst_conv by (rule reg_frame.rel_trans)
qed

lemma parse_features_ok: "parse_features r = Inr (r', cs') \<Longrightarrow> reg_ok r \<Longrightarrow> reg_ok r'"
proof -
  assume p: "parse_features r = Inr (r', cs')" and ok: "reg_ok r"
  let ?cs = "\<lparr>format_condition = [], stage_condition = [], access_condition = []\<rparr>"
  obtain r1 cs where 1: "for_each parse_feature (findall (doc r) (reg r) ''feature'') (r\<lparr>apidict := []\<rparr>, ?cs)
      = Inr (r1, cs)"
    and 2: "for_each parse_extension (findall2 (doc r1) (reg r1) ''extensions'' ''extension'')
      (r1\<lparr>extensions := findall2 (doc r1) (reg r1) ''extensions'' ''extension'', extdict := []\<rparr>, cs) = Inr (r', cs')"
    using p by (auto simp: parse_features_def Let_def elim!: rbind_InrE)
  have "reg_step (fst (r\<lparr>apidict := []\<rparr>, ?cs)) (fst (r1, cs))"
    by (rule reg_loop [OF 1]) (use ok in \<open>auto intro: parse_feature_step findall_wf [THEN conjunct2]\<close>)
  then have ok1: "reg_ok r1" using ok by (simp add: reg_step_def reg_ok_clear)
  let ?r2 = "r1\<lparr>extensions := findall2 (doc r1) (reg r1) ''extensions'' ''extension'', extdict := []\<rparr>"
  have ok2: "reg_ok ?r2" using reg_ok_clear(6) [of "r1\<lparr>extensions := x\<rparr>" for x] ok1 by simp
  have "reg_step (fst (?r2, cs)) (fst (r', cs'))"
    by (rule reg_loop [OF 2]) (use ok1 in \<open>auto intro: parse_extension_step findall2_wf\<close>)
  with ok2 show "reg_ok r'" by (simp add: reg_step_def)
qed

lemma parse_rest_ok:
  "reg_ok r \<Longrightarrow> reg_ok (parse_spirv r)" "reg_ok r \<Longrightarrow> reg_ok (parse_formats cs r)"
  "reg_ok r \<Longrightarrow> reg_ok (parse_sync cs r)"
proof -
  have fold_ok: "reg_ok (fold f (findall2 (doc r) (reg r) t u) r)"
    if "\<And>x r. x < length (doc r) \<Longrightarrow> reg_step r (f x r)" "reg_ok r" for f t u r
    using reg_fold [of "findall2 (doc r) (reg r) t u" f r] that findall2_wf reg_ok_wf unfolding reg_step_def by blast
  show "reg_ok r \<Longrightarrow> reg_ok (parse_spirv r)" "reg_ok r \<Longrightarrow> reg_ok (parse_formats cs r)"
    "reg_ok r \<Longrightarrow> reg_ok (parse_sync cs r)"
    unfolding parse_spirv_def parse_formats_def parse_sync_def Let_def
    by (auto intro!: fold_ok reg_step_add)
qed

lemma load_parts:
  assumes "loadElementTree d tree (Registry opts) = Inr r"
  shows "\<exists>r4 r5 cs. reg_ok r4 \<and> parse_features r4 = Inr (r5, cs) \<and>
    r = parse_sync cs (parse_formats cs (parse_spirv r5))"
proof -
  have new: "reg_ok (Registry opts)" by (simp add: reg_ok_def Registry_def)
  obtain rt st where a: "alloc_tree tree [] = (rt, st)" by fastforce
  then have st: "doc_step (doc (Registry opts)) st" using alloc_extends [of "[]" tree] by (simp add: Registry_def)
  let ?r0 = "(Registry opts)\<lparr>doc := st, tree_root := Some rt\<rparr>"
  have "reg_ok ((Registry opts)\<lparr>doc := st\<rparr>)" using reg_step_doc [OF st] new by (simp add: reg_step_def)
  then have ok: "reg_ok (?r0\<lparr>reg := rt\<rparr>)" by simp
  from assms a have "parseTree d ?r0 = Inr r" by (simp add: loadElementTree_def Registry_def)
  then obtain r1 r2 r3 r4 r5 cs where "preprocess d (?r0\<lparr>reg := rt\<rparr>) = Inr r1"
    and "parse_types (vendor_tags r1) r1 = Inr r2" and "parse_enums (vendor_tags r1) (parse_groups r2) = Inr r3"
    and "parse_commands (vendor_tags r1) r3 = Inr r4" and "parse_features r4 = Inr (r5, cs)"
    and "r = parse_sync cs (parse_formats cs (parse_spirv r5))"
    by (auto simp: parseTree_def Let_def elim!: rbind_InrE)
  moreover from this ok have "reg_ok r4"
    using preprocess_ok parse_types_ok parse_groups_ok parse_enums_ok parse_commands_ok by blast
  ultimately show ?thesis by blast
qed

lemma load_ok: "loadElementTree d tree (Registry opts) = Inr r \<Longrightarrow> reg_ok r"
  using load_parts parse_features_ok parse_rest_ok by blast

text \<open>C5: whatever document is loaded into a new registry, a parse that returns leaves a well-formed
  one: the store is a tree (children after their parents), every dictionary has distinct plain
  names as keys, and every entry points to an element of the document that carries the name it
  is listed under, the copies made for command aliases included.
\<close>

theorem loadElementTree_ok:
  "loadElementTree d tree (Registry opts) = Inr r \<Longrightarrow> reg_ok r"
  by (rule load_ok)

definition tiny_registry :: xtree where
  "tiny_registry =
     XTree ''registry'' [] None None
       [XTree ''types'' [] None None
          [XTree ''type'' [(''category'', ''handle'')] None None [XTree ''name'' [] (Some ''VkDevice'') None []]],
        XTree ''commands'' [] None None
          [XTree ''command'' [] None None
             [XTree ''proto'' [] None None [XTree ''name'' [] (Some ''vkNew'') None []]],
           XTree ''command'' [(''name'', ''vkOld''), (''alias'', ''vkNew'')] None None []]]"

theorem loadElementTree_ok_witness:
  "\<exists>r. loadElementTree 5 tiny_registry (Registry None) = Inr r \<and> reg_ok r"
proof -
  have "\<not> isl (loadElementTree 5 tiny_registry (Registry None))" by code_simp
  then obtain r where r: "loadElementTree 5 tiny_registry (Registry None) = Inr r"
    by (cases "loadElementTree 5 tiny_registry (Registry None)") auto
  with loadElementTree_ok [OF r] show ?thesis by blast
qed

end
