(* ===== verification/RegMark.thy ===== *)
theory RegMark
  imports RegParse
begin

text \<open>
  Tagging of what a feature requires or removes: \<^verbatim>\<open>markTypeRequired\<close>, \<^verbatim>\<open>markEnumRequired\<close>,
  \<^verbatim>\<open>markCmdRequired\<close> and \<^verbatim>\<open>markRequired\<close> of \<^verbatim>\<open>src/tools/vkex/reg.py\<close>. The first three recurse over
  names without a record of what they have visited; the first argument is the number of frames
  that are left, and running out of them is Python's \<open>RecursionError\<close>. The lemmas show that
  tagging marks exactly the names reachable over the dependency relation, and that it returns
  exactly when this relation has no path longer than the frames allow.
\<close>

section \<open>Tagging\<close>

definition set_required :: "bool \<Rightarrow> 'a base_info_scheme \<Rightarrow> 'a base_info_scheme" where
  "set_required b i = i\<lparr>i_required := b\<rparr>"

definition find_named :: "store \<Rightarrow> addr \<Rightarrow> string \<Rightarrow> string \<Rightarrow> addr option" where
  "find_named st e t n = first (findall_attr st e t ''name'' n)"

text \<open>Removal of an enum that extends a group: the copy in the group is removed.\<close>

definition remove_extending :: "pname \<Rightarrow> string \<Rightarrow> registry \<Rightarrow> registry res" where
  "remove_extending enumname groupName r =
     (case map_of (groupdict r) (Name (Some groupName)) of
        Some gi \<Rightarrow>
          (case find_named (doc r) (i_elem gi) ''enum'' (py_str enumname) of
             Some gienum \<Rightarrow> rbind (elem_remove (doc r) (i_elem gi) gienum) (\<lambda>st. Inr (r\<lparr>doc := st\<rparr>))
           | None \<Rightarrow> Inr (warn [''markEnumRequired: Cannot remove enum'', py_str enumname,
                       ''not found in group'', groupName] r))
      | None \<Rightarrow> Inr (warn [''markEnumRequired: Cannot remove enum'', py_str enumname,
                  ''from nonexistent group'', groupName] r))"

text \<open>Removal of any other enum: all \<^verbatim>\<open><enums>\<close> are searched for its name.\<close>

definition remove_same_name :: "pname \<Rightarrow> addr \<Rightarrow> addr \<Rightarrow> nat \<times> store \<Rightarrow> (nat \<times> store) res" where
  "remove_same_name enumName enums thisEnum s =
     (case s of (n, st) \<Rightarrow>
        if elem_get st thisEnum ''name'' = enumName
        then rbind (elem_remove st enums thisEnum) (\<lambda>st. Inr (n + 1, st))
        else Inr s)"

definition remove_plain :: "addr \<Rightarrow> registry \<Rightarrow> registry res" where
  "remove_plain enum_elem r =
     (let enumName = elem_get (doc r) enum_elem ''name'' in
      rbind (for_each (\<lambda>enums s. for_each (remove_same_name enumName enums) (findall (snd s) enums ''enum'') s)
               (findall (doc r) (reg r) ''enums'') (0, doc r)) (\<lambda>(n, st).
      let r = r\<lparr>doc := st\<rparr> in
      Inr (if n = 0
           then warn [''markEnumRequired: '' @ py_str enumName @ '') not found in any <enums> tag''] r else r)))"

fun markEnumRequired :: "nat \<Rightarrow> pname \<Rightarrow> bool \<Rightarrow> registry \<Rightarrow> registry res" where
  "markEnumRequired 0 enumname required r = Inl RecursionError"
| "markEnumRequired (Suc d) enumname required r =
     (case reg_lookup r enumname (enumdict r) of
        Some enum \<Rightarrow>
          rbind (if \<not> required \<and> i_required enum then
                   (case elem_get (doc r) (i_elem enum) ''extends'' of
                      Some groupName \<Rightarrow> remove_extending enumname groupName r
                    | None \<Rightarrow> remove_plain (i_elem enum) r)
                 else Inr r) (\<lambda>r.
          let r = r\<lparr>enumdict := adjustInfo (api_name r) enumname (set_required required) (enumdict r)\<rparr>;
              depname = elem_get (doc r) (i_elem enum) ''alias''
          in if truthy depname then markEnumRequired d depname required r else Inr r)
      | None \<Rightarrow> Inr (warn [''markEnumRequired: '' @ py_str enumname @ '' IS NOT DEFINED''] r))"

text \<open>The group whose bits a type names in \<^verbatim>\<open>bitvalues\<close> learns the type.\<close>

definition set_flagType :: "pname \<Rightarrow> pname \<Rightarrow> registry \<Rightarrow> registry" where
  "set_flagType depType typename r =
     r\<lparr>groupdict := adjustInfo (api_name r) depType
         (\<lambda>g. g\<lparr>flagType := lookupKey (api_name r) typename (typedict r)\<rparr>) (groupdict r)\<rparr>"

fun markTypeRequired :: "nat \<Rightarrow> pname \<Rightarrow> bool \<Rightarrow> registry \<Rightarrow> registry res" where
  "markTypeRequired 0 typename required r = Inl RecursionError"
| "markTypeRequired (Suc d) typename required r =
     (case reg_lookup r typename (typedict r) of
        Some typeinfo \<Rightarrow>
          rbind (if required then
                   rbind (for_each (\<lambda>attrib_name r.
                            let depname = elem_get (doc r) (i_elem typeinfo) attrib_name in
                            if truthy depname \<and> typename \<noteq> depname
                            then markTypeRequired d depname required r else Inr r)
                            [''requires'', ''alias''] r) (\<lambda>r.
                   rbind (for_each (\<lambda>subtype r.
                            if typename \<noteq> elem_text (doc r) subtype
                            then markTypeRequired d (elem_text (doc r) subtype) required r else Inr r)
                            (findall_below (doc r) (i_elem typeinfo) ''type'') r) (\<lambda>r.
                   rbind (for_each (\<lambda>subenum r. markEnumRequired d (elem_text (doc r) subenum) required r)
                            (findall_below (doc r) (i_elem typeinfo) ''enum'') r) (\<lambda>r.
                   let depType = elem_get (doc r) (i_elem typeinfo) ''bitvalues'' in
                   if truthy depType
                   then rbind (markTypeRequired d depType required r) (\<lambda>r. Inr (set_flagType depType typename r))
                   else Inr r)))
                 else Inr r) (\<lambda>r.
          Inr (r\<lparr>typedict := adjustInfo (api_name r) typename (set_required required) (typedict r)\<rparr>))
      | None \<Rightarrow>
          (case typename of
             None \<Rightarrow> Inl TypeError
           | Some n \<Rightarrow> if \<not> py_in ''.h'' n then Inr (warn [''type:'', n, ''IS NOT DEFINED''] r) else Inr r))"

fun markCmdRequired :: "nat \<Rightarrow> pname \<Rightarrow> bool \<Rightarrow> registry \<Rightarrow> registry res" where
  "markCmdRequired 0 cmdname required r = Inl RecursionError"
| "markCmdRequired (Suc d) cmdname required r =
     (case reg_lookup r cmdname (cmddict r) of
        Some cmd \<Rightarrow>
          (let r = r\<lparr>cmddict := adjustInfo (api_name r) cmdname (set_required required) (cmddict r)\<rparr>;
               depname = elem_get (doc r) (i_elem cmd) ''alias'' in
           rbind (if requireCommandAliases (gen_opts r) \<and> truthy depname
                  then markCmdRequired d depname required r else Inr r) (\<lambda>r.
           if required
           then for_each (\<lambda>type_elem r. markTypeRequired d (elem_text (doc r) type_elem) required r)
                  (findall_below (doc r) (i_elem cmd) ''type'') r
           else Inr r))
      | None \<Rightarrow> Inr (warn [''command:'', py_str cmdname, ''IS NOT DEFINED''] r))"

text \<open>An \<^verbatim>\<open><extend>\<close> element adds return codes to a command.\<close>

definition extension_codes :: "pname \<Rightarrow> pname \<Rightarrow> string \<Rightarrow> command_extension list" where
  "extension_codes commandName featurename codes =
     map (\<lambda>c. \<lparr>ce_command = commandName, ce_value = c, ce_extension = featurename\<rparr>) (py_split CHR '','' codes)"

definition markExtend :: "pname \<Rightarrow> addr \<Rightarrow> registry \<Rightarrow> registry" where
  "markExtend featurename extendElem r =
     (let extendType = elem_get (doc r) extendElem ''type'' in
      if extendType = Some ''command'' then
        let commandName = elem_get (doc r) extendElem ''name'';
            r = (case elem_get (doc r) extendElem ''successcodes'' of
                   None \<Rightarrow> r
                 | Some codes \<Rightarrow> r\<lparr>commandextensionsuccesses :=
                     commandextensionsuccesses r @ extension_codes commandName featurename codes\<rparr>)
        in (case elem_get (doc r) extendElem ''errorcodes'' of
              None \<Rightarrow> r
            | Some codes \<Rightarrow> r\<lparr>commandextensionerrors :=
                commandextensionerrors r @ extension_codes commandName featurename codes\<rparr>)
      else warn [''extend type:'', py_str extendType, ''IS NOT SUPPORTED''] r)"

definition markRequired :: "nat \<Rightarrow> pname \<Rightarrow> addr \<Rightarrow> bool \<Rightarrow> registry \<Rightarrow> registry res" where
  "markRequired d featurename feature required r =
     rbind (for_each (\<lambda>e r. markTypeRequired d (elem_get (doc r) e ''name'') required r)
              (findall (doc r) feature ''type'') r) (\<lambda>r.
     rbind (for_each (\<lambda>e r. markEnumRequired d (elem_get (doc r) e ''name'') required r)
              (findall (doc r) feature ''enum'') r) (\<lambda>r.
     rbind (for_each (\<lambda>e r. markCmdRequired d (elem_get (doc r) e ''name'') required r)
              (findall (doc r) feature ''command'') r) (\<lambda>r.
     Inr (fold (markExtend featurename) (findall (doc r) feature ''extend'') r))))"

section \<open>The dependency relation\<close>

datatype item = TypeItem pname | EnumItem pname | CmdItem pname

fun item_elem :: "registry \<Rightarrow> item \<Rightarrow> addr option" where
  "item_elem r (TypeItem n) = map_option i_elem (reg_lookup r n (typedict r))"
| "item_elem r (EnumItem n) = map_option i_elem (reg_lookup r n (enumdict r))"
| "item_elem r (CmdItem n) = map_option i_elem (reg_lookup r n (cmddict r))"

definition info_required :: "'a base_info_scheme option \<Rightarrow> bool" where
  "info_required i = (case i of None \<Rightarrow> False | Some i \<Rightarrow> i_required i)"

fun item_required :: "registry \<Rightarrow> item \<Rightarrow> bool" where
  "item_required r (TypeItem n) = info_required (reg_lookup r n (typedict r))"
| "item_required r (EnumItem n) = info_required (reg_lookup r n (enumdict r))"
| "item_required r (CmdItem n) = info_required (reg_lookup r n (cmddict r))"

text \<open>What an element of the document makes the item that it defines depend on.\<close>

definition opt_item :: "(pname \<Rightarrow> item) \<Rightarrow> pname \<Rightarrow> item list" where
  "opt_item c n = (if truthy n then [c n] else [])"

fun elem_deps :: "registry \<Rightarrow> item \<Rightarrow> addr \<Rightarrow> item list" where
  "elem_deps r (TypeItem n) e =
     concat (map (\<lambda>m. if truthy m \<and> n \<noteq> m then [TypeItem m] else [])
       (map (elem_get (doc r) e) [''requires'', ''alias''])) @
     concat (map (\<lambda>m. if n \<noteq> m then [TypeItem m] else [])
       (map (elem_text (doc r)) (findall_below (doc r) e ''type''))) @
     map EnumItem (map (elem_text (doc r)) (findall_below (doc r) e ''enum'')) @
     opt_item TypeItem (elem_get (doc r) e ''bitvalues'')"
| "elem_deps r (EnumItem n) e = opt_item EnumItem (elem_get (doc r) e ''alias'')"
| "elem_deps r (CmdItem n) e =
     (if requireCommandAliases (gen_opts r) then opt_item CmdItem (elem_get (doc r) e ''alias'') else []) @
     map TypeItem (map (elem_text (doc r)) (findall_below (doc r) e ''type''))"

definition item_deps :: "registry \<Rightarrow> item \<Rightarrow> item list" where
  "item_deps r x = (case item_elem r x of None \<Rightarrow> [] | Some e \<Rightarrow> elem_deps r x e)"

definition depends_on :: "registry \<Rightarrow> item \<Rightarrow> item \<Rightarrow> bool" where
  "depends_on r x y \<longleftrightarrow> y \<in> set (item_deps r x)"

text \<open>Frames enough for every path, and no path to a type that has no name and no definition.\<close>

fun fits :: "registry \<Rightarrow> nat \<Rightarrow> item \<Rightarrow> bool" where
  "fits r 0 x = False"
| "fits r (Suc d) x \<longleftrightarrow> (\<forall>y \<in> set (item_deps r x). fits r d y)"

definition nameless :: "registry \<Rightarrow> item \<Rightarrow> bool" where
  "nameless r x \<longleftrightarrow> x = TypeItem None \<and> item_elem r x = None"

definition reach :: "registry \<Rightarrow> item \<Rightarrow> item set" where
  "reach r x = {y. (depends_on r)\<^sup>*\<^sup>* x y}"

lemma fits_iff: "fits r d x \<longleftrightarrow> \<not> (\<exists>y. (depends_on r ^^ d) x y)"
proof (induction d arbitrary: x)
  case (Suc d)
  have "(\<exists>y. (depends_on r ^^ Suc d) x y) \<longleftrightarrow> (\<exists>z. depends_on r x z \<and> (\<exists>y. (depends_on r ^^ d) z y))"
    by (metis relpowp_Suc_D2 relpowp_Suc_I2)
  moreover have "fits r (Suc d) x \<longleftrightarrow> (\<forall>z. depends_on r x z \<longrightarrow> fits r d z)"
    by (auto simp: depends_on_def)
  ultimately show ?case using Suc by blast
qed auto

lemma reach_unfold: "reach r x = insert x (\<Union>y \<in> set (item_deps r x). reach r y)"
  unfolding reach_def depends_on_def
  by (auto intro: converse_rtranclp_into_rtranclp elim: converse_rtranclpE)

section \<open>What one call of the tagging does\<close>

definition shape :: "registry \<Rightarrow> registry \<Rightarrow> bool" where
  "shape r r' \<longleftrightarrow> doc r' = doc r \<and> gen_opts r' = gen_opts r \<and> reg r' = reg r \<and> item_elem r' = item_elem r \<and>
     genFeatures r' = genFeatures r \<and> removedExtensionNames r' = removedExtensionNames r"

interpretation shape_frame: loop_frame shape
  by unfold_locales (simp_all add: shape_def)

definition marks :: "registry \<Rightarrow> item set \<Rightarrow> registry \<Rightarrow> bool" where
  "marks r S r' \<longleftrightarrow> shape r r' \<and>
     (\<forall>y. item_required r' y \<longleftrightarrow> item_required r y \<or> y \<in> S \<and> item_elem r y \<noteq> None)"

text \<open>The computation returns exactly if \<open>P\<close>, and then marks the known items of \<open>S\<close>.\<close>

definition behaves :: "registry \<Rightarrow> registry res \<Rightarrow> item set \<Rightarrow> bool \<Rightarrow> bool" where
  "behaves r m S P \<longleftrightarrow> ((\<exists>r'. m = Inr r') \<longleftrightarrow> P) \<and> (\<forall>r'. m = Inr r' \<longrightarrow> marks r S r')"

lemma shape_deps: "shape r s \<Longrightarrow> item_deps s x = item_deps r x"
  by (cases x) (auto simp: shape_def item_deps_def split: option.splits)

lemma shape_same:
  assumes "shape r s"
  shows "reach s x = reach r x" "fits s d x = fits r d x" "nameless s x = nameless r x"
proof -
  have "depends_on s = depends_on r" using assms by (auto simp: depends_on_def shape_deps fun_eq_iff)
  then show "reach s x = reach r x" "fits s d x = fits r d x" by (simp_all add: reach_def fits_iff)
  show "nameless s x = nameless r x" using assms by (simp add: nameless_def shape_def)
qed

lemma behaves_Inr: "marks r S r' \<Longrightarrow> behaves r (Inr r') S True"
  by (simp add: behaves_def)

lemma marks_refl: "marks r {} r"
  by (simp add: marks_def shape_frame.rel_refl)

lemma marks_trans: "marks r S s \<Longrightarrow> marks s T t \<Longrightarrow> marks r (S \<union> T) t"
  unfolding marks_def by (auto intro: shape_frame.rel_trans simp: shape_def)

lemma behaves_bind:
  assumes "behaves r m S P" and "\<And>s. shape r s \<Longrightarrow> behaves s (f s) T Q"
  shows "behaves r (rbind m f) (S \<union> T) (P \<and> Q)"
proof (cases m)
  case (Inr s)
  with assms(1) have "marks r S s" P by (auto simp: behaves_def)
  moreover from this have "behaves s (f s) T Q" using assms(2) by (simp add: marks_def)
  ultimately show ?thesis using Inr marks_trans by (auto simp: behaves_def)
qed (use assms(1) in \<open>simp add: behaves_def\<close>)

lemma behaves_loop:
  assumes "\<And>x s. x \<in> set xs \<Longrightarrow> shape r s \<Longrightarrow> behaves s (f x s) (G x) (P x)"
  shows "behaves r (for_each f xs r) (\<Union>x \<in> set xs. G x) (\<forall>x \<in> set xs. P x)"
  using assms
proof (induction xs arbitrary: r)
  case Nil
  then show ?case by (simp add: behaves_def marks_refl)
next
  case (Cons x xs)
  have "behaves r (rbind (f x r) (for_each f xs)) (G x \<union> (\<Union>x \<in> set xs. G x)) (P x \<and> (\<forall>x \<in> set xs. P x))"
  proof (rule behaves_bind)
    show "behaves r (f x r) (G x) (P x)" using Cons.prems shape_frame.rel_refl by simp
    show "behaves s (for_each f xs s) (\<Union>x \<in> set xs. G x) (\<forall>x \<in> set xs. P x)" if "shape r s" for s
      using Cons.IH Cons.prems shape_frame.rel_trans [OF that] by simp
  qed
  then show ?case by simp
qed

lemma behaves_cong: "behaves r m S P \<Longrightarrow> S = T \<Longrightarrow> P = Q \<Longrightarrow> behaves r m T Q"
  by simp

lemma behaves_after: "marks r S s \<Longrightarrow> behaves s m T Q \<Longrightarrow> behaves r m (S \<union> T) Q"
  using behaves_bind [OF behaves_Inr, of r S s "\<lambda>_. m"] by (simp add: behaves_def marks_trans)

lemma behaves_before:
  assumes "behaves r m S P" and "\<And>s. shape r s \<Longrightarrow> marks s T (f s)"
  shows "behaves r (rbind m (\<lambda>s. Inr (f s))) (S \<union> T) P"
  using behaves_bind [OF assms(1), of "\<lambda>s. Inr (f s)" T True] assms(2) behaves_Inr by simp

text \<open>Setting the flag of one entry.\<close>

lemma i_elem_set_required [simp]:
  "i_elem (set_required b i) = i_elem i" "i_required (set_required b i) = b"
  by (simp_all add: set_required_def)

lemma item_elem_other [simp]:
  "item_elem (warn w r) = item_elem r" "item_elem (r\<lparr>groupdict := g\<rparr>) = item_elem r"
proof -
  have "item_elem (warn w r) x = item_elem r x" "item_elem (r\<lparr>groupdict := g\<rparr>) x = item_elem r x" for x
    by (cases x; simp add: reg_lookup_def api_name_def)+
  then show "item_elem (warn w r) = item_elem r" "item_elem (r\<lparr>groupdict := g\<rparr>) = item_elem r" by auto
qed

lemma item_required_other [simp]:
  "item_required (warn w r) x = item_required r x" "item_required (r\<lparr>groupdict := g\<rparr>) x = item_required r x"
  by (cases x; simp add: reg_lookup_def api_name_def)+

lemma marks_warn: "item_elem r x = None \<Longrightarrow> marks r {x} (warn w r)"
  by (auto simp: marks_def shape_def)

lemma marks_unknown: "item_elem r x = None \<Longrightarrow> marks r {x} r"
  by (auto simp: marks_def shape_def)

lemma marks_flagType: "marks r {} (set_flagType a b r)"
  by (simp add: marks_def shape_def set_flagType_def)

lemma set_required_info [simp]:
  "map_option i_elem (map_option (set_required b) i) = map_option i_elem i"
  "info_required (map_option (set_required True) i) \<longleftrightarrow> i \<noteq> None"
  by (cases i; simp add: info_required_def)+

lemma info_required_None: "info_required i \<Longrightarrow> i \<noteq> None"
  by (cases i) (auto simp: info_required_def)

lemma api_name_dicts [simp]:
  "api_name (r\<lparr>typedict := a\<rparr>) = api_name r" "api_name (r\<lparr>enumdict := b\<rparr>) = api_name r"
  "api_name (r\<lparr>cmddict := c\<rparr>) = api_name r" "api_name (r\<lparr>groupdict := g\<rparr>) = api_name r"
  by (simp_all add: api_name_def)

lemma marks_type: "marks r {TypeItem n} (r\<lparr>typedict := adjustInfo (api_name r) n (set_required True) (typedict r)\<rparr>)"
  (is "marks r _ ?r")
proof -
  have "item_elem ?r x = item_elem r x" for x by (cases x; simp add: reg_lookup_def)
  moreover have "item_required ?r x \<longleftrightarrow> item_required r x \<or> x = TypeItem n \<and> item_elem r x \<noteq> None" for x
    by (cases x) (auto simp: reg_lookup_def dest: info_required_None)
  ultimately show ?thesis by (auto simp: marks_def shape_def)
qed

lemma marks_enum: "marks r {EnumItem n} (r\<lparr>enumdict := adjustInfo (api_name r) n (set_required True) (enumdict r)\<rparr>)"
  (is "marks r _ ?r")
proof -
  have "item_elem ?r x = item_elem r x" for x by (cases x; simp add: reg_lookup_def)
  moreover have "item_required ?r x \<longleftrightarrow> item_required r x \<or> x = EnumItem n \<and> item_elem r x \<noteq> None" for x
    by (cases x) (auto simp: reg_lookup_def dest: info_required_None)
  ultimately show ?thesis by (auto simp: marks_def shape_def)
qed

lemma marks_cmd: "marks r {CmdItem n} (r\<lparr>cmddict := adjustInfo (api_name r) n (set_required True) (cmddict r)\<rparr>)"
  (is "marks r _ ?r")
proof -
  have "item_elem ?r x = item_elem r x" for x by (cases x; simp add: reg_lookup_def)
  moreover have "item_required ?r x \<longleftrightarrow> item_required r x \<or> x = CmdItem n \<and> item_elem r x \<noteq> None" for x
    by (cases x) (auto simp: reg_lookup_def dest: info_required_None)
  ultimately show ?thesis by (auto simp: marks_def shape_def)
qed

text \<open>When a call returns: all paths fit, and none leads to a nameless type.\<close>

definition returns :: "registry \<Rightarrow> nat \<Rightarrow> item \<Rightarrow> bool" where
  "returns r d x \<longleftrightarrow> fits r d x \<and> (\<forall>y \<in> reach r x. \<not> nameless r y)"

lemma returns_Suc:
  "returns r (Suc d) x \<longleftrightarrow> \<not> nameless r x \<and> (\<forall>y \<in> set (item_deps r x). returns r d y)"
  unfolding returns_def by (subst reach_unfold) auto

lemma returns_0: "\<not> returns r 0 x"
  by (simp add: returns_def)

definition deps_reach :: "registry \<Rightarrow> item list \<Rightarrow> item set" where
  "deps_reach r xs = (\<Union>y \<in> set xs. reach r y)"

lemma deps_reach_simps [simp]:
  "deps_reach r [] = {}" "deps_reach r (x # xs) = reach r x \<union> deps_reach r xs"
  "deps_reach r (xs @ ys) = deps_reach r xs \<union> deps_reach r ys"
  by (auto simp: deps_reach_def)

lemma shape_returns: "shape r s \<Longrightarrow> returns s d x = returns r d x"
  by (simp add: returns_def shape_same)

lemma shape_doc: "shape r s \<Longrightarrow> doc s = doc r \<and> gen_opts s = gen_opts r"
  by (simp add: shape_def)

text \<open>A call that visits the dependencies of a known item and marks the item.\<close>

definition returns_all :: "registry \<Rightarrow> nat \<Rightarrow> item list \<Rightarrow> bool" where
  "returns_all r d xs \<longleftrightarrow> (\<forall>y \<in> set xs. returns r d y)"

lemma returns_all_simps [simp]:
  "returns_all r d []" "returns_all r d (x # xs) \<longleftrightarrow> returns r d x \<and> returns_all r d xs"
  "returns_all r d (xs @ ys) \<longleftrightarrow> returns_all r d xs \<and> returns_all r d ys"
  by (auto simp: returns_all_def)

lemma shape_deps_all:
  "shape r s \<Longrightarrow> deps_reach s xs = deps_reach r xs" "shape r s \<Longrightarrow> returns_all s d xs = returns_all r d xs"
  by (simp_all add: deps_reach_def returns_all_def shape_same shape_returns)

lemma behaves_item:
  assumes "behaves r m (deps_reach r (elem_deps r x e) \<union> {x}) (returns_all r d (elem_deps r x e))"
    and "item_elem r x = Some e"
  shows "behaves r m (reach r x) (returns r (Suc d) x)"
proof (rule behaves_cong [OF assms(1)])
  have deps: "item_deps r x = elem_deps r x e" using assms(2) by (simp add: item_deps_def)
  show "deps_reach r (elem_deps r x e) \<union> {x} = reach r x"
    by (subst reach_unfold [of r x]) (auto simp: deps deps_reach_def)
  show "returns_all r d (elem_deps r x e) = returns r (Suc d) x"
    using assms(2) by (simp add: returns_Suc deps returns_all_def nameless_def)
qed

lemma behaves_unknown:
  assumes "item_elem r x = None" and "\<not> nameless r x" and "marks r {x} r'"
  shows "behaves r (Inr r') (reach r x) (returns r (Suc d) x)"
proof (rule behaves_cong [OF behaves_Inr [OF assms(3)]])
  have deps: "item_deps r x = []" using assms(1) by (simp add: item_deps_def)
  show "{x} = reach r x" by (subst reach_unfold) (simp add: deps)
  show "True = returns r (Suc d) x" using assms(2) by (simp add: returns_Suc deps)
qed

text \<open>A loop whose elements each name some items, as read from the document.\<close>

lemma behaves_shape:
  assumes "shape r s" and "behaves s m (deps_reach s xs) (returns_all s d xs)"
  shows "behaves s m (deps_reach r xs) (returns_all r d xs)"
  using assms by (simp add: shape_deps_all)

lemma behaves_names:
  assumes "\<And>m s. behaves s (f m s) (deps_reach s (g m)) (returns_all s d (g m))" and "shape r0 r"
  shows "behaves r (for_each (\<lambda>x s. f (h (doc s) x) s) xs r)
    (deps_reach r0 (concat (map g (map (h (doc r0)) xs)))) (returns_all r0 d (concat (map g (map (h (doc r0)) xs))))"
proof -
  have "behaves r (for_each (\<lambda>x s. f (h (doc s) x) s) xs r)
    (\<Union>x \<in> set xs. deps_reach r0 (g (h (doc r0) x))) (\<forall>x \<in> set xs. returns_all r0 d (g (h (doc r0) x)))"
  proof (rule behaves_loop)
    fix x s assume "shape r s"
    with assms(2) have sh: "shape r0 s" by (rule shape_frame.rel_trans)
    show "behaves s (f (h (doc s) x) s) (deps_reach r0 (g (h (doc r0) x))) (returns_all r0 d (g (h (doc r0) x)))"
      using behaves_shape [OF sh assms(1)] by (simp add: shape_doc [OF sh])
  qed
  then show ?thesis by (simp add: deps_reach_def returns_all_def image_image)
qed

lemma behaves_one:
  "behaves r m (reach r x) (returns r d x) \<Longrightarrow> behaves r m (deps_reach r [x]) (returns_all r d [x])"
  by simp

lemma behaves_none: "behaves r (Inr r) (deps_reach r []) (returns_all r d [])"
  by (simp add: behaves_Inr marks_refl)

lemma behaves_opt:
  assumes "truthy n \<Longrightarrow> behaves r m (reach r (c n)) (returns r d (c n))"
  shows "behaves r (if truthy n then m else Inr r) (deps_reach r (opt_item c n)) (returns_all r d (opt_item c n))"
  using assms by (simp add: opt_item_def behaves_Inr marks_refl)

lemma concat_map_single: "concat (map (\<lambda>k. [c k]) xs) = map c xs"
  by (induction xs) auto

lemma markEnum_behaves:
  "behaves r (markEnumRequired d n True r) (reach r (EnumItem n)) (returns r d (EnumItem n))"
proof (induction d arbitrary: n r)
  case 0
  then show ?case by (simp add: behaves_def returns_0)
next
  case (Suc d)
  show ?case
  proof (cases "reg_lookup r n (enumdict r)")
    case None
    then show ?thesis by (simp add: nameless_def behaves_unknown marks_warn)
  next
    case (Some enum)
    let ?r = "r\<lparr>enumdict := adjustInfo (api_name r) n (set_required True) (enumdict r)\<rparr>"
    let ?a = "elem_get (doc r) (i_elem enum) ''alias''"
    have m: "marks r {EnumItem n} ?r" by (rule marks_enum)
    then have sh: "shape r ?r" by (simp add: marks_def)
    have "behaves ?r (if truthy ?a then markEnumRequired d ?a True ?r else Inr ?r)
        (deps_reach r (opt_item EnumItem ?a)) (returns_all r d (opt_item EnumItem ?a))"
      by (rule behaves_shape [OF sh behaves_opt]) (rule Suc.IH)
    from behaves_after [OF m this]
    have "behaves r (if truthy ?a then markEnumRequired d ?a True ?r else Inr ?r)
        (deps_reach r (elem_deps r (EnumItem n) (i_elem enum)) \<union> {EnumItem n})
        (returns_all r d (elem_deps r (EnumItem n) (i_elem enum)))"
      by (simp only: elem_deps.simps Un_commute)
    moreover have "markEnumRequired (Suc d) n True r = (if truthy ?a then markEnumRequired d ?a True ?r else Inr ?r)"
      using Some by (simp add: Let_def)
    ultimately have "behaves r (markEnumRequired (Suc d) n True r)
        (deps_reach r (elem_deps r (EnumItem n) (i_elem enum)) \<union> {EnumItem n})
        (returns_all r d (elem_deps r (EnumItem n) (i_elem enum)))" by (simp only:)
    then show ?thesis by (rule behaves_item) (simp add: Some)
  qed
qed

lemma markType_behaves:
  "behaves r (markTypeRequired d n True r) (reach r (TypeItem n)) (returns r d (TypeItem n))"
proof (induction d arbitrary: n r)
  case 0
  then show ?case by (simp add: behaves_def returns_0)
next
  case (Suc d)
  show ?case
  proof (cases "reg_lookup r n (typedict r)")
    case None
    show ?thesis
    proof (cases n)
      case None
      with \<open>reg_lookup r n (typedict r) = None\<close> show ?thesis
        by (simp add: behaves_def returns_Suc nameless_def)
    next
      case (Some s)
      with None show ?thesis by (auto intro!: behaves_unknown marks_warn marks_unknown simp: nameless_def)
    qed
  next
    case (Some i)
    let ?e = "i_elem i" and ?st = "doc r"
    let ?f = "\<lambda>m. if truthy m \<and> n \<noteq> m then [TypeItem m] else []"
      and ?g = "\<lambda>m. if n \<noteq> m then [TypeItem m] else []"
    have m: "behaves s (if b then markTypeRequired d k True s else Inr s)
        (deps_reach s (if b then [TypeItem k] else [])) (returns_all s d (if b then [TypeItem k] else []))" for b k s
      using Suc.IH behaves_none by (cases b) simp_all
    have e: "behaves s (markEnumRequired d k True s) (deps_reach s [EnumItem k]) (returns_all s d [EnumItem k])" for k s
      by (rule behaves_one [OF markEnum_behaves])
    have bits: "behaves s (if truthy k then rbind (markTypeRequired d k True s) (\<lambda>r. Inr (set_flagType k n r)) else Inr s)
        (deps_reach s (opt_item TypeItem k)) (returns_all s d (opt_item TypeItem k))" for k s
      using behaves_before [OF Suc.IH marks_flagType] by (simp add: opt_item_def behaves_Inr marks_refl)
    let ?m1 = "\<lambda>r. for_each (\<lambda>k r. if truthy (elem_get (doc r) ?e k) \<and> n \<noteq> elem_get (doc r) ?e k
        then markTypeRequired d (elem_get (doc r) ?e k) True r else Inr r) [''requires'', ''alias''] r"
    let ?m2 = "\<lambda>r. for_each (\<lambda>t r. if n \<noteq> elem_text (doc r) t
        then markTypeRequired d (elem_text (doc r) t) True r else Inr r) (findall_below (doc r) ?e ''type'') r"
    let ?m3 = "\<lambda>r. for_each (\<lambda>t r. markEnumRequired d (elem_text (doc r) t) True r) (findall_below (doc r) ?e ''enum'') r"
    let ?m4 = "\<lambda>r. if truthy (elem_get (doc r) ?e ''bitvalues'')
        then rbind (markTypeRequired d (elem_get (doc r) ?e ''bitvalues'') True r)
               (\<lambda>s. Inr (set_flagType (elem_get (doc r) ?e ''bitvalues'') n s)) else Inr r"
    have mark: "markTypeRequired (Suc d) n True r = rbind (rbind (?m1 r) (\<lambda>r. rbind (?m2 r) (\<lambda>r. rbind (?m3 r) ?m4)))
        (\<lambda>r. Inr (r\<lparr>typedict := adjustInfo (api_name r) n (set_required True) (typedict r)\<rparr>))"
      using Some by (simp only: markTypeRequired.simps option.case Let_def if_True)
    let ?d1 = "concat (map ?f (map (elem_get ?st ?e) [''requires'', ''alias'']))"
    let ?d2 = "concat (map ?g (map (elem_text ?st) (findall_below ?st ?e ''type'')))"
    let ?d3 = "concat (map (\<lambda>k. [EnumItem k]) (map (elem_text ?st) (findall_below ?st ?e ''enum'')))"
    let ?d4 = "opt_item TypeItem (elem_get ?st ?e ''bitvalues'')"
    have s1: "behaves r (?m1 r) (deps_reach r ?d1) (returns_all r d ?d1)"
      by (rule behaves_names [where h = "\<lambda>st. elem_get st ?e" and g = ?f, OF m shape_frame.rel_refl])
    have s2: "behaves s (?m2 s) (deps_reach r ?d2) (returns_all r d ?d2)" if sh: "shape r s" for s
      unfolding shape_doc [OF sh, THEN conjunct1]
      using behaves_names [where h = elem_text and g = ?g, OF m sh] .
    have s3: "behaves s (?m3 s) (deps_reach r ?d3) (returns_all r d ?d3)" if sh: "shape r s" for s
      unfolding shape_doc [OF sh, THEN conjunct1]
      using behaves_names [where h = elem_text and g = "\<lambda>k. [EnumItem k]", OF e sh] .
    have s4: "behaves s (?m4 s) (deps_reach r ?d4) (returns_all r d ?d4)" if sh: "shape r s" for s
      unfolding shape_doc [OF sh, THEN conjunct1] by (rule behaves_shape [OF sh bits])
    note all = behaves_before [OF behaves_bind [OF s1 behaves_bind [OF s2 behaves_bind [OF s3 s4]]] marks_type]
    have "behaves r (markTypeRequired (Suc d) n True r)
        (deps_reach r (elem_deps r (TypeItem n) ?e) \<union> {TypeItem n}) (returns_all r d (elem_deps r (TypeItem n) ?e))"
      unfolding mark by (rule behaves_cong [OF all])
        (simp_all only: elem_deps.simps concat_map_single deps_reach_simps returns_all_simps Un_assoc conj_assoc,
          (blast intro: shape_frame.rel_trans)+)
    then show ?thesis by (rule behaves_item) (simp add: Some)
  qed
qed

lemma markCmd_behaves:
  "behaves r (markCmdRequired d n True r) (reach r (CmdItem n)) (returns r d (CmdItem n))"
proof (induction d arbitrary: n r)
  case 0
  then show ?case by (simp add: behaves_def returns_0)
next
  case (Suc d)
  show ?case
  proof (cases "reg_lookup r n (cmddict r)")
    case None
    then show ?thesis by (simp add: nameless_def behaves_unknown marks_warn)
  next
    case (Some cmd)
    let ?r = "r\<lparr>cmddict := adjustInfo (api_name r) n (set_required True) (cmddict r)\<rparr>"
    let ?e = "i_elem cmd" and ?st = "doc r" and ?b = "requireCommandAliases (gen_opts r)"
    let ?a = "elem_get ?st ?e ''alias''"
    let ?m1 = "if ?b \<and> truthy ?a then markCmdRequired d ?a True ?r else Inr ?r"
    let ?m2 = "\<lambda>r. for_each (\<lambda>t r. markTypeRequired d (elem_text (doc r) t) True r) (findall_below (doc r) ?e ''type'') r"
    have mark: "markCmdRequired (Suc d) n True r = rbind ?m1 ?m2"
      using Some by (simp add: Let_def)
    let ?d1 = "if ?b then opt_item CmdItem ?a else []"
    let ?d2 = "concat (map (\<lambda>k. [TypeItem k]) (map (elem_text ?st) (findall_below ?st ?e ''type'')))"
    have m: "marks r {CmdItem n} ?r" by (rule marks_cmd)
    then have sh: "shape r ?r" by (simp add: marks_def)
    have "behaves ?r ?m1 (deps_reach ?r ?d1) (returns_all ?r d ?d1)"
      using Suc.IH by (simp add: opt_item_def behaves_Inr marks_refl)
    then have s1: "behaves ?r ?m1 (deps_reach r ?d1) (returns_all r d ?d1)" by (rule behaves_shape [OF sh])
    have t: "behaves s (markTypeRequired d k True s) (deps_reach s [TypeItem k]) (returns_all s d [TypeItem k])" for k s
      by (rule behaves_one [OF markType_behaves])
    have s2: "behaves s (?m2 s) (deps_reach r ?d2) (returns_all r d ?d2)" if sh2: "shape ?r s" for s
    proof -
      have "shape r s" by (rule shape_frame.rel_trans [OF sh sh2])
      then show ?thesis
        unfolding shape_doc [OF \<open>shape r s\<close>, THEN conjunct1]
        using behaves_names [where h = elem_text and g = "\<lambda>k. [TypeItem k]", OF t] by blast
    qed
    have "behaves r (markCmdRequired (Suc d) n True r)
        (deps_reach r (elem_deps r (CmdItem n) ?e) \<union> {CmdItem n}) (returns_all r d (elem_deps r (CmdItem n) ?e))"
      unfolding mark by (rule behaves_cong [OF behaves_after [OF m behaves_bind [OF s1 s2]]])
        (simp_all only: elem_deps.simps concat_map_single deps_reach_simps returns_all_simps Un_ac)
    then show ?thesis by (rule behaves_item) (simp add: Some)
  qed
qed

section \<open>Tagging marks the closure\<close>

text \<open>C2: when \<^verbatim>\<open>markTypeRequired\<close> returns for \<^verbatim>\<open>required=True\<close>, the required items are those that were
  required before and the defined types and enums that the type reaches over the dependency
  relation of the document (\<^verbatim>\<open>requires\<close>, \<^verbatim>\<open>alias\<close>, \<^verbatim>\<open>bitvalues\<close>, nested \<^verbatim>\<open><type>\<close> and \<^verbatim>\<open><enum>\<close>): no
  dependency is missed and nothing else is tagged. The document and the definitions stay.
\<close>

theorem markTypeRequired_marks:
  "markTypeRequired d n True r = Inr r' \<Longrightarrow>
     doc r' = doc r \<and> item_elem r' = item_elem r \<and>
     (\<forall>y. item_required r' y \<longleftrightarrow>
        item_required r y \<or> (depends_on r)\<^sup>*\<^sup>* (TypeItem n) y \<and> item_elem r y \<noteq> None)"
  using markType_behaves [of r d n] by (auto simp: behaves_def marks_def reach_def shape_def)

text \<open>A handle whose type requires a structure with a nested type; and two types that require each other.\<close>

definition type_node :: "string \<Rightarrow> (string \<times> string) list \<Rightarrow> addr list \<Rightarrow> xnode" where
  "type_node n ats cs = \<lparr>etag = ''type'', eattrib = (''name'', n) # ats, etext = Some n, etail = None, echildren = cs\<rparr>"

definition mark_example :: registry where
  "mark_example = (Registry None)\<lparr>
     doc := [type_node ''A'' [(''requires'', ''B'')] [], type_node ''B'' [] [2], type_node ''C'' [] [],
             type_node ''C'' [] [], type_node ''X'' [(''requires'', ''Y'')] [], type_node ''Y'' [(''requires'', ''X'')] []],
     typedict := [(Name (Some ''A''), TypeInfo 0), (Name (Some ''B''), TypeInfo 1), (Name (Some ''C''), TypeInfo 3),
                  (Name (Some ''X''), TypeInfo 4), (Name (Some ''Y''), TypeInfo 5)]\<rparr>"

lemma mark_example_deps:
  "item_deps mark_example (TypeItem (Some ''A'')) = [TypeItem (Some ''B'')]"
  "item_deps mark_example (TypeItem (Some ''B'')) = [TypeItem (Some ''C'')]"
  "item_deps mark_example (TypeItem (Some ''C'')) = []"
  "item_deps mark_example (TypeItem (Some ''X'')) = [TypeItem (Some ''Y'')]"
  "item_deps mark_example (TypeItem (Some ''Y'')) = [TypeItem (Some ''X'')]"
  by code_simp+

theorem markTypeRequired_marks_witness:
  "\<exists>r'. markTypeRequired 4 (Some ''A'') True mark_example = Inr r' \<and> item_required r' (TypeItem (Some ''C'')) \<and>
     \<not> item_required r' (TypeItem (Some ''X''))"
proof -
  let ?r = mark_example and ?t = "\<lambda>s. TypeItem (Some s)"
  obtain r' where r': "markTypeRequired 4 (Some ''A'') True ?r = Inr r'"
  proof (cases "markTypeRequired 4 (Some ''A'') True ?r")
    case (Inl e)
    moreover have "\<not> isl (markTypeRequired 4 (Some ''A'') True ?r)" by code_simp
    ultimately show ?thesis by simp
  qed (rule that)
  have step: "depends_on ?r (?t ''A'') (?t ''B'')" "depends_on ?r (?t ''B'') (?t ''C'')"
    by (simp_all add: depends_on_def mark_example_deps)
  have known: "item_elem ?r (?t ''C'') \<noteq> None" by code_simp
  have "(depends_on ?r)\<^sup>*\<^sup>* (?t ''A'') (?t ''C'')" using step by (meson converse_rtranclp_into_rtranclp rtranclp.rtrancl_refl)
  moreover have "\<not> (depends_on ?r)\<^sup>*\<^sup>* (?t ''A'') (?t ''X'')"
  proof -
    have "y \<in> {?t ''A'', ?t ''B'', ?t ''C''}" if "(depends_on ?r)\<^sup>*\<^sup>* (?t ''A'') y" for y
      using that by induction (auto simp: depends_on_def mark_example_deps)
    then show ?thesis by fastforce
  qed
  moreover have "\<not> item_required ?r (?t ''X'')" by code_simp
  ultimately show ?thesis using markTypeRequired_marks [OF r'] r' known by blast
qed

text \<open>C12: the same for \<^verbatim>\<open>markCmdRequired\<close>: a required command marks itself, the types its parameters
  reach and, only with \<^verbatim>\<open>requireCommandAliases\<close>, the commands it is an alias of.
\<close>

theorem markCmdRequired_marks:
  "markCmdRequired d n True r = Inr r' \<Longrightarrow>
     doc r' = doc r \<and> item_elem r' = item_elem r \<and>
     (\<forall>y. item_required r' y \<longleftrightarrow>
        item_required r y \<or> (depends_on r)\<^sup>*\<^sup>* (CmdItem n) y \<and> item_elem r y \<noteq> None)"
  using markCmd_behaves [of r d n] by (auto simp: behaves_def marks_def reach_def shape_def)

definition cmd_example :: registry where
  "cmd_example = mark_example\<lparr>
     doc := doc mark_example @ [\<lparr>etag = ''command'', eattrib = [(''name'', ''f'')], etext = None, etail = None, echildren = [7]\<rparr>,
       \<lparr>etag = ''type'', eattrib = [], etext = Some ''A'', etail = None, echildren = []\<rparr>],
     cmddict := [(Name (Some ''f''), CmdInfo 6)]\<rparr>"

theorem markCmdRequired_marks_witness:
  "\<exists>r'. markCmdRequired 5 (Some ''f'') True cmd_example = Inr r' \<and> item_required r' (TypeItem (Some ''A''))"
proof -
  obtain r' where r': "markCmdRequired 5 (Some ''f'') True cmd_example = Inr r'"
  proof (cases "markCmdRequired 5 (Some ''f'') True cmd_example")
    case (Inl e)
    moreover have "\<not> isl (markCmdRequired 5 (Some ''f'') True cmd_example)" by code_simp
    ultimately show ?thesis by simp
  qed (rule that)
  have "item_deps cmd_example (CmdItem (Some ''f'')) = [TypeItem (Some ''A'')]" by code_simp
  then have "(depends_on cmd_example)\<^sup>*\<^sup>* (CmdItem (Some ''f'')) (TypeItem (Some ''A''))"
    by (intro r_into_rtranclp) (simp add: depends_on_def)
  moreover have "item_elem cmd_example (TypeItem (Some ''A'')) \<noteq> None" by code_simp
  ultimately show ?thesis using markCmdRequired_marks [OF r'] r' by blast
qed

text \<open>C4: \<^verbatim>\<open>markTypeRequired\<close> returns exactly when no chain of dependencies from the type is as long
  as the frames that are left, and no reachable \<^verbatim>\<open><type>\<close> tag is empty (its missing text is not
  a name to search for \<^verbatim>\<open>.h\<close>).
\<close>

theorem markTypeRequired_returns:
  "(\<exists>r'. markTypeRequired d n True r = Inr r') \<longleftrightarrow>
     (\<nexists>y. (depends_on r ^^ d) (TypeItem n) y) \<and>
     (item_elem r (TypeItem None) = None \<longrightarrow> \<not> (depends_on r)\<^sup>*\<^sup>* (TypeItem n) (TypeItem None))"
  using markType_behaves [of r d n]
  by (auto simp: behaves_def returns_def fits_iff reach_def nameless_def)

theorem markTypeRequired_returns_witness:
  "\<not> (\<exists>r'. markTypeRequired 3 (Some ''X'') True mark_example = Inr r')"
proof -
  let ?x = "TypeItem (Some ''X'')" and ?y = "TypeItem (Some ''Y'')"
  have "depends_on mark_example ?x ?y" "depends_on mark_example ?y ?x"
    by (simp_all add: depends_on_def mark_example_deps)
  then have "(depends_on mark_example ^^ 3) ?x ?y" by (auto simp: eval_nat_numeral)
  then show ?thesis using markTypeRequired_returns [of 3 "Some ''X''" mark_example] by blast
qed



section \<open>Removal\<close>

text \<open>Removing a type takes its own mark away and no other: the types it depends on stay, as other
  features may need them.
\<close>

theorem markTypeRequired_removes:
  "reg_lookup r n (typedict r) \<noteq> None \<Longrightarrow>
     \<exists>r'. markTypeRequired (Suc d) n False r = Inr r' \<and> doc r' = doc r \<and>
       (\<forall>y. item_required r' y \<longleftrightarrow> item_required r y \<and> y \<noteq> TypeItem n)"
proof -
  assume "reg_lookup r n (typedict r) \<noteq> None"
  then obtain i where i: "reg_lookup r n (typedict r) = Some i" by auto
  let ?r = "r\<lparr>typedict := adjustInfo (api_name r) n (set_required False) (typedict r)\<rparr>"
  have "item_required ?r y \<longleftrightarrow> item_required r y \<and> y \<noteq> TypeItem n" for y
    by (cases y) (use i in \<open>auto simp: reg_lookup_def info_required_def\<close>)
  moreover have "markTypeRequired (Suc d) n False r = Inr ?r" using i by simp
  ultimately show ?thesis by auto
qed

theorem markTypeRequired_removes_witness:
  "\<exists>r'. markTypeRequired 1 (Some ''A'') False mark_example = Inr r' \<and> \<not> item_required r' (TypeItem (Some ''A''))"
proof -
  have "reg_lookup mark_example (Some ''A'') (typedict mark_example) \<noteq> None" by code_simp
  from markTypeRequired_removes [OF this, of 0] show ?thesis by auto
qed

text \<open>C14: removing a required enum that extends a group, and that is no alias, clears its mark and takes
  its copy out of the group; no other element loses a child and no other mark changes.
\<close>

theorem markEnumRequired_removes:
  assumes "reg_lookup r n (enumdict r) = Some i" and "i_required i"
    and "elem_get (doc r) (i_elem i) ''extends'' = Some g"
    and "map_of (groupdict r) (Name (Some g)) = Some gi"
    and "find_named (doc r) (i_elem gi) ''enum'' (py_str n) = Some c"
    and "\<not> truthy (elem_get (doc r) (i_elem i) ''alias'')"
  shows "\<exists>r'. markEnumRequired (Suc d) n False r = Inr r' \<and>
     (\<forall>y. item_required r' y \<longleftrightarrow> item_required r y \<and> y \<noteq> EnumItem n) \<and>
     (\<forall>e. elem_children (doc r') e =
        (if e = i_elem gi then remove1 c (elem_children (doc r) e) else elem_children (doc r) e))"
proof -
  have "c \<in> set (elem_children (doc r) (i_elem gi))"
    using assms(5) by (auto simp: find_named_def first_def findall_attr_def findall_def filter_eq_Cons_iff
        split: list.splits)
  then obtain st where st: "elem_remove (doc r) (i_elem gi) c = Inr st" by (simp add: elem_remove_def)
  let ?r = "r\<lparr>doc := st, enumdict := adjustInfo (api_name r) n (set_required False) (enumdict r)\<rparr>"
  have api: "api_name (r\<lparr>doc := st\<rparr>) = api_name r" by (simp add: api_name_def)
  have "markEnumRequired (Suc d) n False r = Inr ?r"
    using assms st elem_remove_other(2) [OF st] by (simp add: remove_extending_def Let_def api)
  moreover have "item_required ?r y \<longleftrightarrow> item_required r y \<and> y \<noteq> EnumItem n" for y
    by (cases y) (use assms(1) in \<open>auto simp: reg_lookup_def info_required_def api_name_def\<close>)
  moreover have "elem_children st e =
      (if e = i_elem gi then remove1 c (elem_children (doc r) e) else elem_children (doc r) e)" for e
    by (simp add: elem_remove_children [OF st])
  ultimately show ?thesis by auto
qed

definition removal_example :: registry where
  "removal_example = (Registry None)\<lparr>
     doc := [\<lparr>etag = ''enums'', eattrib = [], etext = None, etail = None, echildren = [1]\<rparr>,
       \<lparr>etag = ''enum'', eattrib = [(''name'', ''E''), (''extends'', ''G'')], etext = None, etail = None, echildren = []\<rparr>],
     groupdict := [(Name (Some ''G''), GroupInfo 0)],
     enumdict := [(Name (Some ''E''), set_required True (EnumInfo [] 1))]\<rparr>"

theorem markEnumRequired_removes_witness:
  "\<exists>r'. markEnumRequired 1 (Some ''E'') False removal_example = Inr r' \<and> elem_children (doc r') 0 = []"
proof -
  let ?r = removal_example
  have "reg_lookup ?r (Some ''E'') (enumdict ?r) = Some (set_required True (EnumInfo [] 1))"
    "i_required (set_required True (EnumInfo [] 1))" "i_elem (set_required True (EnumInfo [] 1)) = 1"
    "i_elem (GroupInfo 0) = 0"
    "elem_get (doc ?r) 1 ''extends'' = Some ''G''" "map_of (groupdict ?r) (Name (Some ''G'')) = Some (GroupInfo 0)"
    "find_named (doc ?r) 0 ''enum'' (py_str (Some ''E'')) = Some 1" "\<not> truthy (elem_get (doc ?r) 1 ''alias'')"
    "elem_children (doc ?r) 0 = [1]"
    by code_simp+
  with markEnumRequired_removes [of ?r "Some ''E''" "set_required True (EnumInfo [] 1)" "''G''" "GroupInfo 0" 1 0]
  show ?thesis by fastforce
qed

section \<open>Tagging keeps the registry well formed\<close>

lemma dict_ok_adjustInfo:
  "dict_ok st d \<Longrightarrow> (\<And>i. i_elem (f i) = i_elem i) \<Longrightarrow> dict_ok st (adjustInfo a n f d)"
  by (auto simp: adjustInfo_def intro: dict_ok_adjust split: option.splits)

lemma reg_step_adjust:
  "(\<And>i. i_elem (f i) = i_elem i) \<Longrightarrow> reg_step r (r\<lparr>typedict := adjustInfo a n f (typedict r)\<rparr>)"
  "(\<And>i. i_elem (g i) = i_elem i) \<Longrightarrow> reg_step r (r\<lparr>groupdict := adjustInfo a n g (groupdict r)\<rparr>)"
  "(\<And>i. i_elem (h i) = i_elem i) \<Longrightarrow> reg_step r (r\<lparr>enumdict := adjustInfo a n h (enumdict r)\<rparr>)"
  "(\<And>i. i_elem (f i) = i_elem i) \<Longrightarrow> reg_step r (r\<lparr>cmddict := adjustInfo a n f (cmddict r)\<rparr>)"
  by (simp_all add: reg_step_def reg_ok_def dict_ok_adjustInfo)

interpretation removal_frame: loop_frame "\<lambda>s s'. doc_step (snd s) (snd s')"
  by unfold_locales (auto intro: doc_frame.rel_refl doc_frame.rel_trans)

lemma remove_plain_step: "remove_plain e r = Inr r' \<Longrightarrow> reg_step r r'"
proof -
  assume "remove_plain e r = Inr r'"
  then obtain n st where loop: "for_each (\<lambda>enums s. for_each (remove_same_name (elem_get (doc r) e ''name'') enums)
      (findall (snd s) enums ''enum'') s) (findall (doc r) (reg r) ''enums'') (0, doc r) = Inr (n, st)"
    and r': "r' = (if n = 0 then warn [''markEnumRequired: '' @ py_str (elem_get (doc r) e ''name'')
        @ '') not found in any <enums> tag''] (r\<lparr>doc := st\<rparr>) else r\<lparr>doc := st\<rparr>)"
    unfolding remove_plain_def Let_def by (elim rbind_InrE) (simp split: prod.splits)
  have "doc_step (snd (0 :: nat, doc r)) (snd (n, st))"
    using loop
  proof (rule removal_frame.for_each_rel)
    fix enums s s'
    assume "for_each (remove_same_name (elem_get (doc r) e ''name'') enums) (findall (snd s) enums ''enum'') s = Inr s'"
    then show "doc_step (snd s) (snd s')"
      by (rule removal_frame.for_each_rel)
        (auto simp: remove_same_name_def doc_frame.rel_refl split: if_splits elim!: rbind_InrE intro: doc_step_remove)
  qed
  then show ?thesis using r' reg_step_doc by auto
qed

lemma remove_extending_step: "remove_extending n g r = Inr r' \<Longrightarrow> reg_step r r'"
  by (auto simp: remove_extending_def reg_frame.rel_refl split: option.splits elim!: rbind_InrE
      intro: reg_step_doc doc_step_remove)

lemma markEnum_step: "markEnumRequired d n b r = Inr r' \<Longrightarrow> reg_step r r'"
proof (induction d n b r rule: markEnumRequired.induct)
  case (2 d n b r)
  show ?case
  proof (cases "reg_lookup r n (enumdict r)")
    case (Some i)
    let ?u = "\<lambda>r. r\<lparr>enumdict := adjustInfo (api_name r) n (set_required b) (enumdict r)\<rparr>"
    from "2.prems" Some obtain r1 where r1: "(if \<not> b \<and> i_required i then
          (case elem_get (doc r) (i_elem i) ''extends'' of
             Some groupName \<Rightarrow> remove_extending n groupName r | None \<Rightarrow> remove_plain (i_elem i) r)
        else Inr r) = Inr r1"
      and rest: "(if truthy (elem_get (doc (?u r1)) (i_elem i) ''alias'')
          then markEnumRequired d (elem_get (doc (?u r1)) (i_elem i) ''alias'') b (?u r1) else Inr (?u r1)) = Inr r'"
      by (auto simp: Let_def elim!: rbind_InrE)
    have "reg_step r r1"
      using r1 by (auto simp: reg_frame.rel_refl split: if_splits option.splits
          dest: remove_extending_step remove_plain_step)
    moreover have "reg_step r1 (?u r1)" by (rule reg_step_adjust) simp
    moreover have "reg_step (?u r1) r'"
      using rest "2.IH" [OF Some r1 refl refl] by (auto simp: reg_frame.rel_refl split: if_splits)
    ultimately show ?thesis using reg_frame.rel_trans by blast
  qed (use "2.prems" in \<open>auto simp: reg_frame.rel_refl\<close>)
qed simp

lemma markType_step: "markTypeRequired d n b r = Inr r' \<Longrightarrow> reg_step r r'"
proof (induction d arbitrary: n r r')
  case (Suc d)
  show ?case
  proof (cases "reg_lookup r n (typedict r)")
    case None
    with Suc.prems show ?thesis by (auto simp: reg_frame.rel_refl split: option.splits if_splits)
  next
    case (Some i)
    let ?e = "i_elem i"
    let ?m1 = "\<lambda>r. for_each (\<lambda>k r. let depname = elem_get (doc r) ?e k in if truthy depname \<and> n \<noteq> depname
        then markTypeRequired d depname b r else Inr r) [''requires'', ''alias''] r"
    let ?m2 = "\<lambda>r. for_each (\<lambda>t r. if n \<noteq> elem_text (doc r) t
        then markTypeRequired d (elem_text (doc r) t) b r else Inr r) (findall_below (doc r) ?e ''type'') r"
    let ?m3 = "\<lambda>r. for_each (\<lambda>t r. markEnumRequired d (elem_text (doc r) t) b r) (findall_below (doc r) ?e ''enum'') r"
    let ?m4 = "\<lambda>r. let depType = elem_get (doc r) ?e ''bitvalues'' in
        if truthy depType then rbind (markTypeRequired d depType b r) (\<lambda>s. Inr (set_flagType depType n s)) else Inr r"
    let ?u = "\<lambda>r. r\<lparr>typedict := adjustInfo (api_name r) n (set_required b) (typedict r)\<rparr>"
    have s1: "?m1 s = Inr s' \<Longrightarrow> reg_step s s'" for s s'
      by (erule reg_frame.for_each_rel) (auto simp: Let_def reg_frame.rel_refl split: if_splits dest: Suc.IH)
    have s2: "?m2 s = Inr s' \<Longrightarrow> reg_step s s'" for s s'
      by (erule reg_frame.for_each_rel) (auto simp: reg_frame.rel_refl split: if_splits dest: Suc.IH)
    have s3: "?m3 s = Inr s' \<Longrightarrow> reg_step s s'" for s s'
      by (erule reg_frame.for_each_rel) (rule markEnum_step)
    have s4: "?m4 s = Inr s' \<Longrightarrow> reg_step s s'" for s s'
    proof -
      have flag: "reg_step t (set_flagType k n t)" for t k
        unfolding set_flagType_def by (rule reg_step_adjust) simp
      show "?m4 s = Inr s' \<Longrightarrow> reg_step s s'"
        by (auto simp: Let_def reg_frame.rel_refl split: if_splits elim!: rbind_InrE
            dest!: Suc.IH intro: reg_frame.rel_trans flag)
    qed
    have mark: "markTypeRequired (Suc d) n b r =
        rbind (if b then rbind (?m1 r) (\<lambda>r. rbind (?m2 r) (\<lambda>r. rbind (?m3 r) ?m4)) else Inr r) (\<lambda>r. Inr (?u r))"
      by (simp only: markTypeRequired.simps Some option.case)
    from Suc.prems obtain r1 where r1: "(if b then rbind (?m1 r) (\<lambda>r. rbind (?m2 r) (\<lambda>r. rbind (?m3 r) ?m4)) else Inr r) = Inr r1"
      and r': "r' = ?u r1" unfolding mark by (elim rbind_InrE) simp
    have "reg_step r r1"
    proof (cases b)
      case True
      with r1 obtain a c e where 1: "?m1 r = Inr a" and 2: "?m2 a = Inr c" and 3: "?m3 c = Inr e" and 4: "?m4 e = Inr r1"
        by (simp only: if_True) (elim rbind_InrE)
      show ?thesis
        by (rule reg_frame.rel_trans [OF s1 [OF 1] reg_frame.rel_trans [OF s2 [OF 2]
          reg_frame.rel_trans [OF s3 [OF 3] s4 [OF 4]]]])
    qed (use r1 in \<open>simp add: reg_frame.rel_refl\<close>)
    moreover have "reg_step r1 r'" unfolding r' by (rule reg_step_adjust) simp
    ultimately show ?thesis by (rule reg_frame.rel_trans)
  qed
qed simp

lemma markCmd_step: "markCmdRequired d n b r = Inr r' \<Longrightarrow> reg_step r r'"
proof (induction d arbitrary: n r r')
  case (Suc d)
  show ?case
  proof (cases "reg_lookup r n (cmddict r)")
    case None
    with Suc.prems show ?thesis by (auto simp: reg_frame.rel_refl)
  next
    case (Some cmd)
    let ?r = "r\<lparr>cmddict := adjustInfo (api_name r) n (set_required b) (cmddict r)\<rparr>"
    let ?a = "elem_get (doc r) (i_elem cmd) ''alias''"
    have mark: "markCmdRequired (Suc d) n b r =
        rbind (if requireCommandAliases (gen_opts r) \<and> truthy ?a then markCmdRequired d ?a b ?r else Inr ?r)
          (\<lambda>r. if b then for_each (\<lambda>t r. markTypeRequired d (elem_text (doc r) t) b r)
             (findall_below (doc r) (i_elem cmd) ''type'') r else Inr r)"
      using Some by (simp add: Let_def)
    from Suc.prems obtain r1 where
      r1: "(if requireCommandAliases (gen_opts r) \<and> truthy ?a then markCmdRequired d ?a b ?r else Inr ?r) = Inr r1"
      and rest: "(if b then for_each (\<lambda>t r. markTypeRequired d (elem_text (doc r) t) b r)
          (findall_below (doc r1) (i_elem cmd) ''type'') r1 else Inr r1) = Inr r'"
      unfolding mark by (elim rbind_InrE)
    have "reg_step r ?r" by (rule reg_step_adjust) simp
    moreover have "reg_step ?r r1" using r1 Suc.IH by (auto simp: reg_frame.rel_refl split: if_splits)
    moreover have "reg_step r1 r'"
      using rest by (auto simp: reg_frame.rel_refl split: if_splits elim!: reg_frame.for_each_rel intro: markType_step)
    ultimately show ?thesis using reg_frame.rel_trans by blast
  qed
qed simp

lemma markExtend_step: "reg_step r (markExtend f e r)"
  by (auto simp: markExtend_def Let_def reg_step_def reg_ok_def warn_def split: option.splits)

lemma markRequired_step: "markRequired d f e b r = Inr r' \<Longrightarrow> reg_step r r'"
proof -
  assume "markRequired d f e b r = Inr r'"
  then obtain r1 r2 r3 where
    "for_each (\<lambda>e r. markTypeRequired d (elem_get (doc r) e ''name'') b r) (findall (doc r) e ''type'') r = Inr r1"
    "for_each (\<lambda>e r. markEnumRequired d (elem_get (doc r) e ''name'') b r) (findall (doc r1) e ''enum'') r1 = Inr r2"
    "for_each (\<lambda>e r. markCmdRequired d (elem_get (doc r) e ''name'') b r) (findall (doc r2) e ''command'') r2 = Inr r3"
    and r': "r' = fold (markExtend f) (findall (doc r3) e ''extend'') r3"
    unfolding markRequired_def by (elim rbind_InrE) simp
  then have "reg_step r r1" "reg_step r1 r2" "reg_step r2 r3"
    by (auto elim!: reg_frame.for_each_rel intro: markType_step markEnum_step markCmd_step)
  moreover have "reg_step s (fold (markExtend f) es s)" for es s
    using reg_frame.for_each_rel [of "\<lambda>x s. Inr (markExtend f x s)" es s] markExtend_step
    by (auto simp: for_each_pure)
  ultimately show ?thesis unfolding r' using reg_frame.rel_trans by blast
qed

end
