(* ===== verification/Depends.thy ===== *)
theory Depends
  imports Prelude
begin

text \<open>
  The dependency expressions of \<^verbatim>\<open>src/tools/vkex/parse_dependency.py\<close>: the evaluators of the
  operand stack that the parse actions leave behind. The parser itself is \<^verbatim>\<open>pyparsing\<close>, a
  third-party package, and enters as the argument \<open>parse\<close>: the expression stack for a
  string that parses completely, \<open>None\<close> where \<^verbatim>\<open>parse_string(.., parse_all=True)\<close> raises
  \<^verbatim>\<open>ParseException\<close>. An expression \<open>e\<close> is pushed in postfix order (\<open>postfix e\<close>), since
  \<^verbatim>\<open>push_first\<close> runs when an atom, or an operator with its right operand, has been matched.
  The argument \<open>d\<close> of the recursive evaluators is the recursion depth Python has left;
  running out of it is \<^verbatim>\<open>RecursionError\<close>.
\<close>

section \<open>The stack\<close>

definition py_pop :: "'a list \<Rightarrow> ('a \<times> 'a list) res" where
  "py_pop st = (if st = [] then Inl IndexError else Inr (last st, butlast st))"

lemma py_pop_simps [simp]: "py_pop [] = Inl IndexError" "py_pop (st @ [x]) = Inr (x, st)"
  by (simp_all add: py_pop_def)

definition is_op :: "string \<Rightarrow> bool" where
  "is_op op \<longleftrightarrow> py_in op ''+,''"

definition starts_alpha :: "string \<Rightarrow> bool" where
  "starts_alpha s = (case s of [] \<Rightarrow> False | c # _ \<Rightarrow> py_isalpha c)"

definition op_apply :: "string \<Rightarrow> bool \<Rightarrow> bool \<Rightarrow> bool res" where
  "op_apply op a b =
     (if op = ''+'' then Inr (a \<and> b) else if op = '','' then Inr (a \<or> b) else Inl KeyError)"

section \<open>Evaluating, naming, printing\<close>

fun evaluateStack :: "nat \<Rightarrow> string list \<Rightarrow> (string \<Rightarrow> bool) \<Rightarrow> (bool \<times> string list) res" where
  "evaluateStack 0 stack isSupported = Inl RecursionError"
| "evaluateStack (Suc d) stack isSupported =
     rbind (py_pop stack) (\<lambda>(op, stack).
       if is_op op then
         rbind (evaluateStack d stack isSupported) (\<lambda>(op2, stack).
         rbind (evaluateStack d stack isSupported) (\<lambda>(op1, stack).
         rbind (op_apply op op1 op2) (\<lambda>v. Inr (v, stack))))
       else if starts_alpha op then Inr (isSupported op, stack)
       else Inl (PyException (''invalid op: '' @ op)))"

definition evaluateDependency ::
  "(string \<Rightarrow> string list option) \<Rightarrow> nat \<Rightarrow> string \<Rightarrow> (string \<Rightarrow> bool) \<Rightarrow> bool res" where
  "evaluateDependency parse d dependency isSupported =
     (case parse dependency of
        None \<Rightarrow> Inl (ParseException dependency)
      | Some stack \<Rightarrow> rbind (evaluateStack d stack isSupported) (\<lambda>(val, _). Inr val))"

fun evalDependencyNames :: "nat \<Rightarrow> string list \<Rightarrow> (string set \<times> string list) res" where
  "evalDependencyNames 0 stack = Inl RecursionError"
| "evalDependencyNames (Suc d) stack =
     rbind (py_pop stack) (\<lambda>(op, stack).
       if is_op op then
         rbind (evalDependencyNames d stack) (\<lambda>(ns1, stack).
         rbind (evalDependencyNames d stack) (\<lambda>(ns2, stack). Inr (ns1 \<union> ns2, stack)))
       else if starts_alpha op then Inr ({op}, stack)
       else Inl (PyException (''invalid op: '' @ op)))"

definition dependencyNames ::
  "(string \<Rightarrow> string list option) \<Rightarrow> nat \<Rightarrow> string \<Rightarrow> string set res" where
  "dependencyNames parse d dependency =
     (case parse dependency of
        None \<Rightarrow> Inl (ParseException dependency)
      | Some stack \<Rightarrow> rbind (evalDependencyNames d stack) (\<lambda>(ns, _). Inr ns))"

definition markupPassthrough :: "string \<Rightarrow> string res" where
  "markupPassthrough name = Inr name"

text \<open>
  \<^verbatim>\<open>conventions.formatVersionOrExtension\<close> is defined by no class of the repository, and no
  \<^verbatim>\<open>apiVersionNameMatch\<close> is defined or imported in this file.
\<close>

definition leafMarkupAsciidoc :: "string \<Rightarrow> string res" where
  "leafMarkupAsciidoc name = Inl AttributeError"

definition leafMarkupC :: "string \<Rightarrow> string res" where
  "leafMarkupC name = Inl NameError"

definition leafMarkupCProtect :: "string \<Rightarrow> string res" where
  "leafMarkupCProtect name =
     (case name of
        c # rest \<Rightarrow> if c = CHR ''!'' then Inr (''!defined('' @ rest @ '')'')
                   else Inr (''defined('' @ name @ '')'')
      | [] \<Rightarrow> Inr ''defined()'')"

definition opMarkupAsciidoc :: "string \<Rightarrow> string res" where
  "opMarkupAsciidoc op =
     (if op = ''+'' then Inr ''and'' else if op = '','' then Inr ''or'' else Inl KeyError)"

definition opMarkupC :: "string \<Rightarrow> string res" where
  "opMarkupC op =
     (if op = ''+'' then Inr ''&&'' else if op = '','' then Inr ''||'' else Inl KeyError)"

definition negated_name :: "string \<Rightarrow> bool" where
  "negated_name s = (case s of c # c' # _ \<Rightarrow> c = CHR ''!'' \<and> py_isalpha c' | _ \<Rightarrow> False)"

fun evalDependencyLanguage ::
  "nat \<Rightarrow> string list \<Rightarrow> (string \<Rightarrow> string res) \<Rightarrow> (string \<Rightarrow> string res) \<Rightarrow> bool \<Rightarrow> bool \<Rightarrow> string option
     \<Rightarrow> (string \<times> string list) res" where
  "evalDependencyLanguage 0 stack leafMarkup opMarkup parenthesize root parent_op = Inl RecursionError"
| "evalDependencyLanguage (Suc d) stack leafMarkup opMarkup parenthesize root parent_op =
     rbind (py_pop stack) (\<lambda>(op, stack).
       if is_op op then
         rbind (evalDependencyLanguage d stack leafMarkup opMarkup parenthesize False (Some op)) (\<lambda>(rhs, stack).
         rbind (opMarkup op) (\<lambda>opname.
         rbind (evalDependencyLanguage d stack leafMarkup opMarkup parenthesize False (Some op)) (\<lambda>(lhs, stack).
           if parenthesize \<and> \<not> root \<and> parent_op \<noteq> None \<and> parent_op \<noteq> Some op
           then Inr (''('' @ lhs @ '' '' @ opname @ '' '' @ rhs @ '')'', stack)
           else Inr (lhs @ '' '' @ opname @ '' '' @ rhs, stack))))
       else if starts_alpha op \<or> negated_name op then rbind (leafMarkup op) (\<lambda>s. Inr (s, stack))
       else Inl (PyException (''invalid op: '' @ op)))"

definition dependencyLanguage ::
  "(string \<Rightarrow> string list option) \<Rightarrow> nat \<Rightarrow> string \<Rightarrow> (string \<Rightarrow> string res) \<Rightarrow> (string \<Rightarrow> string res) \<Rightarrow> bool
     \<Rightarrow> string res" where
  "dependencyLanguage parse d dependency leafMarkup opMarkup parenthesize =
     (case parse dependency of
        None \<Rightarrow> Inl (ParseException dependency)
      | Some stack \<Rightarrow>
          rbind (evalDependencyLanguage d stack leafMarkup opMarkup parenthesize True None) (\<lambda>(s, _). Inr s))"

definition dependencyLanguageComment where
  "dependencyLanguageComment parse d dependency =
     dependencyLanguage parse d dependency markupPassthrough opMarkupAsciidoc True"

definition dependencyLanguageSpecMacros where
  "dependencyLanguageSpecMacros parse d dependency =
     dependencyLanguage parse d dependency leafMarkupAsciidoc opMarkupAsciidoc False"

definition dependencyLanguageC where
  "dependencyLanguageC parse d dependency =
     dependencyLanguage parse d dependency leafMarkupC opMarkupC True"

text \<open>\<open>parse\<close> is here the parser of \<^verbatim>\<open>protectBNF\<close>, whose names may carry a leading \<^verbatim>\<open>!\<close>.\<close>

definition protectLanguageC ::
  "(string \<Rightarrow> string list option) \<Rightarrow> nat \<Rightarrow> string \<Rightarrow> string res" where
  "protectLanguageC parse d protect =
     (case parse protect of
        None \<Rightarrow> Inl (ParseException protect)
      | Some stack \<Rightarrow>
          rbind (evalDependencyLanguage d stack leafMarkupCProtect opMarkupC True True None) (\<lambda>(s, _). Inr s))"

text \<open>
  The infix form that \<^verbatim>\<open>dependencyMarkup\<close> walks is a nested \<^verbatim>\<open>ParseResults\<close>; its parser is a
  parameter too.
\<close>

datatype parse_results = Tok string | Nested "parse_results list"

definition repeat_string :: "nat \<Rightarrow> string \<Rightarrow> string" where
  "repeat_string n s = concat (replicate n s)"

fun markupTraverse :: "parse_results list \<Rightarrow> nat \<Rightarrow> bool \<Rightarrow> string res"
  and markupElem :: "parse_results \<Rightarrow> nat \<Rightarrow> bool \<Rightarrow> string res" where
  "markupTraverse [] level root = Inr []"
| "markupTraverse (x # xs) level root =
     rbind (markupElem x level root) (\<lambda>s. rbind (markupTraverse xs level root) (\<lambda>t. Inr (s @ t)))"
| "markupElem (Nested es) level root = markupTraverse es (if root then level else level + 1) False"
| "markupElem (Tok t) level root =
     (let pre = (if level > 0 then repeat_string (level * 2) ''{nbsp}{nbsp}'' @ '' '' else [])
      in rbind (if t = ''+'' \<or> t = '','' then opMarkupAsciidoc t else leafMarkupAsciidoc t)
           (\<lambda>s. Inr (pre @ s @ '' +'' @ [CHR 0x0A])))"

definition dependencyMarkup :: "(string \<Rightarrow> parse_results list option) \<Rightarrow> string \<Rightarrow> string res" where
  "dependencyMarkup parse_infix dependency =
     (case parse_infix dependency of
        None \<Rightarrow> Inl (ParseException dependency)
      | Some parsed \<Rightarrow> markupTraverse parsed 0 True)"

section \<open>Expressions and their postfix form\<close>

datatype dep_op = Conj | Disj

datatype dep_expr = Leaf string | Bin dep_op dep_expr dep_expr

fun op_tok :: "dep_op \<Rightarrow> string" where
  "op_tok Conj = ''+''"
| "op_tok Disj = '',''"

fun op_sem :: "dep_op \<Rightarrow> bool \<Rightarrow> bool \<Rightarrow> bool" where
  "op_sem Conj a b = (a \<and> b)"
| "op_sem Disj a b = (a \<or> b)"

fun postfix :: "dep_expr \<Rightarrow> string list" where
  "postfix (Leaf n) = [n]"
| "postfix (Bin op l r) = postfix l @ postfix r @ [op_tok op]"

fun eval_expr :: "(string \<Rightarrow> bool) \<Rightarrow> dep_expr \<Rightarrow> bool" where
  "eval_expr env (Leaf n) = env n"
| "eval_expr env (Bin op l r) = op_sem op (eval_expr env l) (eval_expr env r)"

fun leaves :: "dep_expr \<Rightarrow> string set" where
  "leaves (Leaf n) = {n}"
| "leaves (Bin op l r) = leaves l \<union> leaves r"

fun depth :: "dep_expr \<Rightarrow> nat" where
  "depth (Leaf n) = 1"
| "depth (Bin op l r) = Suc (max (depth l) (depth r))"

definition all_leaves :: "(string \<Rightarrow> bool) \<Rightarrow> dep_expr \<Rightarrow> bool" where
  "all_leaves P e \<longleftrightarrow> (\<forall>n \<in> leaves e. P n)"

lemma all_leaves_simps [simp]:
  "all_leaves P (Leaf n) = P n"
  "all_leaves P (Bin op l r) \<longleftrightarrow> all_leaves P l \<and> all_leaves P r"
  by (auto simp: all_leaves_def)

lemma is_op_iff: "is_op op \<longleftrightarrow> op \<in> {[], ''+'', '','', ''+,''}"
  by (auto simp: is_op_def prefix_Cons)

lemma is_op_tok [simp]: "is_op (op_tok op)"
  by (cases op) (simp_all add: is_op_iff)

lemma starts_alpha_not_op: "starts_alpha n \<Longrightarrow> \<not> is_op n"
  by (auto simp: is_op_iff starts_alpha_def py_isalpha_def py_isupper_def py_islower_def)

lemma negated_not_op: "negated_name n \<Longrightarrow> \<not> is_op n"
  by (auto simp: is_op_iff negated_name_def)

section \<open>What the stack evaluators share\<close>

text \<open>
  A stack evaluator pops a name and turns it into a value, or pops an operator, evaluates the
  right operand, then the left one, and combines them. On the postfix form of an expression it
  then folds the expression and leaves the stack below it untouched, if the recursion depth
  covers the height of the expression.
\<close>

fun fold_expr :: "(string \<Rightarrow> 'v) \<Rightarrow> (dep_op \<Rightarrow> 'v \<Rightarrow> 'v \<Rightarrow> 'v) \<Rightarrow> dep_expr \<Rightarrow> 'v" where
  "fold_expr lf nd (Leaf n) = lf n"
| "fold_expr lf nd (Bin op l r) = nd op (fold_expr lf nd l) (fold_expr lf nd r)"

locale stack_evaluator =
  fixes run :: "nat \<Rightarrow> string list \<Rightarrow> ('v \<times> string list) res"
    and leaf_value :: "string \<Rightarrow> 'v"
    and node_value :: "dep_op \<Rightarrow> 'v \<Rightarrow> 'v \<Rightarrow> 'v"
  assumes run_out: "run 0 st = Inl RecursionError"
    and run_leaf: "starts_alpha n \<Longrightarrow> run (Suc d) (st @ [n]) = Inr (leaf_value n, st)"
    and run_node: "run (Suc d) (st @ [op_tok op]) =
      rbind (run d st) (\<lambda>(v2, st). rbind (run d st) (\<lambda>(v1, st). Inr (node_value op v1 v2, st)))"
begin

lemma run_postfix:
  "all_leaves starts_alpha e \<Longrightarrow> depth e \<le> d \<Longrightarrow>
     run d (st @ postfix e) = Inr (fold_expr leaf_value node_value e, st)"
proof (induction e arbitrary: d st)
  case (Leaf n)
  then obtain d' where "d = Suc d'" by (cases d) auto
  with Leaf show ?case by (simp add: run_leaf)
next
  case (Bin op l r)
  then obtain d' where d: "d = Suc d'" "depth l \<le> d'" "depth r \<le> d'" by (cases d) auto
  have "run d ((st @ postfix l @ postfix r) @ [op_tok op]) = Inr (fold_expr leaf_value node_value (Bin op l r), st)"
    unfolding d(1) run_node
    using Bin.IH(2) [of d' "st @ postfix l"] Bin.IH(1) [of d' st] Bin.prems d by simp
  then show ?case by simp
qed

lemma run_shallow: "d < depth e \<Longrightarrow> all_leaves starts_alpha e \<Longrightarrow> run d (st @ postfix e) = Inl RecursionError"
proof (induction e arbitrary: d st)
  case (Leaf n)
  then show ?case by (simp add: run_out)
next
  case (Bin op l r)
  show ?case
  proof (cases d)
    case 0
    then show ?thesis by (simp add: run_out)
  next
    case (Suc d')
    have "run (Suc d') ((st @ postfix l @ postfix r) @ [op_tok op]) = Inl RecursionError"
    proof (cases "d' < depth r")
      case True
      with Bin.IH(2) [of d' "st @ postfix l"] Bin.prems show ?thesis unfolding run_node by simp
    next
      case False
      with Bin.prems Suc have "d' < depth l" by auto
      with False Bin.IH(1) [of d' st] run_postfix [of r d' "st @ postfix l"] Bin.prems
      show ?thesis unfolding run_node by simp
    qed
    with Suc show ?thesis by simp
  qed
qed

end

lemma op_apply_tok [simp]: "op_apply (op_tok op) a b = Inr (op_sem op a b)"
  by (cases op) (auto simp: op_apply_def)

interpretation eval_stack: stack_evaluator "\<lambda>d st. evaluateStack d st env" env op_sem for env
  by unfold_locales (auto simp: starts_alpha_not_op)

interpretation names_stack: stack_evaluator evalDependencyNames "\<lambda>n. {n}" "\<lambda>_ l r. r \<union> l"
  by unfold_locales (auto simp: starts_alpha_not_op)

lemma fold_eval: "fold_expr env op_sem e = eval_expr env e"
  by (induction e) auto

lemma fold_names: "fold_expr (\<lambda>n. {n}) (\<lambda>_ l r. r \<union> l) e = leaves e"
  by (induction e) auto

section \<open>The printed forms\<close>

text \<open>
  How the two connectives and a leaf print: the same recursion over the expression, with the
  parentheses that the code adds where a connective sits directly under the other one.
\<close>

fun print_expr :: "(string \<Rightarrow> string) \<Rightarrow> (dep_op \<Rightarrow> string) \<Rightarrow> bool \<Rightarrow> dep_op option \<Rightarrow> dep_expr \<Rightarrow> string" where
  "print_expr lf nm paren par (Leaf n) = lf n"
| "print_expr lf nm paren par (Bin op l r) =
     (let s = print_expr lf nm paren (Some op) l @ '' '' @ nm op @ '' '' @ print_expr lf nm paren (Some op) r
      in if paren \<and> par \<noteq> None \<and> par \<noteq> Some op then ''('' @ s @ '')'' else s)"

definition printable :: "string \<Rightarrow> bool" where
  "printable n \<longleftrightarrow> starts_alpha n \<or> negated_name n"

lemma op_tok_inject [simp]: "op_tok a = op_tok b \<longleftrightarrow> a = b"
  by (cases a; cases b) simp_all

lemma language_node:
  "evalDependencyLanguage (Suc d) (st @ [op_tok op]) leaf opm paren root par =
     rbind (evalDependencyLanguage d st leaf opm paren False (Some (op_tok op))) (\<lambda>(rhs, st).
     rbind (opm (op_tok op)) (\<lambda>nm.
     rbind (evalDependencyLanguage d st leaf opm paren False (Some (op_tok op))) (\<lambda>(lhs, st).
       if paren \<and> \<not> root \<and> par \<noteq> None \<and> par \<noteq> Some (op_tok op)
       then Inr (''('' @ lhs @ '' '' @ nm @ '' '' @ rhs @ '')'', st)
       else Inr (lhs @ '' '' @ nm @ '' '' @ rhs, st))))"
  by simp

lemma language_postfix:
  assumes "\<And>n. n \<in> leaves e \<Longrightarrow> leaf n = Inr (lf n)" and "\<And>op. opm (op_tok op) = Inr (nm op)"
    and "all_leaves printable e" and "depth e \<le> d" and "root \<longleftrightarrow> par = None"
  shows "evalDependencyLanguage d (st @ postfix e) leaf opm paren root (map_option op_tok par) =
     Inr (print_expr lf nm paren par e, st)"
  using assms
proof (induction e arbitrary: d st par root)
  case (Leaf n)
  then obtain d' where "d = Suc d'" by (cases d) auto
  with Leaf show ?case
    by (auto simp: printable_def starts_alpha_not_op negated_not_op)
next
  case (Bin op l r)
  then obtain d' where d: "d = Suc d'" "depth l \<le> d'" "depth r \<le> d'" by (cases d) auto
  have r: "evalDependencyLanguage d' (st @ postfix l @ postfix r) leaf opm paren False (Some (op_tok op)) =
      Inr (print_expr lf nm paren (Some op) r, st @ postfix l)"
    using Bin.IH(2) [of d' False "Some op" "st @ postfix l"] Bin.prems d by simp
  have l: "evalDependencyLanguage d' (st @ postfix l) leaf opm paren False (Some (op_tok op)) =
      Inr (print_expr lf nm paren (Some op) l, st)"
    using Bin.IH(1) [of d' False "Some op" st] Bin.prems d by simp
  have "evalDependencyLanguage d ((st @ postfix l @ postfix r) @ [op_tok op]) leaf opm paren root
      (map_option op_tok par) = Inr (print_expr lf nm paren par (Bin op l r), st)"
    unfolding d(1) language_node using Bin.prems(2,5) by (cases par) (auto simp: r l Let_def)
  then show ?case by simp
qed

text \<open>
  The conditions of a C preprocessor line, with the value they have: \<open>!\<close>, \<^verbatim>\<open>defined\<close> and
  parentheses bind tightest, then \<^verbatim>\<open>&&\<close>, then \<^verbatim>\<open>||\<close>, both grouping to the left.
\<close>

datatype c_level = CPrim | CAnd | COr

inductive c_cond :: "(string \<Rightarrow> bool) \<Rightarrow> c_level \<Rightarrow> string \<Rightarrow> bool \<Rightarrow> bool" for macros where
  c_defined: "c_cond macros CPrim (''defined('' @ n @ '')'') (macros n)"
| c_not: "c_cond macros CPrim s v \<Longrightarrow> c_cond macros CPrim (''!'' @ s) (\<not> v)"
| c_paren: "c_cond macros COr s v \<Longrightarrow> c_cond macros CPrim (''('' @ s @ '')'') v"
| c_prim: "c_cond macros CPrim s v \<Longrightarrow> c_cond macros CAnd s v"
| c_and: "c_cond macros CAnd s v \<Longrightarrow> c_cond macros CPrim t w \<Longrightarrow>
    c_cond macros CAnd (s @ '' && '' @ t) (v \<and> w)"
| c_conj: "c_cond macros CAnd s v \<Longrightarrow> c_cond macros COr s v"
| c_or: "c_cond macros COr s v \<Longrightarrow> c_cond macros CAnd t w \<Longrightarrow>
    c_cond macros COr (s @ '' || '' @ t) (v \<or> w)"

lemma c_and_append:
  "c_cond m k t w \<Longrightarrow> k \<noteq> COr \<Longrightarrow> c_cond m CAnd s v \<Longrightarrow> c_cond m CAnd (s @ '' && '' @ t) (v \<and> w)"
proof (induction arbitrary: s v rule: c_cond.induct)
  case (c_and s' v' t' w')
  from c_and.IH(1) c_and.prems(2) have "c_cond m CAnd (s @ '' && '' @ s') (v \<and> v')" by simp
  from c_cond.c_and [OF this c_and.hyps(2)]
  have "c_cond m CAnd ((s @ '' && '' @ s') @ '' && '' @ t') ((v \<and> v') \<and> w')" .
  then show ?case by (simp add: conj_assoc)
next
  case (c_defined n)
  show ?case by (rule c_cond.c_and [OF c_defined.prems(2) c_cond.c_defined])
next
  case (c_not s' v')
  show ?case by (rule c_cond.c_and [OF c_not.prems(2) c_cond.c_not [OF c_not.hyps]])
next
  case (c_paren s' v')
  show ?case by (rule c_cond.c_and [OF c_paren.prems(2) c_cond.c_paren [OF c_paren.hyps]])
next
  case (c_prim s' v')
  show ?case by (rule c_cond.c_and [OF c_prim.prems(2) c_prim.hyps])
qed simp_all

lemma c_or_append:
  "c_cond m k t w \<Longrightarrow> c_cond m COr s v \<Longrightarrow> c_cond m COr (s @ '' || '' @ t) (v \<or> w)"
proof (induction arbitrary: s v rule: c_cond.induct)
  case (c_or s' v' t' w')
  from c_or.IH(1) c_or.prems have "c_cond m COr (s @ '' || '' @ s') (v \<or> v')" by simp
  from c_cond.c_or [OF this c_or.hyps(2)]
  have "c_cond m COr ((s @ '' || '' @ s') @ '' || '' @ t') ((v \<or> v') \<or> w')" .
  then show ?case by (simp add: disj_assoc)
next
  case (c_and s' v' t' w')
  then have "c_cond m CAnd (s' @ '' && '' @ t') (v' \<and> w')" by (intro c_cond.c_and)
  with c_and.prems show ?case by (intro c_cond.c_or)
next
  case (c_defined n)
  show ?case by (rule c_cond.c_or [OF c_defined.prems c_cond.c_prim [OF c_cond.c_defined]])
next
  case (c_not s' v')
  show ?case by (rule c_cond.c_or [OF c_not.prems c_cond.c_prim [OF c_cond.c_not [OF c_not.hyps]]])
next
  case (c_paren s' v')
  show ?case by (rule c_cond.c_or [OF c_paren.prems c_cond.c_prim [OF c_cond.c_paren [OF c_paren.hyps]]])
next
  case (c_prim s' v')
  show ?case by (rule c_cond.c_or [OF c_prim.prems c_cond.c_prim [OF c_prim.hyps]])
qed simp_all

text \<open>The value of a name of a protect expression: a leading \<^verbatim>\<open>!\<close> negates the macro.\<close>

definition protect_env :: "(string \<Rightarrow> bool) \<Rightarrow> string \<Rightarrow> bool" where
  "protect_env macros n = (case n of
     c # rest \<Rightarrow> if c = CHR ''!'' then \<not> macros rest else macros n | [] \<Rightarrow> macros n)"

definition protect_leaf :: "string \<Rightarrow> string" where
  "protect_leaf n = (case leafMarkupCProtect n of Inr s \<Rightarrow> s | Inl _ \<Rightarrow> [])"

fun c_name :: "dep_op \<Rightarrow> string" where
  "c_name Conj = ''&&''"
| "c_name Disj = ''||''"

fun op_level :: "dep_op \<Rightarrow> c_level" where
  "op_level Conj = CAnd"
| "op_level Disj = COr"

lemma leafMarkupCProtect_ok: "leafMarkupCProtect n = Inr (protect_leaf n)"
  by (cases n) (auto simp: leafMarkupCProtect_def protect_leaf_def)

lemma protect_leaf_cond: "n \<noteq> [] \<Longrightarrow> c_cond m CPrim (protect_leaf n) (protect_env m n)"
proof -
  assume "n \<noteq> []"
  then obtain c rest where n: "n = c # rest" by (cases n) auto
  show ?thesis
  proof (cases "c = CHR ''!''")
    case True
    have "c_cond m CPrim (''!'' @ ''defined('' @ rest @ '')'') (\<not> m rest)"
      by (intro c_cond.c_not c_cond.c_defined)
    with True n show ?thesis by (simp add: protect_leaf_def leafMarkupCProtect_def protect_env_def)
  next
    case False
    have "c_cond m CPrim (''defined('' @ n @ '')'') (m n)" by (rule c_cond.c_defined)
    with False n show ?thesis by (simp add: protect_leaf_def leafMarkupCProtect_def protect_env_def)
  qed
qed

lemma opMarkupC_tok: "opMarkupC (op_tok op) = Inr (c_name op)"
  by (cases op) (simp_all add: opMarkupC_def)

lemma c_cond_lift: "c_cond m CPrim s v \<Longrightarrow> c_cond m k s v"
  by (cases k) (auto intro: c_cond.c_prim c_cond.c_conj)

lemma print_cond:
  assumes "all_leaves (\<lambda>n. n \<noteq> []) e"
  shows "c_cond m (case par of None \<Rightarrow> COr | Some op \<Rightarrow> op_level op)
    (print_expr protect_leaf c_name True par e) (eval_expr (protect_env m) e)"
  using assms
proof (induction e arbitrary: par)
  case (Leaf n)
  then show ?case by (cases par) (auto intro: c_cond_lift protect_leaf_cond)
next
  case (Bin op l r)
  let ?s = "print_expr protect_leaf c_name True (Some op) l @ '' '' @ c_name op @ '' ''
    @ print_expr protect_leaf c_name True (Some op) r"
  have l: "c_cond m (op_level op) (print_expr protect_leaf c_name True (Some op) l) (eval_expr (protect_env m) l)"
    and r: "c_cond m (op_level op) (print_expr protect_leaf c_name True (Some op) r) (eval_expr (protect_env m) r)"
    using Bin.IH(1) [of "Some op"] Bin.IH(2) [of "Some op"] Bin.prems by simp_all
  have s: "c_cond m (op_level op) ?s (eval_expr (protect_env m) (Bin op l r))"
  proof (cases op)
    case Conj
    from c_and_append [OF r [unfolded Conj op_level.simps] _ l [unfolded Conj op_level.simps]]
    show ?thesis unfolding Conj by simp
  next
    case Disj
    from c_or_append [OF r [unfolded Disj op_level.simps] l [unfolded Disj op_level.simps]]
    show ?thesis unfolding Disj by simp
  qed
  then have top: "c_cond m COr ?s (eval_expr (protect_env m) (Bin op l r))"
    by (cases op) (simp_all only: op_level.simps c_cond.c_conj)
  have paren: "c_cond m k (''('' @ ?s @ '')'') (eval_expr (protect_env m) (Bin op l r))" for k
    by (rule c_cond_lift [OF c_cond.c_paren [OF top]])
  show ?case
  proof (cases par)
    case None
    with top show ?thesis by simp
  next
    case (Some op')
    with s paren show ?thesis by (cases "op' = op") (simp_all add: Let_def)
  qed
qed

lemma protectLanguageC_spec:
  assumes "parse protect = Some (postfix e)" and "all_leaves printable e" and "depth e \<le> d"
  shows "\<exists>s. protectLanguageC parse d protect = Inr s \<and>
    c_cond macros COr s (eval_expr (protect_env macros) e)"
proof -
  have ne: "all_leaves (\<lambda>n. n \<noteq> []) e"
    using assms(2) by (auto simp: all_leaves_def printable_def starts_alpha_def negated_name_def)
  have "protectLanguageC parse d protect = Inr (print_expr protect_leaf c_name True None e)"
    using language_postfix [of e leafMarkupCProtect protect_leaf opMarkupC c_name d True None "[]" True]
      assms by (simp add: protectLanguageC_def leafMarkupCProtect_ok opMarkupC_tok)
  with print_cond [OF ne, where par = None] show ?thesis by simp
qed

section \<open>Properties\<close>

text \<open>C8: a dependency string whose parse pushes the expression \<open>e\<close> evaluates to the Boolean
  value of \<open>e\<close>, \<^verbatim>\<open>+\<close> as conjunction and \<^verbatim>\<open>,\<close> as disjunction, exactly when the recursion
  depth reaches the height of \<open>e\<close>, and raises RecursionError otherwise.\<close>

theorem evaluateDependency_correct:
  assumes "parse dependency = Some (postfix e)" and "all_leaves starts_alpha e"
  shows "evaluateDependency parse d dependency env =
    (if depth e \<le> d then Inr (eval_expr env e) else Inl RecursionError)"
  using assms eval_stack.run_postfix [of e d "[]" env] eval_stack.run_shallow [of d e "[]" env]
  by (auto simp: evaluateDependency_def fold_eval not_le)

theorem evaluateDependency_correct_witness:
  "evaluateDependency (\<lambda>_. Some [''A'', ''B'', '','', ''C'', ''+'']) 3 ''A,B+C'' (\<lambda>n. n = ''A'')
     = Inr False"
  using evaluateDependency_correct [where parse = "\<lambda>_. Some [''A'', ''B'', '','', ''C'', ''+'']"
      and e = "Bin Conj (Bin Disj (Leaf ''A'') (Leaf ''B'')) (Leaf ''C'')" and d = 3
      and env = "\<lambda>n. n = ''A''" and dependency = "''A,B+C''"]
  by (simp add: starts_alpha_def py_isalpha_def py_isupper_def)

text \<open>The names of a dependency expression are exactly its leaves, and they are all that
  its value depends on.\<close>

theorem dependencyNames_correct:
  assumes "parse dependency = Some (postfix e)" and "all_leaves starts_alpha e" and "depth e \<le> d"
  shows "dependencyNames parse d dependency = Inr (leaves e) \<and>
    (\<forall>env env'. (\<forall>n \<in> leaves e. env n = env' n) \<longrightarrow>
       evaluateDependency parse d dependency env = evaluateDependency parse d dependency env')"
proof -
  have "eval_expr env e = eval_expr env' e" if "\<forall>n \<in> leaves e. env n = env' n" for env env'
    using that by (induction e) auto
  then show ?thesis
    using assms names_stack.run_postfix [of e d "[]"] eval_stack.run_postfix [of e d "[]"]
    by (auto simp: dependencyNames_def evaluateDependency_def fold_names fold_eval)
qed

theorem dependencyNames_correct_witness:
  "dependencyNames (\<lambda>_. Some [''A'', ''B'', ''+'']) 2 ''A+B'' = Inr {''A'', ''B''}"
  using dependencyNames_correct [where parse = "\<lambda>_. Some [''A'', ''B'', ''+'']"
      and e = "Bin Conj (Leaf ''A'') (Leaf ''B'')" and d = 2 and dependency = "''A+B''"]
  by (simp add: starts_alpha_def py_isalpha_def py_isupper_def insert_commute)



text \<open>C16: translating a dependency expression to C or to the specification macros never
  succeeds: whatever the expression, the markup of its last name raises.\<close>

theorem dependencyLanguageC_raises:
  assumes "parse dependency = Some (postfix e)" and "all_leaves starts_alpha e" and "depth e \<le> d"
  shows "dependencyLanguageC parse d dependency = Inl NameError \<and>
    dependencyLanguageSpecMacros parse d dependency = Inl AttributeError"
proof -
  have "evalDependencyLanguage d (st @ postfix e) leaf opm paren root par = Inl x"
    if "depth e \<le> d" "all_leaves starts_alpha e" "\<And>n. leaf n = Inl x"
    for d st leaf opm paren root par x
    using that
  proof (induction e arbitrary: d st root par)
    case (Leaf n)
    then show ?case by (cases d) (auto simp: starts_alpha_not_op)
  next
    case (Bin op l r)
    then obtain d' where d: "d = Suc d'" "depth r \<le> d'" by (cases d) auto
    have "evalDependencyLanguage d ((st @ postfix l @ postfix r) @ [op_tok op]) leaf opm paren root par = Inl x"
    proof -
      have "evalDependencyLanguage d' ((st @ postfix l) @ postfix r) leaf opm paren False (Some (op_tok op)) = Inl x"
        by (rule Bin.IH(2)) (use Bin.prems d in auto)
      then show ?thesis unfolding d(1) language_node by simp
    qed
    then show ?case by simp
  qed
  from this [where st = "[]"] show ?thesis
    using assms by (simp add: dependencyLanguageC_def dependencyLanguageSpecMacros_def
        dependencyLanguage_def leafMarkupC_def leafMarkupAsciidoc_def)
qed

theorem dependencyLanguageC_raises_witness:
  "dependencyLanguageC (\<lambda>_. Some [''VK_KHR_surface'']) 5 ''VK_KHR_surface'' = Inl NameError"
  using dependencyLanguageC_raises [where parse = "\<lambda>_. Some [''VK_KHR_surface'']"
      and e = "Leaf ''VK_KHR_surface''" and d = 5 and dependency = "''VK_KHR_surface''"]
  by (simp add: starts_alpha_def py_isalpha_def py_isupper_def)

end
