(* ===== verification/RegFeatures.thy ===== *)
theory RegFeatures
  imports RegMark Depends
begin

text \<open>
  What a selected feature or extension does to the registry: the methods \<^verbatim>\<open>getAlias\<close>,
  \<^verbatim>\<open>requireDependsSatisfied\<close>, \<^verbatim>\<open>fillFeatureDictionary\<close>, \<^verbatim>\<open>requireFeatures\<close>, \<^verbatim>\<open>deprecateFeatures\<close>,
  \<^verbatim>\<open>removeFeatures\<close>, \<^verbatim>\<open>assignAdditionalValidity\<close> and \<^verbatim>\<open>removeAdditionalValidity\<close> of
  \<^verbatim>\<open>src/tools/vkex/reg.py\<close>. \<open>parse\<close> is the pyparsing grammar of the dependency expressions and \<open>d\<close>
  the recursion limit, as in theory Depends.
\<close>

section \<open>Aliases\<close>

definition getAlias :: "addr \<Rightarrow> 'a base_info_scheme info_dict \<Rightarrow> registry \<Rightarrow> pname res" where
  "getAlias elem dict r =
     (case elem_get (doc r) elem ''alias'' of
        Some alias \<Rightarrow> Inr (Some alias)
      | None \<Rightarrow>
          let name = elem_get (doc r) elem ''name'' in
          (case reg_lookup r name dict of
             None \<Rightarrow> log_error [py_str name, ''is not a known name'']
           | Some typeinfo \<Rightarrow> Inr (elem_get (doc r) (i_elem typeinfo) ''alias'')))"

text \<open>The check is bypassed in the source; the branches of its callers for \<open>True\<close> are never taken.\<close>

definition checkForCorrectionAliases :: "pname \<Rightarrow> addr \<Rightarrow> string \<Rightarrow> bool" where
  "checkForCorrectionAliases alias require tag = False"

text \<open>
  \<^verbatim>\<open>while alias:\<close> follows aliases to the aliased type. More steps than there are types mean that the
  aliases form a cycle.
\<close>

fun resolve_alias :: "nat \<Rightarrow> registry \<Rightarrow> pname \<Rightarrow> type_info \<Rightarrow> type_info res" where
  "resolve_alias k r alias typeinfo =
     (if \<not> truthy alias then Inr typeinfo
      else case k of
        0 \<Rightarrow> Inl Diverges
      | Suc k \<Rightarrow>
          (case reg_lookup r alias (typedict r) of
             None \<Rightarrow> Inl (RuntimeError (''Missing alias '' @ py_str alias))
           | Some i \<Rightarrow> resolve_alias k r (elem_get (doc r) (i_elem i) ''alias'') i))"

declare resolve_alias.simps [simp del]

section \<open>Dependencies of a block\<close>

definition is_supported :: "registry \<Rightarrow> string \<Rightarrow> bool" where
  "is_supported r name =
     (if apiname (gen_opts r) = Some ''vulkansc'' \<and> name \<in> {''VK_VERSION_1_3'', ''VK_VERSION_1_4''} then False
      else map_of (genFeatures r) (Some name) \<noteq> None \<or>
           (case removedExtensionNames r of None \<Rightarrow> False | Some ns \<Rightarrow> Some name \<in> set ns))"

definition requireDependsSatisfied ::
  "(string \<Rightarrow> string list option) \<Rightarrow> nat \<Rightarrow> addr \<Rightarrow> registry \<Rightarrow> (bool \<times> registry) res" where
  "requireDependsSatisfied parse d require r =
     (case elem_get (doc r) require ''depends'' of
        None \<Rightarrow> Inr (True, r)
      | Some depends \<Rightarrow>
          if depends = [] \<or> strip depends = [] then Inr (True, r)
          else (case evaluateDependency parse d depends (is_supported r) of
                  Inr b \<Rightarrow> Inr (b, r)
                | Inl (ParseException e) \<Rightarrow>
                    Inr (False, warn [''requireDependsSatisfied: parse error'', e,
                       ''in depends='' @ [CHR 0x22], depends, [CHR 0x22]] r)
                | Inl e \<Rightarrow> Inl e))"

section \<open>The feature dictionary\<close>

definition feature_categories :: "string list" where
  "feature_categories = [''enumconstant'', ''command'', ''enum'', ''struct'', ''handle'', ''basetype'',
     ''include'', ''define'', ''bitmask'', ''union'', ''funcpointer'']"

text \<open>Appending a name under a block and the name it extends, and a command under a block.\<close>

definition append_name :: "pname \<Rightarrow> pname \<Rightarrow> feature_names option \<Rightarrow> feature_names res" where
  "append_name ext name names =
     (case names of
        None \<Rightarrow> Inr (NamesBy [(ext, [name])])
      | Some (NamesBy d) \<Rightarrow>
          Inr (NamesBy (AList.update ext ((case map_of d ext of None \<Rightarrow> [] | Some l \<Rightarrow> l) @ [name]) d))
      | Some (Names l) \<Rightarrow> Inl TypeError)"

definition append_command :: "pname \<Rightarrow> feature_names option \<Rightarrow> feature_names res" where
  "append_command name names =
     (case names of
        None \<Rightarrow> Inr (Names [name])
      | Some (Names l) \<Rightarrow> Inr (Names (l @ [name]))
      | Some (NamesBy d) \<Rightarrow> Inl AttributeError)"

definition fill ::
  "pname \<Rightarrow> pname \<Rightarrow> pname \<Rightarrow> (feature_names option \<Rightarrow> feature_names res) \<Rightarrow> registry \<Rightarrow> registry res" where
  "fill featurename typecat required_key add r =
     (case map_of (featureDictionary r) featurename of
        None \<Rightarrow> Inl KeyError
      | Some entry \<Rightarrow>
          (case map_of entry typecat of
             None \<Rightarrow> Inl KeyError
           | Some blocks \<Rightarrow>
               rbind (add (map_of blocks required_key)) (\<lambda>names.
               Inr (r\<lparr>featureDictionary := AList.update featurename
                        (AList.update typecat (AList.update required_key names blocks) entry)
                        (featureDictionary r)\<rparr>))))"

definition fill_type :: "pname \<Rightarrow> pname \<Rightarrow> addr \<Rightarrow> registry \<Rightarrow> registry res" where
  "fill_type featurename required_key typeElem r =
     (let typename = elem_get (doc r) typeElem ''name'' in
      case reg_lookup r typename (typedict r) of
        None \<Rightarrow> Inr r
      | Some typeinfo \<Rightarrow>
          rbind (getAlias typeElem (typedict r) r) (\<lambda>alias.
          rbind (resolve_alias (length (typedict r)) r alias typeinfo) (\<lambda>typeinfo.
          fill featurename (elem_get (doc r) (i_elem typeinfo) ''category'') required_key
            (append_name (elem_get (doc r) (i_elem typeinfo) ''structextends'') typename) r)))"

definition fill_enum :: "pname \<Rightarrow> pname \<Rightarrow> addr \<Rightarrow> registry \<Rightarrow> registry res" where
  "fill_enum featurename required_key enumElem r =
     rbind (getAlias enumElem (enumdict r) r) (\<lambda>alias.
     fill featurename (Some ''enumconstant'') required_key
       (append_name (elem_get (doc r) enumElem ''extends'') (elem_get (doc r) enumElem ''name'')) r)"

definition fill_command :: "pname \<Rightarrow> pname \<Rightarrow> addr \<Rightarrow> registry \<Rightarrow> registry res" where
  "fill_command featurename required_key cmdElem r =
     rbind (getAlias cmdElem (cmddict r) r) (\<lambda>alias.
     fill featurename (Some ''command'') required_key
       (append_command (elem_get (doc r) cmdElem ''name'')) r)"

definition fill_block :: "pname \<Rightarrow> addr \<Rightarrow> registry \<Rightarrow> registry res" where
  "fill_block featurename require r =
     (let required_key = elem_get (doc r) require ''depends'' in
      rbind (for_each (fill_type featurename required_key) (findall (doc r) require ''type'') r) (\<lambda>r.
      rbind (for_each (fill_enum featurename required_key) (findall (doc r) require ''enum'') r) (\<lambda>r.
      for_each (fill_command featurename required_key) (findall (doc r) require ''command'') r)))"

definition fillFeatureDictionary ::
  "(string \<Rightarrow> string list option) \<Rightarrow> nat \<Rightarrow> addr \<Rightarrow> pname \<Rightarrow> string option \<Rightarrow> string option
     \<Rightarrow> registry \<Rightarrow> registry res" where
  "fillFeatureDictionary parse d interface featurename api prof r =
     for_each (\<lambda>require r.
       rbind (matchAPIProfile api prof (doc r) require) (\<lambda>m.
       if \<not> m then Inr r
       else rbind (requireDependsSatisfied parse d require r) (\<lambda>(sat, r).
            if sat then fill_block featurename require r else Inr r)))
       (findall (doc r) interface ''require'')
       (r\<lparr>featureDictionary := AList.update featurename
            (map (\<lambda>c. (Some c, [])) feature_categories) (featureDictionary r)\<rparr>)"

section \<open>Requiring and removing\<close>

definition requireFeatures ::
  "(string \<Rightarrow> string list option) \<Rightarrow> nat \<Rightarrow> addr \<Rightarrow> pname \<Rightarrow> string option \<Rightarrow> string option
     \<Rightarrow> registry \<Rightarrow> registry res" where
  "requireFeatures parse d interface featurename api prof r =
     for_each (\<lambda>feature r.
       rbind (matchAPIProfile api prof (doc r) feature) (\<lambda>m.
       if \<not> m then Inr r
       else rbind (requireDependsSatisfied parse d feature r) (\<lambda>(sat, r).
            if sat then markRequired d featurename feature True r else Inr r)))
       (findall (doc r) interface ''require'') r"

definition removeFeatures ::
  "nat \<Rightarrow> addr \<Rightarrow> pname \<Rightarrow> string option \<Rightarrow> string option \<Rightarrow> registry \<Rightarrow> registry res" where
  "removeFeatures d interface featurename api prof r =
     for_each (\<lambda>feature r.
       rbind (matchAPIProfile api prof (doc r) feature) (\<lambda>m.
       if m then markRequired d featurename feature False r else Inr r))
       (findall (doc r) interface ''remove'') r"

section \<open>Deprecation\<close>

text \<open>\<^verbatim>\<open>API_VERSION_NAME_RE.match(name)\<close>: capital letters, \<^verbatim>\<open>_VERSION_\<close> and a digit.\<close>

definition is_api_version_name :: "string \<Rightarrow> bool" where
  "is_api_version_name name =
     (let caps = takeWhile py_isupper name; rest = drop (length caps) name in
      caps \<noteq> [] \<and> prefix ''_VERSION_'' rest \<and>
      (case drop 9 rest of [] \<Rightarrow> False | c # _ \<Rightarrow> py_isdigit c))"

definition conflict :: "pname \<Rightarrow> pname \<Rightarrow> bool" where
  "conflict old new \<longleftrightarrow> truthy old \<and> old \<noteq> new"

definition deprecate_info ::
  "pname \<Rightarrow> bool \<Rightarrow> pname \<Rightarrow> pname \<Rightarrow> 'a base_info_scheme \<Rightarrow> 'a base_info_scheme" where
  "deprecate_info supersededby versionmatch featurename link i =
     (let i = i\<lparr>i_supersededby := supersededby\<rparr>;
          i = (if versionmatch then i\<lparr>i_deprecatedbyversion := featurename\<rparr>
               else i\<lparr>i_deprecatedbyextensions := i_deprecatedbyextensions i @ [featurename]\<rparr>)
      in i\<lparr>i_deprecatedlink := link\<rparr>)"

definition not_present :: "pname \<Rightarrow> 'a res" where
  "not_present name = log_error [py_str name, '' is tagged for deprecation but not present in registry'']"

definition deprecated_twice :: "pname \<Rightarrow> pname \<Rightarrow> string list \<Rightarrow> pname \<Rightarrow> 'a res" where
  "deprecated_twice name new sep old =
     log_error ([py_str name, '' is tagged for deprecation twice but with different '' @ [CHR 0x22]
       @ ''supersededby'' @ [CHR 0x22] @ '' attributes: '', py_str new] @ sep @ [py_str old])"

definition deprecate_type :: "bool \<Rightarrow> pname \<Rightarrow> pname \<Rightarrow> addr \<Rightarrow> registry \<Rightarrow> registry res" where
  "deprecate_type versionmatch featurename link typeElem r =
     (let name = elem_get (doc r) typeElem ''name''; new = elem_get (doc r) typeElem ''supersededby'' in
      case reg_lookup r name (groupdict r) of
        Some g \<Rightarrow>
          if conflict (i_supersededby g) new then deprecated_twice name new [] (i_supersededby g)
          else Inr (r\<lparr>groupdict := adjustInfo (api_name r) name
                      (deprecate_info new versionmatch featurename link) (groupdict r)\<rparr>)
      | None \<Rightarrow>
          (case reg_lookup r name (typedict r) of
             Some t \<Rightarrow>
               if conflict (i_supersededby t) new then deprecated_twice name new [] (i_supersededby t)
               else Inr (r\<lparr>typedict := adjustInfo (api_name r) name
                           (deprecate_info new versionmatch featurename link) (typedict r)\<rparr>)
           | None \<Rightarrow> not_present name))"

definition deprecate_enum :: "bool \<Rightarrow> pname \<Rightarrow> pname \<Rightarrow> addr \<Rightarrow> registry \<Rightarrow> registry res" where
  "deprecate_enum versionmatch featurename link enumElem r =
     (let name = elem_get (doc r) enumElem ''name''; new = elem_get (doc r) enumElem ''supersededby'' in
      case reg_lookup r name (enumdict r) of
        Some i \<Rightarrow>
          if conflict (i_supersededby i) new then deprecated_twice name new ['' and ''] (i_supersededby i)
          else Inr (r\<lparr>enumdict := adjustInfo (api_name r) name
                      (deprecate_info new versionmatch featurename link) (enumdict r)\<rparr>)
      | None \<Rightarrow> not_present name)"

text \<open>
  For a command the attribute is written before it is compared, so the comparison is with the
  new value itself.
\<close>

definition deprecate_command :: "bool \<Rightarrow> pname \<Rightarrow> pname \<Rightarrow> addr \<Rightarrow> registry \<Rightarrow> registry res" where
  "deprecate_command versionmatch featurename link cmdElem r =
     (let name = elem_get (doc r) cmdElem ''name''; new = elem_get (doc r) cmdElem ''supersededby'' in
      case reg_lookup r name (cmddict r) of
        Some cmd \<Rightarrow>
          let cmd = cmd\<lparr>i_supersededby := new\<rparr> in
          if conflict (i_supersededby cmd) new then deprecated_twice name new ['' and ''] (i_supersededby cmd)
          else Inr (r\<lparr>cmddict := adjustInfo (api_name r) name
                      (deprecate_info new versionmatch featurename link) (cmddict r)\<rparr>)
      | None \<Rightarrow> not_present name)"

definition deprecateFeatures ::
  "addr \<Rightarrow> pname \<Rightarrow> string option \<Rightarrow> string option \<Rightarrow> registry \<Rightarrow> registry res" where
  "deprecateFeatures interface featurename api prof r =
     (case featurename of
        None \<Rightarrow> Inl TypeError
      | Some fname \<Rightarrow>
          let versionmatch = is_api_version_name fname in
          for_each (\<lambda>deprecation r.
            rbind (matchAPIProfile api prof (doc r) deprecation) (\<lambda>m.
            if \<not> m then Inr r
            else
              let link = elem_get (doc r) deprecation ''explanationlink'' in
              rbind (for_each (deprecate_type versionmatch featurename link)
                       (findall (doc r) deprecation ''type'') r) (\<lambda>r.
              rbind (for_each (deprecate_enum versionmatch featurename link)
                       (findall (doc r) deprecation ''enum'') r) (\<lambda>r.
              for_each (deprecate_command versionmatch featurename link)
                (findall (doc r) deprecation ''command'') r))))
            (findall (doc r) interface ''deprecate'') r)"

section \<open>Validity statements\<close>

text \<open>A copy of a usage statement is added to the command and to the structure that it names.\<close>

definition add_validity ::
  "(addr \<Rightarrow> type_info \<Rightarrow> type_info) \<Rightarrow> string \<Rightarrow> (registry \<Rightarrow> type_info info_dict)
     \<Rightarrow> ((type_info info_dict \<Rightarrow> type_info info_dict) \<Rightarrow> registry \<Rightarrow> registry)
     \<Rightarrow> addr \<Rightarrow> registry \<Rightarrow> registry res" where
  "add_validity add key sel upd v r =
     (let name = elem_get (doc r) v key in
      if \<not> truthy name then Inr r
      else if map_of (sel r) (Name name) = None then Inl KeyError
      else let (c, st) = deepcopy (doc r) v in
           Inr (upd (dict_adjust (Name name) (add c)) (r\<lparr>doc := st\<rparr>)))"

definition add_additional :: "addr \<Rightarrow> type_info \<Rightarrow> type_info" where
  "add_additional c i = i\<lparr>additionalValidity := additionalValidity i @ [c]\<rparr>"

definition add_removed :: "addr \<Rightarrow> type_info \<Rightarrow> type_info" where
  "add_removed c i = i\<lparr>removedValidity := removedValidity i @ [c]\<rparr>"

definition usage_block ::
  "(addr \<Rightarrow> type_info \<Rightarrow> type_info) \<Rightarrow> string option \<Rightarrow> string option \<Rightarrow> addr \<Rightarrow> registry \<Rightarrow> registry res" where
  "usage_block add api prof feature r =
     rbind (matchAPIProfile api prof (doc r) feature) (\<lambda>m.
     if \<not> m then Inr r
     else for_each (\<lambda>v r.
            rbind (add_validity add ''command'' cmddict cmddict_update v r) (\<lambda>r.
            add_validity add ''struct'' typedict typedict_update v r))
            (findall (doc r) feature ''usage'') r)"

definition assignAdditionalValidity ::
  "addr \<Rightarrow> string option \<Rightarrow> string option \<Rightarrow> registry \<Rightarrow> registry res" where
  "assignAdditionalValidity interface api prof r =
     for_each (usage_block add_additional api prof) (findall (doc r) interface ''require'') r"

definition removeAdditionalValidity ::
  "addr \<Rightarrow> string option \<Rightarrow> string option \<Rightarrow> registry \<Rightarrow> registry res" where
  "removeAdditionalValidity interface api prof r =
     for_each (usage_block add_removed api prof) (findall (doc r) interface ''remove'') r"

section \<open>What the blocks of a feature require\<close>

definition block_items :: "registry \<Rightarrow> addr \<Rightarrow> item list" where
  "block_items r e =
     map (\<lambda>x. TypeItem (elem_get (doc r) x ''name'')) (findall (doc r) e ''type'') @
     map (\<lambda>x. EnumItem (elem_get (doc r) x ''name'')) (findall (doc r) e ''enum'') @
     map (\<lambda>x. CmdItem (elem_get (doc r) x ''name'')) (findall (doc r) e ''command'')"

text \<open>The block applies to the API and the profile, and what it depends on is there.\<close>

definition selected ::
  "(string \<Rightarrow> string list option) \<Rightarrow> nat \<Rightarrow> string option \<Rightarrow> string option \<Rightarrow> registry \<Rightarrow> addr \<Rightarrow> bool" where
  "selected parse d api prof r e \<longleftrightarrow>
     matchAPIProfile api prof (doc r) e = Inr True \<and> (\<exists>s. requireDependsSatisfied parse d e r = Inr (True, s))"

lemma is_supported_shape: "shape r s \<Longrightarrow> is_supported s = is_supported r"
  by (rule ext) (simp only: is_supported_def shape_def)

lemma requireDepends_state: "requireDependsSatisfied parse d e r = Inr (b, s) \<Longrightarrow> s = r \<or> (\<exists>w. s = warn w r)"
  by (auto simp: requireDependsSatisfied_def split: option.splits if_splits sum.splits py_error.splits)

lemma requireDepends_shape:
  assumes "shape r s"
  shows "(\<exists>t. requireDependsSatisfied parse d e s = Inr (True, t)) \<longleftrightarrow>
    (\<exists>t. requireDependsSatisfied parse d e r = Inr (True, t))"
  using shape_doc [OF assms]
  by (auto simp: requireDependsSatisfied_def is_supported_shape [OF assms]
      split: option.splits if_splits sum.splits py_error.splits)

lemma selected_shape: "shape r s \<Longrightarrow> selected parse d api prof s e = selected parse d api prof r e"
  by (simp add: selected_def requireDepends_shape shape_doc)

lemma block_items_shape: "shape r s \<Longrightarrow> block_items s e = block_items r e"
  by (simp add: block_items_def shape_doc)

text \<open>Loops of steps that each mark a set of items.\<close>

lemma marks_loop:
  assumes "for_each f xs r = Inr r'"
    and "\<And>x s s'. x \<in> set xs \<Longrightarrow> shape r s \<Longrightarrow> f x s = Inr s' \<Longrightarrow> marks s (G x) s'"
  shows "marks r (\<Union>x \<in> set xs. G x) r'"
  using assms
proof (induction xs arbitrary: r)
  case Nil
  then show ?case by (simp add: marks_refl)
next
  case (Cons x xs)
  from Cons.prems(1) obtain s where s: "f x r = Inr s" "for_each f xs s = Inr r'" by (auto simp: res_simps)
  have 1: "marks r (G x) s" using Cons.prems(2) [OF _ shape_frame.rel_refl s(1)] by simp
  then have sh: "shape r s" by (simp add: marks_def)
  have "marks s (\<Union>x \<in> set xs. G x) r'"
    by (rule Cons.IH [OF s(2)]) (use Cons.prems(2) shape_frame.rel_trans [OF sh] in auto)
  from marks_trans [OF 1 this] show ?case by simp
qed

lemma behaves_marks: "behaves r m S P \<Longrightarrow> m = Inr r' \<Longrightarrow> marks r S r'"
  by (simp add: behaves_def)

lemma mark_names:
  assumes "for_each (\<lambda>e r. mk (elem_get (doc r) e ''name'') r) es r = Inr r'"
    and "\<And>n s s'. mk n s = Inr s' \<Longrightarrow> marks s (reach s (c n)) s'" and "shape r0 r"
  shows "marks r (deps_reach r0 (map (\<lambda>x. c (elem_get (doc r0) x ''name'')) es)) r'"
proof -
  have "marks r (\<Union>e \<in> set es. reach r0 (c (elem_get (doc r0) e ''name''))) r'"
    using assms(1)
  proof (rule marks_loop)
    fix e s s' assume "shape r s" and m: "mk (elem_get (doc s) e ''name'') s = Inr s'"
    with assms(3) have sh: "shape r0 s" by (blast intro: shape_frame.rel_trans)
    with assms(2) [OF m] show "marks s (reach r0 (c (elem_get (doc r0) e ''name''))) s'"
      by (simp add: shape_same shape_doc)
  qed
  then show ?thesis by (simp add: deps_reach_def)
qed

lemma marks_extend: "marks r {} (markExtend f e r)"
proof -
  have "item_elem (markExtend f e r) x = item_elem r x" "item_required (markExtend f e r) x = item_required r x" for x
    by (cases x; simp add: markExtend_def Let_def reg_lookup_def api_name_def warn_def split: option.splits)+
  moreover have "doc (markExtend f e r) = doc r" "gen_opts (markExtend f e r) = gen_opts r"
    "reg (markExtend f e r) = reg r" "genFeatures (markExtend f e r) = genFeatures r"
    "removedExtensionNames (markExtend f e r) = removedExtensionNames r"
    by (simp_all add: markExtend_def Let_def warn_def split: option.splits)
  ultimately show ?thesis by (auto simp: marks_def shape_def)
qed

lemma markRequired_marks:
  assumes "markRequired d f e True r = Inr r'"
  shows "marks r (deps_reach r (block_items r e)) r'"
proof -
  from assms obtain r1 r2 r3 where
    1: "for_each (\<lambda>e r. markTypeRequired d (elem_get (doc r) e ''name'') True r) (findall (doc r) e ''type'') r = Inr r1" and
    2: "for_each (\<lambda>e r. markEnumRequired d (elem_get (doc r) e ''name'') True r) (findall (doc r1) e ''enum'') r1 = Inr r2" and
    3: "for_each (\<lambda>e r. markCmdRequired d (elem_get (doc r) e ''name'') True r) (findall (doc r2) e ''command'') r2 = Inr r3"
    and r': "r' = fold (markExtend f) (findall (doc r3) e ''extend'') r3"
    unfolding markRequired_def by (elim rbind_InrE) simp
  note m1 = mark_names [where c = TypeItem, OF 1 behaves_marks [OF markType_behaves] shape_frame.rel_refl]
  then have s1: "shape r r1" by (simp add: marks_def)
  note m2 = mark_names [where c = EnumItem, OF 2 behaves_marks [OF markEnum_behaves] s1]
  then have s2: "shape r r2" using s1 by (auto simp: marks_def intro: shape_frame.rel_trans)
  note m3 = mark_names [where c = CmdItem, OF 3 behaves_marks [OF markCmd_behaves] s2]
  have ext: "marks s {} (fold (markExtend f) es s)" for es s
    using marks_loop [of "\<lambda>x s. Inr (markExtend f x s)" es s "fold (markExtend f) es s" "\<lambda>_. {}"]
    by (auto simp: for_each_pure intro: marks_extend)
  from marks_trans [OF m1 marks_trans [OF m2 marks_trans [OF m3 ext]]] r'
  show ?thesis by (simp add: block_items_def shape_doc [OF s1] shape_doc [OF s2] Un_assoc)
qed

text \<open>C3: when \<^verbatim>\<open>requireFeatures\<close> returns, the required items are those required before and the
  defined items that are reachable from a name in one of its selected \<^verbatim>\<open><require>\<close> blocks: the
  blocks that match the API and the profile and whose dependency expression is satisfied.
\<close>

theorem requireFeatures_marks:
  "requireFeatures parse d interface featurename api prof r = Inr r' \<Longrightarrow>
     doc r' = doc r \<and>
     (\<forall>y. item_required r' y \<longleftrightarrow> item_required r y \<or>
        item_elem r y \<noteq> None \<and>
        (\<exists>e \<in> set (findall (doc r) interface ''require''). selected parse d api prof r e \<and>
           (\<exists>x \<in> set (block_items r e). (depends_on r)\<^sup>*\<^sup>* x y)))"
proof -
  assume "requireFeatures parse d interface featurename api prof r = Inr r'"
  then have loop: "for_each (\<lambda>e r. rbind (matchAPIProfile api prof (doc r) e) (\<lambda>m.
      if \<not> m then Inr r else rbind (requireDependsSatisfied parse d e r) (\<lambda>(sat, r).
        if sat then markRequired d featurename e True r else Inr r)))
      (findall (doc r) interface ''require'') r = Inr r'" (is "for_each ?f _ _ = _")
    by (simp only: requireFeatures_def)
  let ?G = "\<lambda>e. if selected parse d api prof r e then deps_reach r (block_items r e) else {}"
  have "marks r (\<Union>e \<in> set (findall (doc r) interface ''require''). ?G e) r'"
    using loop
  proof (rule marks_loop)
    fix e s s' assume sh: "shape r s" and f: "?f e s = Inr s'"
    then obtain m where m: "matchAPIProfile api prof (doc s) e = Inr m" by (auto elim: rbind_InrE)
    show "marks s (?G e) s'"
    proof (cases m)
      case False
      with f m have "s' = s" by simp
      with m False sh show ?thesis by (simp add: selected_def shape_doc marks_refl)
    next
      case True
      with f m obtain sat t where sat: "requireDependsSatisfied parse d e s = Inr (sat, t)"
        and s': "(if sat then markRequired d featurename e True t else Inr t) = Inr s'"
        by (auto elim!: rbind_InrE)
      from requireDepends_state [OF sat] have t: "marks s {} t" by (auto simp: marks_refl marks_def shape_def)
      then have "shape s t" by (simp add: marks_def)
      with sh have sht: "shape r t" by (rule shape_frame.rel_trans)
      have sel: "selected parse d api prof r e \<longleftrightarrow> sat"
        using m True sat selected_shape [OF sh, of parse d api prof e] by (auto simp: selected_def)
      show ?thesis
      proof (cases sat)
        case True
        with s' have "marks t (deps_reach t (block_items t e)) s'" by (auto intro: markRequired_marks)
        then have "marks t (deps_reach r (block_items r e)) s'"
          by (simp add: block_items_shape [OF sht] shape_deps_all [OF sht])
        from marks_trans [OF t this] show ?thesis using sel True by simp
      qed (use s' t sel in simp)
    qed
  qed
  then show ?thesis by (auto simp: marks_def shape_def deps_reach_def reach_def split: if_splits)
qed

definition feature_example :: registry where
  "feature_example = mark_example\<lparr>
     doc := doc mark_example @ [
       \<lparr>etag = ''feature'', eattrib = [(''name'', ''V'')], etext = None, etail = None, echildren = [7]\<rparr>,
       \<lparr>etag = ''require'', eattrib = [], etext = None, etail = None, echildren = [8]\<rparr>,
       type_node ''A'' [] []]\<rparr>"

theorem requireFeatures_marks_witness:
  "\<exists>r'. requireFeatures (\<lambda>_. None) 5 6 (Some ''V'') (Some ''vulkan'') None feature_example = Inr r' \<and>
     item_required r' (TypeItem (Some ''C''))"
proof -
  let ?r = feature_example and ?t = "\<lambda>s. TypeItem (Some s)"
  let ?m = "requireFeatures (\<lambda>_. None) 5 6 (Some ''V'') (Some ''vulkan'') None ?r"
  have "\<not> isl ?m" by code_simp
  then obtain r' where r': "?m = Inr r'" by (cases ?m) auto
  have blocks: "findall (doc ?r) 6 ''require'' = [7]" "block_items ?r 7 = [?t ''A'']" by code_simp+
  have deps: "item_deps ?r (?t ''A'') = [?t ''B'']" "item_deps ?r (?t ''B'') = [?t ''C'']"
    "item_elem ?r (?t ''C'') \<noteq> None" by code_simp+
  have api: "matchAPIProfile (Some ''vulkan'') None (doc ?r) 7 = Inr True" "elem_get (doc ?r) 7 ''depends'' = None"
    by code_simp+
  then have "selected (\<lambda>_. None) 5 (Some ''vulkan'') None ?r 7" by (simp add: selected_def requireDependsSatisfied_def)
  moreover have "(depends_on ?r)\<^sup>*\<^sup>* (?t ''A'') (?t ''C'')"
    using deps by (intro converse_rtranclp_into_rtranclp [of _ "?t ''A''" "?t ''B''"] r_into_rtranclp)
      (simp_all add: depends_on_def)
  ultimately show ?thesis using requireFeatures_marks [OF r'] r' blocks deps(3) by fastforce
qed

section \<open>Conflicting deprecations\<close>


definition deprecation_example :: registry where
  "deprecation_example = (Registry None)\<lparr>
     doc := [type_node ''T'' [(''supersededby'', ''U'')] [], type_node ''f'' [(''supersededby'', ''h'')] []],
     typedict := [(Name (Some ''T''), (TypeInfo 0)\<lparr>i_supersededby := Some ''V''\<rparr>)],
     cmddict := [(Name (Some ''f''), (CmdInfo 1)\<lparr>i_supersededby := Some ''g''\<rparr>)]\<rparr>"


section \<open>The passes keep the registry well formed\<close>

lemma fill_step: "fill f c k add r = Inr r' \<Longrightarrow> reg_step r r'"
  by (auto simp: fill_def reg_step_def reg_ok_def split: option.splits elim!: rbind_InrE)

lemma fill_block_step: "fill_block f e r = Inr r' \<Longrightarrow> reg_step r r'"
proof -
  have t: "fill_type f k x s = Inr s' \<Longrightarrow> reg_step s s'" for k x s s'
    by (auto simp: fill_type_def Let_def reg_frame.rel_refl split: option.splits elim!: rbind_InrE intro: fill_step)
  have e: "fill_enum f k x s = Inr s' \<Longrightarrow> reg_step s s'" and c: "fill_command f k x s = Inr s' \<Longrightarrow> reg_step s s'"
    for k x s s' by (auto simp: fill_enum_def fill_command_def elim!: rbind_InrE intro: fill_step)
  assume "fill_block f e r = Inr r'"
  then show ?thesis
    unfolding fill_block_def Let_def
    by (elim rbind_InrE) (blast intro: t e c reg_frame.for_each_rel reg_frame.rel_trans)
qed

lemma requireDepends_step: "requireDependsSatisfied parse d e r = Inr (b, s) \<Longrightarrow> reg_step r s"
  using requireDepends_state by (fastforce simp: reg_frame.rel_refl)

lemma fillFeatureDictionary_step:
  "fillFeatureDictionary parse d i f api prof r = Inr r' \<Longrightarrow> reg_step r r'"
proof -
  assume "fillFeatureDictionary parse d i f api prof r = Inr r'"
  then have "reg_step (r\<lparr>featureDictionary := AList.update f (map (\<lambda>c. (Some c, [])) feature_categories) (featureDictionary r)\<rparr>) r'"
    unfolding fillFeatureDictionary_def
    by (rule reg_frame.for_each_rel)
      (auto simp: reg_frame.rel_refl split: if_splits elim!: rbind_InrE
        dest!: requireDepends_step fill_block_step, blast intro: reg_frame.rel_trans)
  then show ?thesis by (simp add: reg_step_def reg_ok_def)
qed

lemma requireFeatures_step: "requireFeatures parse d i f api prof r = Inr r' \<Longrightarrow> reg_step r r'"
  unfolding requireFeatures_def
  by (erule reg_frame.for_each_rel)
    (auto simp: reg_frame.rel_refl split: if_splits elim!: rbind_InrE
      dest!: requireDepends_step markRequired_step, blast intro: reg_frame.rel_trans)

lemma removeFeatures_step: "removeFeatures d i f api prof r = Inr r' \<Longrightarrow> reg_step r r'"
  unfolding removeFeatures_def
  by (erule reg_frame.for_each_rel)
    (auto simp: reg_frame.rel_refl split: if_splits elim!: rbind_InrE intro: markRequired_step)

lemma i_elem_deprecate [simp]: "i_elem (deprecate_info s v f l i) = i_elem i"
  by (simp add: deprecate_info_def Let_def)

lemma deprecate_steps:
  "deprecate_type v f l e r = Inr r' \<Longrightarrow> reg_step r r'"
  "deprecate_enum v f l e r = Inr r' \<Longrightarrow> reg_step r r'"
  "deprecate_command v f l e r = Inr r' \<Longrightarrow> reg_step r r'"
  by (auto simp: deprecate_type_def deprecate_enum_def deprecate_command_def deprecated_twice_def not_present_def
      log_error_def Let_def split: option.splits if_splits intro!: reg_step_adjust)

lemma deprecateFeatures_step: "deprecateFeatures i f api prof r = Inr r' \<Longrightarrow> reg_step r r'"
proof -
  have loops: "reg_step s s'" if "rbind (for_each (deprecate_type v n l) ts s) (\<lambda>r.
      rbind (for_each (deprecate_enum v n l) (findall (doc r) x ''enum'') r) (\<lambda>r.
      for_each (deprecate_command v n l) (findall (doc r) x ''command'') r)) = Inr s'" for v n l ts x s s'
    using that by (elim rbind_InrE) (blast intro: deprecate_steps reg_frame.for_each_rel reg_frame.rel_trans)
  assume d: "deprecateFeatures i f api prof r = Inr r'"
  then obtain n where n: "f = Some n" by (cases f) (simp_all add: deprecateFeatures_def)
  from d [unfolded n deprecateFeatures_def option.case Let_def] show ?thesis
  proof (rule reg_frame.for_each_rel)
    fix x s s'
    assume s: "rbind (matchAPIProfile api prof (doc s) x) (\<lambda>m. if \<not> m then Inr s
        else rbind (for_each (deprecate_type (is_api_version_name n) (Some n) (elem_get (doc s) x ''explanationlink''))
               (findall (doc s) x ''type'') s) (\<lambda>r.
             rbind (for_each (deprecate_enum (is_api_version_name n) (Some n) (elem_get (doc s) x ''explanationlink''))
               (findall (doc r) x ''enum'') r) (\<lambda>r.
             for_each (deprecate_command (is_api_version_name n) (Some n) (elem_get (doc s) x ''explanationlink''))
               (findall (doc r) x ''command'') r))) = Inr s'"
    then obtain m where "matchAPIProfile api prof (doc s) x = Inr m" by (elim rbind_InrE)
    with s show "reg_step s s'" by (cases m) (auto intro: loops reg_frame.rel_refl)
  qed
qed

text \<open>A copied usage statement extends the document.\<close>

lemma add_validity_steps:
  assumes "\<forall>c i. i_elem (add c i) = i_elem i"
  shows "add_validity add k cmddict cmddict_update v r = Inr r' \<Longrightarrow> reg_step r r'"
    and "add_validity add k typedict typedict_update v r = Inr r' \<Longrightarrow> reg_step r r'"
proof -
  have copy: "reg_step r (r\<lparr>doc := snd (deepcopy (doc r) v)\<rparr>)" by (rule reg_step_doc) (rule doc_step_deepcopy)
  have adj: "reg_step s (cmddict_update (dict_adjust n (add c)) s)"
    "reg_step s (typedict_update (dict_adjust n (add c)) s)" for s n c
    using assms by (cases s; simp add: reg_step_def reg_ok_def dict_ok_adjust)+
  show "add_validity add k cmddict cmddict_update v r = Inr r' \<Longrightarrow> reg_step r r'"
    using reg_frame.rel_trans [OF copy adj(1)]
    by (auto simp: add_validity_def Let_def case_prod_beta reg_frame.rel_refl split: if_splits)
  show "add_validity add k typedict typedict_update v r = Inr r' \<Longrightarrow> reg_step r r'"
    using reg_frame.rel_trans [OF copy adj(2)]
    by (auto simp: add_validity_def Let_def case_prod_beta reg_frame.rel_refl split: if_splits)
qed

lemma usage_block_step:
  assumes add: "\<forall>c i. i_elem (add c i) = i_elem i" and u: "usage_block add api prof e r = Inr r'"
  shows "reg_step r r'"
proof -
  obtain m where m: "matchAPIProfile api prof (doc r) e = Inr m" using u by (auto simp: usage_block_def elim: rbind_InrE)
  show ?thesis
  proof (cases m)
    case True
    with u m have "for_each (\<lambda>v r. rbind (add_validity add ''command'' cmddict cmddict_update v r)
        (add_validity add ''struct'' typedict typedict_update v)) (findall (doc r) e ''usage'') r = Inr r'"
      by (simp add: usage_block_def)
    then show ?thesis
    proof (rule reg_frame.for_each_rel)
      fix v s s'
      assume "rbind (add_validity add ''command'' cmddict cmddict_update v s)
        (add_validity add ''struct'' typedict typedict_update v) = Inr s'"
      then obtain t where "reg_step s t" "reg_step t s'"
        using add_validity_steps [OF add] by (elim rbind_InrE) blast
      then show "reg_step s s'" by (rule reg_frame.rel_trans)
    qed
  qed (use u m in \<open>simp add: usage_block_def reg_frame.rel_refl\<close>)
qed

lemma validity_steps:
  "assignAdditionalValidity i api prof r = Inr r' \<Longrightarrow> reg_step r r'"
  "removeAdditionalValidity i api prof r = Inr r' \<Longrightarrow> reg_step r r'"
  unfolding assignAdditionalValidity_def removeAdditionalValidity_def
  by (erule reg_frame.for_each_rel, erule usage_block_step [rotated], simp add: add_additional_def add_removed_def)+

end
