(* ===== verification/RegGenerate.thy ===== *)
theory RegGenerate
  imports RegFeatures
begin

text \<open>
  Generation of the interfaces: \<^verbatim>\<open>generateFeature\<close>, \<^verbatim>\<open>generateRequiredInterface\<close>, \<^verbatim>\<open>generateSpirv\<close>,
  \<^verbatim>\<open>generateFormat\<close> and the \<^verbatim>\<open>generateSync*\<close> methods of \<^verbatim>\<open>src/tools/vkex/reg.py\<close>. The output
  generator is an object of the client, so it is a parameter: a function that answers a call
  with the document as the generator leaves it and with its own new state.
\<close>

section \<open>The calls of the generator\<close>

datatype gen_call =
    GenType type_info pname pname
  | GenGroup group_info pname pname
  | GenCmd cmd_info pname pname
  | GenEnum enum_info pname pname
  | GenSpirv spirv_info pname
  | GenFormat cond_info pname
  | GenSyncStage cond_info
  | GenSyncAccess cond_info
  | GenSyncPipeline base_info
  | BeginFile
  | BeginFeature addr bool
  | EndFeature
  | EndFile

type_synonym 'g gen_state = "registry \<times> 'g"

type_synonym 'g gen = "gen_call \<Rightarrow> registry \<Rightarrow> 'g \<Rightarrow> (store \<times> 'g) res"

definition call :: "'g gen \<Rightarrow> gen_call \<Rightarrow> 'g gen_state \<Rightarrow> 'g gen_state res" where
  "call gen c s = (case s of (r, g) \<Rightarrow> rbind (gen c r g) (\<lambda>(st, g'). Inr (r\<lparr>doc := st\<rparr>, g')))"

text \<open>For evaluation: the generator is run on the state, never on a variable.\<close>

lemma call_code [code]: "call gen c (r, g) = rbind (gen c r g) (\<lambda>x. Inr (r\<lparr>doc := fst x\<rparr>, snd x))"
  by (cases "gen c r g") (auto simp: call_def)

section \<open>Enums of a group\<close>

text \<open>The group has the enums of every extension; those that are wanted are marked \<^verbatim>\<open>required\<close>.\<close>

definition default_supports :: "api_arg \<Rightarrow> string list \<Rightarrow> bool" where
  "default_supports a supported_list = (case a of ApiStr s \<Rightarrow> s \<in> set supported_list | _ \<Rightarrow> False)"

definition extension_enum_required :: "registry \<Rightarrow> addr \<Rightarrow> string \<Rightarrow> bool res" where
  "extension_enum_required r elem extname =
     (case elem_get (doc r) elem ''supported'' of
        None \<Rightarrow> Inl AttributeError
      | Some supported \<Rightarrow>
          let required = default_supports (defaultExtensions (gen_opts r)) (py_split CHR '','' supported)
                         \<or> re_match (addExtensions (gen_opts r)) extname in
          rbind (if \<not> required then Inr False
                 else (case removedExtensionNames r of
                         None \<Rightarrow> Inl AttributeError
                       | Some removed \<Rightarrow>
                           Inr (\<not> (Some extname \<in> set removed \<and> \<not> elem_has (doc r) elem ''extends'')))) (\<lambda>required.
          Inr (if required \<and> map_of (genFeatures r) (Some extname) \<noteq> None
               then (case reg_lookup r (elem_get (doc r) elem ''name'') (enumdict r) of
                       None \<Rightarrow> True | Some i \<Rightarrow> i_required i)
               else required)))"

definition enum_required :: "registry \<Rightarrow> addr \<Rightarrow> bool res" where
  "enum_required r elem =
     (case elem_get (doc r) elem ''extname'' of
        Some extname \<Rightarrow> extension_enum_required r elem extname
      | None \<Rightarrow>
          (case elem_get (doc r) elem ''version'' of
             Some version \<Rightarrow> Inr (re_match (emitversions (gen_opts r)) version)
           | None \<Rightarrow> Inr True))"

definition mark_group_enum :: "addr \<Rightarrow> registry \<times> pname list \<Rightarrow> (registry \<times> pname list) res" where
  "mark_group_enum elem s =
     (case s of (r, enumAliases) \<Rightarrow>
        rbind (enum_required r elem) (\<lambda>required.
        if \<not> required then Inr s
        else
          let alias = elem_get (doc r) elem ''alias'' in
          Inr (r\<lparr>doc := elem_set (doc r) elem ''required'' ''true''\<rparr>,
               if truthy alias then enumAliases @ [alias] else enumAliases)))"

definition mark_enum_alias :: "pname list \<Rightarrow> addr \<Rightarrow> registry \<Rightarrow> registry" where
  "mark_enum_alias enumAliases elem r =
     (if elem_get (doc r) elem ''name'' \<in> set enumAliases
      then r\<lparr>doc := elem_set (doc r) elem ''required'' ''true''\<rparr> else r)"

definition mark_group_enums :: "group_info \<Rightarrow> registry \<Rightarrow> registry res" where
  "mark_group_enums gi r =
     (let enums = findall (doc r) (i_elem gi) ''enum'' in
      rbind (for_each mark_group_enum enums (r, [])) (\<lambda>(r, enumAliases).
      Inr (fold (mark_enum_alias enumAliases) enums r)))"

section \<open>One feature and its dependencies\<close>

datatype ftype = FType | FEnum | FCmd

definition info_entry :: "ftype \<Rightarrow> pname \<Rightarrow> registry \<Rightarrow> base_info option" where
  "info_entry ft fname r =
     (case ft of
        FType \<Rightarrow> map_option base_info.truncate (reg_lookup r fname (typedict r))
      | FEnum \<Rightarrow> map_option base_info.truncate (reg_lookup r fname (enumdict r))
      | FCmd \<Rightarrow> map_option base_info.truncate (reg_lookup r fname (cmddict r)))"

definition set_declared :: "'a base_info_scheme \<Rightarrow> 'a base_info_scheme" where
  "set_declared i = i\<lparr>i_declared := True\<rparr>"

definition declare_entry :: "ftype \<Rightarrow> pname \<Rightarrow> registry \<Rightarrow> registry" where
  "declare_entry ft fname r =
     (case ft of
        FType \<Rightarrow> r\<lparr>typedict := adjustInfo (api_name r) fname set_declared (typedict r)\<rparr>
      | FEnum \<Rightarrow> r\<lparr>enumdict := adjustInfo (api_name r) fname set_declared (enumdict r)\<rparr>
      | FCmd \<Rightarrow> r\<lparr>cmddict := adjustInfo (api_name r) fname set_declared (cmddict r)\<rparr>)"

text \<open>
  What is to be emitted for a type: itself, or the group of its enums. There is nothing to emit
  for an enum type without a group (a warning).
\<close>

definition type_target :: "pname \<Rightarrow> pname \<Rightarrow> type_info \<Rightarrow> registry \<Rightarrow> (gen_call option \<times> addr \<times> registry) res" where
  "type_target fname alias f r =
     (if elem_get (doc r) (i_elem f) ''category'' \<noteq> Some ''enum''
      then Inr (Some (GenType f fname alias), i_elem f, r)
      else if alias \<noteq> None then
        (case reg_lookup r alias (groupdict r) of
           None \<Rightarrow> Inl (RuntimeError ''Should not get here'')
         | Some g \<Rightarrow> Inr (Some (GenGroup g fname alias), i_elem g, r))
      else
        (case reg_lookup r fname (groupdict r) of
           None \<Rightarrow> Inr (None, i_elem f, warn [''Skipping enum type'', py_str fname, '': No matching enumerant group''] r)
         | Some g \<Rightarrow> rbind (mark_group_enums g r) (\<lambda>r. Inr (Some (GenGroup g fname alias), i_elem g, r))))"

text \<open>\<open>rec\<close> is the recursive call, where \<^verbatim>\<open>explicit\<close> has its default.\<close>

definition generate_opt ::
  "(ftype \<Rightarrow> pname \<Rightarrow> 'g gen_state \<Rightarrow> 'g gen_state res) \<Rightarrow> ftype \<Rightarrow> pname \<Rightarrow> 'g gen_state \<Rightarrow> 'g gen_state res" where
  "generate_opt rec ft name s = (if truthy name then rec ft name s else Inr s)"

definition generate_texts ::
  "(ftype \<Rightarrow> pname \<Rightarrow> 'g gen_state \<Rightarrow> 'g gen_state res) \<Rightarrow> ftype \<Rightarrow> addr list \<Rightarrow> 'g gen_state \<Rightarrow> 'g gen_state res" where
  "generate_texts rec ft es s = for_each (\<lambda>e s. rec ft (elem_text (doc (fst s)) e) s) es s"

definition emit_call :: "'g gen \<Rightarrow> gen_call \<Rightarrow> 'g gen_state \<Rightarrow> 'g gen_state res" where
  "emit_call gen c s = (if emitFeatures (fst s) then call gen c s else Inr s)"

definition generate_type ::
  "(ftype \<Rightarrow> pname \<Rightarrow> 'g gen_state \<Rightarrow> 'g gen_state res) \<Rightarrow> 'g gen \<Rightarrow> pname \<Rightarrow> type_info \<Rightarrow> 'g gen_state
     \<Rightarrow> 'g gen_state res" where
  "generate_type rec gen fname f s =
     (let e = i_elem f; alias = elem_get (doc (fst s)) e ''alias'' in
      rbind (generate_opt rec FType alias s) (\<lambda>s.
      rbind (generate_opt rec FType (elem_get (doc (fst s)) e ''requires'') s) (\<lambda>s.
      rbind (generate_texts rec FType (findall_below (doc (fst s)) e ''type'') s) (\<lambda>s.
      rbind (generate_texts rec FEnum (findall_below (doc (fst s)) e ''enum'') s) (\<lambda>s.
      rbind (type_target fname alias f (fst s)) (\<lambda>(target, te, r).
      let s = (r, snd s) in
      (case target of
         None \<Rightarrow> Inr s
       | Some c \<Rightarrow>
           let followupFeature = (if elem_get (doc r) te ''category'' = Some ''bitmask''
                                  then elem_get (doc r) te ''bitvalues'' else None) in
           rbind (emit_call gen c s) (\<lambda>s. generate_opt rec FType followupFeature s))))))))"

definition generate_command ::
  "(ftype \<Rightarrow> pname \<Rightarrow> 'g gen_state \<Rightarrow> 'g gen_state res) \<Rightarrow> 'g gen \<Rightarrow> pname \<Rightarrow> cmd_info \<Rightarrow> 'g gen_state
     \<Rightarrow> 'g gen_state res" where
  "generate_command rec gen fname f s =
     (let e = i_elem f; alias = elem_get (doc (fst s)) e ''alias'' in
      rbind (generate_opt rec FCmd alias s) (\<lambda>s.
      rbind (generate_texts rec FType (findall_below (doc (fst s)) e ''type'') s) (\<lambda>s.
      emit_call gen (GenCmd f fname alias) s)))"

definition generate_enum ::
  "(ftype \<Rightarrow> pname \<Rightarrow> 'g gen_state \<Rightarrow> 'g gen_state res) \<Rightarrow> 'g gen \<Rightarrow> pname \<Rightarrow> enum_info \<Rightarrow> 'g gen_state
     \<Rightarrow> 'g gen_state res" where
  "generate_enum rec gen fname f s =
     (let alias = elem_get (doc (fst s)) (i_elem f) ''alias'' in
      rbind (generate_opt rec FEnum alias s) (\<lambda>s.
      emit_call gen (GenEnum f fname alias) s))"

definition generate_entry ::
  "(ftype \<Rightarrow> pname \<Rightarrow> 'g gen_state \<Rightarrow> 'g gen_state res) \<Rightarrow> 'g gen \<Rightarrow> ftype \<Rightarrow> pname \<Rightarrow> 'g gen_state
     \<Rightarrow> 'g gen_state res" where
  "generate_entry rec gen ft fname s =
     (case ft of
        FType \<Rightarrow> (case reg_lookup (fst s) fname (typedict (fst s)) of
                    None \<Rightarrow> Inr s | Some f \<Rightarrow> generate_type rec gen fname f s)
      | FEnum \<Rightarrow> (case reg_lookup (fst s) fname (enumdict (fst s)) of
                    None \<Rightarrow> Inr s | Some f \<Rightarrow> generate_enum rec gen fname f s)
      | FCmd \<Rightarrow> (case reg_lookup (fst s) fname (cmddict (fst s)) of
                    None \<Rightarrow> Inr s | Some f \<Rightarrow> generate_command rec gen fname f s))"

fun generateFeature ::
  "'g gen \<Rightarrow> nat \<Rightarrow> bool \<Rightarrow> ftype \<Rightarrow> pname \<Rightarrow> 'g gen_state \<Rightarrow> 'g gen_state res" where
  "generateFeature gen 0 explicit ft fname s = Inl RecursionError"
| "generateFeature gen (Suc d) explicit ft fname s =
     (if \<not> (explicit \<or> requireDepends (gen_opts (fst s))) then Inr s
      else case info_entry ft fname (fst s) of
        None \<Rightarrow> Inr s
      | Some f \<Rightarrow>
          if \<not> i_required f \<or> i_declared f then Inr s
          else generate_entry (generateFeature gen d False) gen ft fname
                 (declare_entry ft fname (fst s), snd s))"

section \<open>The interface of a feature\<close>

definition generateRequiredInterface :: "'g gen \<Rightarrow> nat \<Rightarrow> addr \<Rightarrow> 'g gen_state \<Rightarrow> 'g gen_state res" where
  "generateRequiredInterface gen d interface s =
     for_each (\<lambda>features s.
       rbind (for_each (\<lambda>t s. generateFeature gen d True FType (elem_get (doc (fst s)) t ''name'') s)
                (findall (doc (fst s)) features ''type'') s) (\<lambda>s.
       rbind (for_each (\<lambda>e s. if truthy (elem_get (doc (fst s)) e ''extends'') then Inr s
                               else generateFeature gen d True FEnum (elem_get (doc (fst s)) e ''name'') s)
                (findall (doc (fst s)) features ''enum'') s) (\<lambda>s.
       for_each (\<lambda>c s. generateFeature gen d True FCmd (elem_get (doc (fst s)) c ''name'') s)
         (findall (doc (fst s)) features ''command'') s)))
       (findall (doc (fst s)) interface ''require'') s"

text \<open>\<^verbatim>\<open>name\<close> is assigned after the branch for \<^verbatim>\<open>None\<close>, which reads it.\<close>

definition generateSpirv :: "'g gen \<Rightarrow> spirv_info option \<Rightarrow> 'g gen_state \<Rightarrow> 'g gen_state res" where
  "generateSpirv gen spirv s =
     (case spirv of
        None \<Rightarrow> Inl UnboundLocalError
      | Some sp \<Rightarrow>
          if s_emit sp then call gen (GenSpirv sp (elem_get (doc (fst s)) (i_elem sp) ''name'')) s else Inr s)"

definition generateFormat :: "'g gen \<Rightarrow> cond_info option \<Rightarrow> 'g gen_state \<Rightarrow> 'g gen_state res" where
  "generateFormat gen fmt s =
     (case fmt of
        None \<Rightarrow> Inr s
      | Some f \<Rightarrow>
          if c_emit f then call gen (GenFormat f (elem_get (doc (fst s)) (i_elem f) ''name'')) s else Inr s)"

definition generateSyncStage :: "'g gen \<Rightarrow> cond_info \<Rightarrow> 'g gen_state \<Rightarrow> 'g gen_state res" where
  "generateSyncStage gen sync s = call gen (GenSyncStage sync) s"

definition generateSyncAccess :: "'g gen \<Rightarrow> cond_info \<Rightarrow> 'g gen_state \<Rightarrow> 'g gen_state res" where
  "generateSyncAccess gen sync s = call gen (GenSyncAccess sync) s"

definition generateSyncPipeline :: "'g gen \<Rightarrow> base_info \<Rightarrow> 'g gen_state \<Rightarrow> 'g gen_state res" where
  "generateSyncPipeline gen sync s = call gen (GenSyncPipeline sync) s"

end
