(* ===== verification/RegOrder.thy ===== *)
theory RegOrder
  imports RegGenerate
begin

text \<open>
  What the generation of an interface guarantees: it ends (each call declares one more entry),
  nothing is emitted twice, and what an item depends on is emitted before it. The output
  generator is any client that keeps the contract \<open>generator\<close>; the calls are observed by
  wrapping the generator in one that records them.
\<close>

section \<open>Termination\<close>

text \<open>The entries that are not declared yet.\<close>

definition undeclared :: "'a base_info_scheme info_dict \<Rightarrow> nat" where
  "undeclared d = length (filter (\<lambda>(k, i). \<not> i_declared i) d)"

definition pending :: "registry \<Rightarrow> nat" where
  "pending r = undeclared (typedict r) + undeclared (enumdict r) + undeclared (cmddict r)"

lemma set_declared_simps [simp]:
  "i_declared (set_declared i)" "i_required (set_declared i) = i_required i"
  "i_elem (set_declared i) = i_elem i" "base_info.truncate (set_declared i) = set_declared (base_info.truncate i)"
  by (simp_all add: set_declared_def base_info.truncate_def)

lemma truncate_simps [simp]:
  "i_required (base_info.truncate i) = i_required i" "i_declared (base_info.truncate i) = i_declared i"
  "i_elem (base_info.truncate i) = i_elem i"
  by (simp_all add: base_info.truncate_def)

lemma undeclared_Cons [simp]: "undeclared ((k, i) # d) = (if i_declared i then 0 else 1) + undeclared d"
  by (simp add: undeclared_def)

lemma dict_adjust_Cons [simp]: "dict_adjust k f ((k', i) # d) = (k', if k' = k then f i else i) # dict_adjust k f d"
  by (simp add: dict_adjust_def)

lemma undeclared_adjust_le: "undeclared (dict_adjust k set_declared d) \<le> undeclared d"
proof (induction d)
  case (Cons x d)
  then show ?case by (cases x) auto
qed (simp add: undeclared_def dict_adjust_def)

lemma undeclared_adjust:
  "map_of d k = Some i \<Longrightarrow> \<not> i_declared i \<Longrightarrow> undeclared (dict_adjust k set_declared d) < undeclared d"
proof (induction d)
  case (Cons x d)
  then show ?case using undeclared_adjust_le [of k d]
    by (cases x) (auto split: if_splits simp: less_Suc_eq_le)
qed simp

lemma undeclared_adjustInfo:
  "lookupElementInfo a n d = Some i \<Longrightarrow> \<not> i_declared i \<Longrightarrow>
     undeclared (adjustInfo a n set_declared d) < undeclared d"
  by (auto simp: lookupElementInfo_def adjustInfo_def undeclared_adjust split: option.splits)

lemma pending_declare:
  "info_entry ft n r = Some i \<Longrightarrow> \<not> i_declared i \<Longrightarrow> pending (declare_entry ft n r) < pending r"
  by (auto simp: info_entry_def declare_entry_def pending_def reg_lookup_def
      dest: undeclared_adjustInfo split: ftype.splits)

lemma pending_doc [simp]: "pending (r\<lparr>doc := st\<rparr>) = pending r" "pending (warn w r) = pending r"
  by (simp_all add: pending_def warn_def)

text \<open>Preparing a group of enums changes the \<^verbatim>\<open>required\<close> attributes of the document only.\<close>

definition same_but_required :: "store \<Rightarrow> store \<Rightarrow> bool" where
  "same_but_required st st' \<longleftrightarrow> length st' = length st \<and>
     (\<forall>a. elem_children st' a = elem_children st a \<and> elem_tag st' a = elem_tag st a \<and>
          elem_text st' a = elem_text st a \<and>
          (\<forall>k. k \<noteq> ''required'' \<longrightarrow> elem_get st' a k = elem_get st a k))"

interpretation required_frame: loop_frame same_but_required
  by unfold_locales (simp_all add: same_but_required_def)

lemma same_but_required_set: "same_but_required st (elem_set st a ''required'' v)"
  by (simp add: same_but_required_def)

definition only_doc :: "registry \<Rightarrow> registry \<Rightarrow> bool" where
  "only_doc r r' \<longleftrightarrow> (\<exists>st. r' = r\<lparr>doc := st\<rparr> \<and> same_but_required (doc r) st)"

interpretation only_doc_frame: loop_frame only_doc
proof unfold_locales
  show "only_doc r r" for r
    unfolding only_doc_def by (rule exI [of _ "doc r"]) (simp add: required_frame.rel_refl)
  show "only_doc r t" if "only_doc r s" "only_doc s t" for r s t
    using that unfolding only_doc_def by (force intro: required_frame.rel_trans)
qed

lemma only_doc_set: "only_doc r (r\<lparr>doc := elem_set (doc r) a ''required'' v\<rparr>)"
  by (auto simp: only_doc_def same_but_required_set)

lemma extension_enum_required_error:
  "outcome {RecursionError} (extension_enum_required r e x) (\<lambda>_. True)"
  by (auto simp: extension_enum_required_def Let_def split: option.splits)

lemma enum_required_error: "outcome {RecursionError} (enum_required r e) (\<lambda>_. True)"
  by (auto simp: enum_required_def extension_enum_required_error split: option.splits)

lemma mark_group_enum_doc:
  "outcome {RecursionError} (mark_group_enum e s) (\<lambda>s'. only_doc (fst s) (fst s'))"
  unfolding mark_group_enum_def
  by (auto intro!: outcome_bind [OF enum_required_error] split: prod.splits
      simp: Let_def only_doc_set only_doc_frame.rel_refl)

lemma mark_group_enums_doc: "outcome {RecursionError} (mark_group_enums g r) (only_doc r)"
  unfolding mark_group_enums_def Let_def
proof (rule outcome_bind)
  show "outcome {RecursionError} (for_each mark_group_enum (findall (doc r) (i_elem g) ''enum'') (r, []))
          (\<lambda>s. only_doc r (fst s))"
  proof (rule outcome_for_each)
    fix e and s :: "registry \<times> pname list" assume "only_doc r (fst s)"
    then show "outcome {RecursionError} (mark_group_enum e s) (\<lambda>s. only_doc r (fst s))"
      by (rule outcome_mono [OF mark_group_enum_doc, OF only_doc_frame.rel_trans])
  qed (simp add: only_doc_frame.rel_refl)
next
  fix s :: "registry \<times> pname list" assume s: "only_doc r (fst s)"
  have "only_doc r (fold (mark_enum_alias as) es r')" if "only_doc r r'" for as es r'
    using that
  proof (induction es arbitrary: r')
    case (Cons e es)
    have "only_doc r (mark_enum_alias as e r')"
      using Cons.prems by (auto simp: mark_enum_alias_def intro: only_doc_frame.rel_trans only_doc_set)
    with Cons.IH show ?case by simp
  qed simp
  then have "only_doc r (fold (mark_enum_alias (snd s)) (findall (doc r) (i_elem g) ''enum'') (fst s))"
    using s by blast
  then show "outcome {RecursionError}
      (case s of (r', as) \<Rightarrow> Inr (fold (mark_enum_alias as) (findall (doc r) (i_elem g) ''enum'') r')) (only_doc r)"
    by (cases s) (simp only: prod.case outcome_simps fst_conv snd_conv)
qed

text \<open>The item a call of the generator is for.\<close>

type_synonym entry = "ftype \<times> pname"

fun call_item :: "gen_call \<Rightarrow> entry list" where
  "call_item (GenType f n a) = [(FType, n)]"
| "call_item (GenGroup f n a) = [(FType, n)]"
| "call_item (GenCmd f n a) = [(FCmd, n)]"
| "call_item (GenEnum f n a) = [(FEnum, n)]"
| "call_item _ = []"

text \<open>
  What the recursive calls need to know of the state is a predicate kept by every change that
  the body makes between them. \<open>generation\<close> is that contract, for the body of
  \<^verbatim>\<open>generateFeature\<close> and the loop of \<^verbatim>\<open>generateRequiredInterface\<close>.
\<close>

locale generation =
  fixes E :: "py_error set" and P :: "'g gen_state \<Rightarrow> bool"
    and gen :: "'g gen" and rec :: "bool \<Rightarrow> ftype \<Rightarrow> pname \<Rightarrow> 'g gen_state \<Rightarrow> 'g gen_state res"
  assumes errors: "E \<subseteq> {RecursionError}"
    and rec_ok: "P s \<Longrightarrow> outcome E (rec explicit ft n s) P"
    and gen_ok: "call_item c \<noteq> [] \<Longrightarrow> emitFeatures (fst s) \<Longrightarrow> P s \<Longrightarrow> outcome E (call gen c s) P"
    and doc_ok: "P s \<Longrightarrow> only_doc (fst s) r \<Longrightarrow> P (r, snd s)"
    and warn_ok: "P s \<Longrightarrow> P (warn w (fst s), snd s)"
begin

lemma generate_opt_ok: "P s \<Longrightarrow> outcome E (generate_opt (rec False) ft n s) P"
  by (simp add: generate_opt_def rec_ok)

lemma generate_texts_ok: "P s \<Longrightarrow> outcome E (generate_texts (rec False) ft es s) P"
  unfolding generate_texts_def by (rule outcome_for_each) (simp_all add: rec_ok)

lemma emit_call_ok: "P s \<Longrightarrow> call_item c \<noteq> [] \<Longrightarrow> outcome E (emit_call gen c s) P"
  by (simp add: emit_call_def gen_ok)

lemma weaken: "outcome {RecursionError} m Q \<Longrightarrow> outcome E m Q"
  using errors by (cases m) auto

lemma type_target_ok:
  assumes "P s"
  shows "outcome E (type_target fname alias f (fst s)) (\<lambda>(c, e, r). P (r, snd s) \<and> (\<forall>c'. c = Some c' \<longrightarrow> call_item c' \<noteq> []))"
proof -
  have "outcome E (mark_group_enums g (fst s)) (\<lambda>r. P (r, snd s))" for g
    using assms by (intro outcome_mono [OF weaken [OF mark_group_enums_doc]] doc_ok)
  then have "outcome E (rbind (mark_group_enums g (fst s)) (\<lambda>r. Inr (Some (GenGroup g fname alias), i_elem g, r)))
      (\<lambda>(c, e, r). P (r, snd s) \<and> (\<forall>c'. c = Some c' \<longrightarrow> call_item c' \<noteq> []))" for g
    by (rule outcome_bind) simp
  then show ?thesis
    using assms errors by (auto simp: type_target_def warn_ok split: option.splits)
qed

lemma generate_type_ok: "P s \<Longrightarrow> outcome E (generate_type (rec False) gen fname f s) P"
  unfolding generate_type_def Let_def
  by (intro outcome_bind [OF generate_opt_ok] outcome_bind [OF generate_texts_ok]
      outcome_bind [OF type_target_ok])
    (auto split: option.splits intro!: outcome_bind [OF emit_call_ok] generate_opt_ok)

lemma generate_command_ok: "P s \<Longrightarrow> outcome E (generate_command (rec False) gen fname f s) P"
  unfolding generate_command_def Let_def
  by (intro outcome_bind [OF generate_opt_ok] outcome_bind [OF generate_texts_ok] emit_call_ok) simp_all

lemma generate_enum_ok: "P s \<Longrightarrow> outcome E (generate_enum (rec False) gen fname f s) P"
  unfolding generate_enum_def Let_def
  by (intro outcome_bind [OF generate_opt_ok] emit_call_ok) simp_all

lemma generate_entry_ok: "P s \<Longrightarrow> outcome E (generate_entry (rec False) gen ft fname s) P"
  by (auto simp: generate_entry_def generate_type_ok generate_command_ok generate_enum_ok
      split: ftype.splits option.splits)

lemma interface_ok:
  assumes "rec = generateFeature gen d" and "P s"
  shows "outcome E (generateRequiredInterface gen d interface s) P"
  unfolding generateRequiredInterface_def assms(1) [symmetric]
proof (rule outcome_for_each)
  fix f s assume "P s"
  then show "outcome E
     (rbind (for_each (\<lambda>t s. rec True FType (elem_get (doc (fst s)) t ''name'') s) (findall (doc (fst s)) f ''type'') s)
       (\<lambda>s. rbind (for_each (\<lambda>e s. if truthy (elem_get (doc (fst s)) e ''extends'') then Inr s
                               else rec True FEnum (elem_get (doc (fst s)) e ''name'') s)
                (findall (doc (fst s)) f ''enum'') s) (\<lambda>s.
       for_each (\<lambda>c s. rec True FCmd (elem_get (doc (fst s)) c ''name'') s)
         (findall (doc (fst s)) f ''command'') s))) P"
    by (intro outcome_bind [where P = P] outcome_for_each) (simp_all add: rec_ok)
qed (rule assms(2))

end

text \<open>One more entry is declared by every call that goes on, so the recursion is shallow.\<close>

lemma generation_pending:
  assumes gen: "\<And>c r g. gen c r g \<noteq> Inl RecursionError"
    and rec: "\<And>explicit ft n s. pending (fst s) \<le> b \<Longrightarrow> outcome {RecursionError} (rec explicit ft n s) (\<lambda>s. pending (fst s) \<le> b)"
  shows "generation {RecursionError} (\<lambda>s. pending (fst s) \<le> b) gen rec"
proof
  show "outcome {RecursionError} (call gen c s) (\<lambda>s. pending (fst s) \<le> b)" if "pending (fst s) \<le> b" for c s
    using that gen by (auto simp: call_def outcome_def rbind_def split: prod.splits sum.splits)
qed (use rec in \<open>auto simp: only_doc_def\<close>)

lemma generateFeature_shallow:
  assumes "\<And>c r g. gen c r g \<noteq> Inl RecursionError" and "pending (fst s) \<le> b" and "b < d"
  shows "outcome {RecursionError} (generateFeature gen d explicit ft n s) (\<lambda>s. pending (fst s) \<le> b)"
  using assms(2,3)
proof (induction d arbitrary: explicit ft n s b)
  case (Suc d)
  show ?case
  proof (cases "info_entry ft n (fst s)")
    case (Some f)
    let ?s = "(declare_entry ft n (fst s), snd s)"
    have "outcome {RecursionError} (generate_entry (generateFeature gen d False) gen ft n ?s) (\<lambda>s. pending (fst s) \<le> b)"
      if f: "\<not> i_declared f"
    proof -
      have "pending (fst ?s) < b" using pending_declare [OF Some f] Suc.prems by simp
      then obtain b' where b: "b = Suc b'" "pending (fst ?s) \<le> b'" by (cases b) auto
      have "generation {RecursionError} (\<lambda>s. pending (fst s) \<le> b') gen (generateFeature gen d)"
        using Suc.IH Suc.prems b by (intro generation_pending assms(1)) simp_all
      from generation.generate_entry_ok [OF this, of ?s ft n] b show ?thesis
        by (auto elim!: outcome_mono [where P = "\<lambda>s. pending (fst s) \<le> b'"])
    qed
    with Some Suc.prems show ?thesis by simp
  qed (use Suc.prems in simp)
qed simp

text \<open>C17: generating an interface ends: unless the generator itself exhausts the stack, a stack
  with one frame more than there are undeclared types, enums and commands is enough, and no
  entry becomes undeclared again.\<close>

theorem generateRequiredInterface_terminates:
  assumes "\<forall>c r g. gen c r g \<noteq> Inl RecursionError" and "pending (fst s) < d"
  shows "generateRequiredInterface gen d interface s \<noteq> Inl RecursionError \<and>
    (\<forall>s'. generateRequiredInterface gen d interface s = Inr s' \<longrightarrow> pending (fst s') \<le> pending (fst s))"
proof -
  have "generation {RecursionError} (\<lambda>t. pending (fst t) \<le> pending (fst s)) gen (generateFeature gen d)"
    using assms by (intro generation_pending generateFeature_shallow) auto
  from generation.interface_ok [OF this refl, of s interface] show ?thesis
    by (auto simp: outcome_def split: sum.splits)
qed

section \<open>The contract of the generator\<close>

text \<open>
  Every generator extends the document only (\<open>client\<close>). One that may run between an item and its
  dependencies also leaves alone what these are read from, as long as the document is in a state
  \<open>ok\<close> that the registry keeps (\<open>generator\<close>).
\<close>

definition same_deps :: "store \<Rightarrow> store \<Rightarrow> bool" where
  "same_deps st st' \<longleftrightarrow>
     (\<forall>a. \<forall>k \<in> {''alias'', ''requires'', ''category'', ''bitvalues''}. elem_get st' a k = elem_get st a k) \<and>
     (\<forall>a. \<forall>t \<in> {''type'', ''enum''}. findall_below st' a t = findall_below st a t) \<and>
     (\<forall>a. elem_text st' a = elem_text st a)"

interpretation deps_frame: loop_frame same_deps
  by unfold_locales (simp_all add: same_deps_def)

lemma same_but_required_deps:
  assumes "same_but_required st st'" shows "same_deps st st'"
proof -
  have "descendants st' a = descendants st a" for a
    using assms
  proof (induction st a rule: descendants.induct)
    case (1 st a)
    have "down st' a = down st a" using "1.prems" by (simp add: down_def same_but_required_def)
    with "1.IH" [OF _ "1.prems"] show ?case
      by (subst (1 2) descendants.simps) (simp cong: map_cong)
  qed
  with assms show ?thesis by (simp add: same_deps_def same_but_required_def findall_below_def)
qed

locale client =
  fixes gen :: "'g gen"
  assumes step: "gen c r g = Inr (st, g') \<Longrightarrow> doc_step (doc r) st"

locale generator = client gen for gen :: "'g gen" +
  fixes ok :: "store \<Rightarrow> bool"
  assumes keeps: "ok (doc r) \<Longrightarrow> gen c r g = Inr (st, g') \<Longrightarrow> ok st \<and> same_deps (doc r) st"
    and marked: "ok st \<Longrightarrow> same_but_required st st' \<Longrightarrow> ok st'"

section \<open>The registry during generation\<close>

text \<open>From a state \<open>s0\<close> on, with a generator that keeps its contract.\<close>

definition steady :: "'g gen \<Rightarrow> 'g gen_state \<Rightarrow> 'g gen_state \<Rightarrow> bool" where
  "steady gen s0 s \<longleftrightarrow> (client gen \<longrightarrow> reg_step (fst s0) (fst s))"

lemma same_but_required_step: "same_but_required st st' \<Longrightarrow> doc_step st st'"
  unfolding doc_step_def doc_extends_def same_but_required_def
  by (auto intro: wf_store_same)

lemma declare_entry_simps [simp]:
  "doc (declare_entry ft n r) = doc r" "gen_opts (declare_entry ft n r) = gen_opts r"
  "emitFeatures (declare_entry ft n r) = emitFeatures r" "groupdict (declare_entry ft n r) = groupdict r"
  by (simp_all add: declare_entry_def split: ftype.splits)

lemma declare_entry_step: "reg_step r (declare_entry ft n r)"
  by (cases ft) (auto simp: declare_entry_def intro!: reg_step_adjust)

lemma steady_mono:
  "steady gen s0 s \<Longrightarrow> (client gen \<Longrightarrow> reg_step (fst s) (fst t)) \<Longrightarrow>
     steady gen s0 t"
  unfolding steady_def using reg_frame.rel_trans by blast

text \<open>
  A predicate that the calls for items, the changes to the document, the warnings and the
  declarations keep is kept by the whole generation.
\<close>

locale keeper =
  fixes P :: "'g gen_state \<Rightarrow> bool" and gen :: "'g gen"
  assumes keep_call: "call_item c \<noteq> [] \<Longrightarrow> emitFeatures (fst s) \<Longrightarrow> P s \<Longrightarrow> outcome {} (call gen c s) P"
    and keep_doc: "P s \<Longrightarrow> only_doc (fst s) r \<Longrightarrow> P (r, snd s)"
    and keep_warn: "P s \<Longrightarrow> P (warn w (fst s), snd s)"
    and keep_declare: "P s \<Longrightarrow> P (declare_entry ft n (fst s), snd s)"
begin

lemma keep_rec:
  "(\<And>explicit ft n s. P s \<Longrightarrow> outcome {} (rec explicit ft n s) P) \<Longrightarrow> generation {} P gen rec"
  by unfold_locales (simp_all add: keep_call keep_doc keep_warn)

lemma generateFeature_keeps: "P s \<Longrightarrow> outcome {} (generateFeature gen d explicit ft n s) P"
proof (induction d arbitrary: explicit ft n s)
  case (Suc d)
  have "generation {} P gen (generateFeature gen d)" by (rule keep_rec) (rule Suc.IH)
  then have "outcome {} (generate_entry (generateFeature gen d False) gen ft n (declare_entry ft n (fst s), snd s)) P"
    by (rule generation.generate_entry_ok) (rule keep_declare [OF Suc.prems])
  then show ?case using Suc.prems by (simp split: option.splits)
qed simp

lemma interface_keeps: "P s \<Longrightarrow> outcome {} (generateRequiredInterface gen d interface s) P"
  by (rule generation.interface_ok [OF keep_rec refl]) (simp_all add: generateFeature_keeps)

end

interpretation steady_keeper: keeper "steady gen s0" gen for gen s0
proof
  fix c and s :: "'a gen_state" assume s: "steady gen s0 s"
  have "steady gen s0 ((fst s)\<lparr>doc := st\<rparr>, g')" if "gen c (fst s) (snd s) = Inr (st, g')" for st g'
    using that by (intro steady_mono [OF s]) (simp add: reg_step_doc client.step)
  then show "outcome {} (call gen c s) (steady gen s0)"
    by (cases s) (auto simp: call_def outcome_def rbind_def split: sum.splits)
next
  fix s :: "'a gen_state" and r assume s: "steady gen s0 s" and "only_doc (fst s) r"
  then obtain st where "r = (fst s)\<lparr>doc := st\<rparr>" "same_but_required (doc (fst s)) st" by (auto simp: only_doc_def)
  then show "steady gen s0 (r, snd s)"
    by (intro steady_mono [OF s]) (auto intro: reg_step_doc same_but_required_step)
next
  fix s :: "'a gen_state" and w assume s: "steady gen s0 s"
  then show "steady gen s0 (warn w (fst s), snd s)"
    by (rule steady_mono) (simp add: reg_frame.rel_refl)
next
  fix s :: "'a gen_state" and ft n assume s: "steady gen s0 s"
  then show "steady gen s0 (declare_entry ft n (fst s), snd s)"
    by (rule steady_mono) (simp add: declare_entry_step)
qed

lemma generateRequiredInterface_step:
  assumes "client gen" and "generateRequiredInterface gen d interface s = Inr s'"
  shows "reg_step (fst s) (fst s')"
proof -
  have "steady gen s s" by (simp add: steady_def reg_frame.rel_refl)
  from steady_keeper.interface_keeps [OF this] have "steady gen s s'"
    by (rule outcome_value) (rule assms(2))
  with assms(1) show ?thesis by (simp add: steady_def)
qed

section \<open>Order of emission\<close>

text \<open>A generator with the items it was called for, in order.\<close>

definition recorded :: "'g gen \<Rightarrow> ('g \<times> entry list) gen" where
  "recorded gen c r h = (case h of (g, tr) \<Rightarrow>
     rbind (gen c r g) (\<lambda>(st, g'). Inr (st, g', tr @ call_item c)))"

abbreviation trace :: "('g \<times> entry list) gen_state \<Rightarrow> entry list" where
  "trace s \<equiv> snd (snd s)"

text \<open>What an item depends on, what is generated after it, and whether a call is due for it.\<close>

definition opt_entry :: "ftype \<Rightarrow> pname \<Rightarrow> entry list" where
  "opt_entry ft n = (if truthy n then [(ft, n)] else [])"

definition gen_deps :: "registry \<Rightarrow> entry \<Rightarrow> entry list" where
  "gen_deps r x = (case info_entry (fst x) (snd x) r of None \<Rightarrow> [] | Some i \<Rightarrow>
     (let e = i_elem i; st = doc r; texts = (\<lambda>ft t. map (\<lambda>c. (ft, elem_text st c)) (findall_below st e t)) in
      case fst x of
        FType \<Rightarrow> opt_entry FType (elem_get st e ''alias'') @ opt_entry FType (elem_get st e ''requires'')
                   @ texts FType ''type'' @ texts FEnum ''enum''
      | FEnum \<Rightarrow> opt_entry FEnum (elem_get st e ''alias'')
      | FCmd \<Rightarrow> opt_entry FCmd (elem_get st e ''alias'') @ texts FType ''type''))"

definition group_of :: "registry \<Rightarrow> entry \<Rightarrow> addr option" where
  "group_of r x = (case info_entry (fst x) (snd x) r of None \<Rightarrow> None | Some i \<Rightarrow>
     (if fst x = FType \<and> elem_get (doc r) (i_elem i) ''category'' = Some ''enum''
      then map_option i_elem (reg_lookup r
             (if elem_get (doc r) (i_elem i) ''alias'' \<noteq> None then elem_get (doc r) (i_elem i) ''alias'' else snd x)
             (groupdict r))
      else Some (i_elem i)))"

definition followup :: "registry \<Rightarrow> entry \<Rightarrow> entry list" where
  "followup r x = (case group_of r x of None \<Rightarrow> [] | Some e \<Rightarrow>
     (if fst x = FType \<and> elem_get (doc r) e ''category'' = Some ''bitmask''
      then opt_entry FType (elem_get (doc r) e ''bitvalues'') else []))"

definition needed :: "registry \<Rightarrow> entry \<Rightarrow> bool" where
  "needed r x \<longleftrightarrow> (\<exists>i. info_entry (fst x) (snd x) r = Some i \<and> i_required i)"

definition emittable :: "registry \<Rightarrow> entry \<Rightarrow> bool" where
  "emittable r x \<longleftrightarrow> needed r x \<and> group_of r x \<noteq> None"

definition entry_declared :: "registry \<Rightarrow> entry \<Rightarrow> bool" where
  "entry_declared r x \<longleftrightarrow> (\<exists>i. info_entry (fst x) (snd x) r = Some i \<and> i_declared i)"

text \<open>The edges of the recursion: \<open>y\<close> is generated in the course of generating \<open>x\<close>.\<close>

definition needs :: "registry \<Rightarrow> (entry \<times> entry) set" where
  "needs r = {(y, x). needed r x \<and> y \<in> set (gen_deps r x @ followup r x)}"

definition ordered :: "registry \<Rightarrow> entry list \<Rightarrow> bool" where
  "ordered r tr \<longleftrightarrow> (\<forall>i < length tr. \<forall>y \<in> set (gen_deps r (tr ! i)). emittable r y \<longrightarrow> y \<in> set (take i tr))"

lemma ordered_snoc:
  "ordered r (tr @ [x]) \<longleftrightarrow> ordered r tr \<and> (\<forall>y \<in> set (gen_deps r x). emittable r y \<longrightarrow> y \<in> set tr)"
  by (auto simp: ordered_def nth_append less_Suc_eq)

text \<open>The generation changes nothing that these are read from.\<close>

definition same_items :: "registry \<Rightarrow> registry \<Rightarrow> bool" where
  "same_items r r' \<longleftrightarrow> gen_opts r' = gen_opts r \<and> emitFeatures r' = emitFeatures r \<and> groupdict r' = groupdict r \<and>
     (\<forall>ft n. map_option (\<lambda>i. (i_elem i, i_required i)) (info_entry ft n r') =
             map_option (\<lambda>i. (i_elem i, i_required i)) (info_entry ft n r)) \<and>
     same_deps (doc r) (doc r')"

interpretation items_frame: loop_frame same_items
  by unfold_locales (auto simp: same_items_def intro: deps_frame.rel_refl deps_frame.rel_trans)

lemma same_items_cases:
  assumes "same_items r r'"
  obtains "info_entry ft n r = None" "info_entry ft n r' = None"
  | i i' where "info_entry ft n r = Some i" "info_entry ft n r' = Some i'"
      "i_elem i' = i_elem i" "i_required i' = i_required i"
proof -
  have "map_option (\<lambda>i. (i_elem i, i_required i)) (info_entry ft n r') =
        map_option (\<lambda>i. (i_elem i, i_required i)) (info_entry ft n r)"
    using assms by (simp add: same_items_def)
  with that show thesis by (cases "info_entry ft n r"; cases "info_entry ft n r'") auto
qed

lemma same_items_facts:
  assumes "same_items r r'"
  shows "gen_deps r' x = gen_deps r x" "group_of r' x = group_of r x" "followup r' x = followup r x"
    "needed r' x = needed r x" "emittable r' x = emittable r x"
proof -
  have g: "reg_lookup r' n (groupdict r') = reg_lookup r n (groupdict r)" for n
    using assms by (simp add: same_items_def reg_lookup_def api_name_def)
  have d: "same_deps (doc r) (doc r')" using assms by (simp add: same_items_def)
  show 1: "gen_deps r' x = gen_deps r x"
    using assms by (rule same_items_cases [of _ _ "fst x" "snd x"])
      (use d in \<open>simp_all add: gen_deps_def same_deps_def Let_def split: ftype.splits\<close>)
  show 2: "group_of r' x = group_of r x"
    using assms by (rule same_items_cases [of _ _ "fst x" "snd x"])
      (use d in \<open>simp_all add: group_of_def same_deps_def g\<close>)
  show "followup r' x = followup r x"
    using d by (simp add: followup_def 2 same_deps_def split: option.splits)
  show 3: "needed r' x = needed r x"
    using assms by (rule same_items_cases [of _ _ "fst x" "snd x"]) (auto simp: needed_def)
  show "emittable r' x = emittable r x" by (simp add: emittable_def 2 3)
qed

lemma info_entry_doc [simp]: "info_entry ft n (r\<lparr>doc := st\<rparr>) = info_entry ft n r" "info_entry ft n (warn w r) = info_entry ft n r"
  by (simp_all add: info_entry_def reg_lookup_def api_name_def split: ftype.splits)

lemma info_entry_declare:
  "info_entry ft' n' (declare_entry ft n r) =
     (if ft' = ft \<and> n' = n then map_option set_declared (info_entry ft n r) else info_entry ft' n' r)"
  by (cases ft; cases ft')
    (simp_all add: info_entry_def declare_entry_def reg_lookup_def api_name_def option.map_comp comp_def)

lemma same_items_declare: "same_items r (declare_entry ft n r)"
  by (auto simp: same_items_def info_entry_declare option.map_comp comp_def deps_frame.rel_refl)

lemma same_items_doc: "same_deps (doc r) st \<Longrightarrow> same_items r (r\<lparr>doc := st\<rparr>)" "same_items r (warn w r)"
  by (simp_all add: same_items_def deps_frame.rel_refl)

text \<open>
  The state between two steps, when the calls for the items of \<open>A\<close> are due: what is declared has
  been emitted or is due, nothing has been emitted twice, and the trace is in order.
\<close>

definition emission :: "(store \<Rightarrow> bool) \<Rightarrow> registry \<Rightarrow> entry set \<Rightarrow> ('g \<times> entry list) gen_state \<Rightarrow> bool" where
  "emission ok r A s \<longleftrightarrow> same_items r (fst s) \<and> ok (doc (fst s)) \<and> distinct (trace s) \<and> A \<inter> set (trace s) = {} \<and>
     (\<forall>x \<in> A \<union> set (trace s). entry_declared (fst s) x) \<and>
     (\<forall>x. entry_declared (fst s) x \<and> emittable r x \<longrightarrow> x \<in> A \<union> set (trace s)) \<and>
     (\<forall>x \<in> set (trace s). emittable r x) \<and> ordered r (trace s)"

definition generates ::
  "(store \<Rightarrow> bool) \<Rightarrow> registry \<Rightarrow> entry set \<Rightarrow> entry set \<Rightarrow> ('g \<times> entry list) gen_state
     \<Rightarrow> ('g \<times> entry list) gen_state res \<Rightarrow> bool" where
  "generates ok r A X s m \<longleftrightarrow> outcome {} m (\<lambda>s'. emission ok r A s' \<and> set (trace s) \<subseteq> set (trace s') \<and>
     (\<forall>x \<in> X. emittable r x \<longrightarrow> x \<in> set (trace s')))"

lemma generates_skip: "emission ok r A s \<Longrightarrow> (\<forall>x \<in> X. emittable r x \<longrightarrow> x \<in> set (trace s)) \<Longrightarrow> generates ok r A X s (Inr s)"
  by (simp add: generates_def)

lemma generates_bind:
  fixes f :: "('g \<times> entry list) gen_state \<Rightarrow> ('g \<times> entry list) gen_state res"
  assumes "generates ok r B X s m"
    and "\<And>t. emission ok r B t \<Longrightarrow> set (trace s) \<subseteq> set (trace t) \<Longrightarrow>
      (\<forall>x \<in> X. emittable r x \<longrightarrow> x \<in> set (trace t)) \<Longrightarrow> generates ok r A Y t (f t)"
  shows "generates ok r A Y s (rbind m f)"
  unfolding generates_def
proof (rule outcome_bind [OF assms(1) [unfolded generates_def]])
  fix t :: "('g \<times> entry list) gen_state" assume t: "emission ok r B t \<and> set (trace s) \<subseteq> set (trace t) \<and> (\<forall>x \<in> X. emittable r x \<longrightarrow> x \<in> set (trace t))"
  then have "generates ok r A Y t (f t)" using assms(2) by blast
  then show "outcome {} (f t) (\<lambda>s'. emission ok r A s' \<and> set (trace s) \<subseteq> set (trace s') \<and>
      (\<forall>x \<in> Y. emittable r x \<longrightarrow> x \<in> set (trace s')))"
    unfolding generates_def by (rule outcome_mono) (use t in blast)
qed

lemma generates_loop:
  assumes "\<And>e t. e \<in> set es \<Longrightarrow> emission ok r A t \<Longrightarrow> generates ok r A (X e) t (f e t)" and "emission ok r A s"
  shows "generates ok r A (\<Union>e \<in> set es. X e) s (for_each f es s)"
  using assms
proof (induction es arbitrary: s)
  case Nil
  then show ?case by (simp add: generates_skip)
next
  case (Cons e es)
  have "generates ok r A (X e) s (f e s)" using Cons.prems by simp
  then have "outcome {} (f e s) (\<lambda>t. generates ok r A (\<Union>e \<in> set es. X e) t (for_each f es t) \<and>
      set (trace s) \<subseteq> set (trace t) \<and> (\<forall>x \<in> X e. emittable r x \<longrightarrow> x \<in> set (trace t)))"
    unfolding generates_def [of _ _ _ "X e"] by (rule outcome_mono) (use Cons in auto)
  then have "outcome {} (rbind (f e s) (for_each f es)) (\<lambda>t. emission ok r A t \<and> set (trace s) \<subseteq> set (trace t) \<and>
      (\<forall>x \<in> X e \<union> (\<Union>e \<in> set es. X e). emittable r x \<longrightarrow> x \<in> set (trace t)))"
    by (rule outcome_bind) (auto simp: generates_def elim!: outcome_mono)
  then show ?case by (simp add: generates_def)
qed

lemma generates_weaken: "generates ok r A X s m \<Longrightarrow> Y \<subseteq> X \<Longrightarrow> generates ok r A Y s m"
  unfolding generates_def by (erule outcome_mono) auto

lemma emission_docs:
  assumes "emission ok r A s"
  shows "k \<in> {''alias'', ''requires'', ''category'', ''bitvalues''} \<Longrightarrow> elem_get (doc (fst s)) a k = elem_get (doc r) a k"
    "t \<in> {''type'', ''enum''} \<Longrightarrow> findall_below (doc (fst s)) a t = findall_below (doc r) a t"
    "elem_text (doc (fst s)) a = elem_text (doc r) a"
    "reg_lookup (fst s) n (groupdict (fst s)) = reg_lookup r n (groupdict r)"
    "emitFeatures (fst s) = emitFeatures r" "gen_opts (fst s) = gen_opts r"
  using assms by (auto simp: emission_def same_items_def same_deps_def reg_lookup_def api_name_def)

lemma emission_change:
  assumes "emission ok r A s" and "same_items (fst s) r'" and "ok (doc r')"
    and "\<And>x. entry_declared r' x = entry_declared (fst s) x"
  shows "emission ok r A (r', snd s)"
  using assms by (auto simp: emission_def intro: items_frame.rel_trans)

lemma emission_declare:
  assumes "emission ok r A s" and "info_entry ft n (fst s) = Some i" and "\<not> i_declared i"
  shows "emission ok r (insert (ft, n) A) (declare_entry ft n (fst s), snd s)"
proof -
  have d: "entry_declared (declare_entry ft n (fst s)) x \<longleftrightarrow> x = (ft, n) \<or> entry_declared (fst s) x" for x
    using assms(2) by (cases x) (auto simp: entry_declared_def info_entry_declare)
  have "\<not> entry_declared (fst s) (ft, n)" using assms(2,3) by (simp add: entry_declared_def)
  with assms(1) d show ?thesis
    unfolding emission_def by (auto intro: items_frame.rel_trans [OF _ same_items_declare])
qed

lemma emission_dropped:
  "emission ok r (insert x A) s \<Longrightarrow> \<not> emittable r x \<Longrightarrow> emission ok r A s"
  by (auto simp: emission_def)

definition callable :: "(store \<Rightarrow> bool) \<Rightarrow> registry \<Rightarrow>
    (ftype \<Rightarrow> pname \<Rightarrow> ('g \<times> entry list) gen_state \<Rightarrow> ('g \<times> entry list) gen_state res) \<Rightarrow> bool" where
  "callable ok r rec \<longleftrightarrow> (\<forall>ft n A s. emission ok r A s \<and> (\<forall>a \<in> A. ((ft, n), a) \<in> (needs r)\<^sup>+) \<longrightarrow>
     generates ok r A {(ft, n)} s (rec ft n s))"

lemma callableD:
  "callable ok r rec \<Longrightarrow> emission ok r A s \<Longrightarrow> \<forall>a \<in> A. ((ft, n), a) \<in> (needs r)\<^sup>+ \<Longrightarrow>
     generates ok r A {(ft, n)} s (rec ft n s)"
  unfolding callable_def by blast

lemma opt_generates:
  assumes "callable ok r rec" and "emission ok r A s" and "\<forall>y \<in> set (opt_entry ft n). \<forall>a \<in> A. (y, a) \<in> (needs r)\<^sup>+"
  shows "generates ok r A (set (opt_entry ft n)) s (generate_opt rec ft n s)"
  using assms by (auto simp: generate_opt_def opt_entry_def intro!: generates_skip intro: callableD)

lemma texts_generates:
  assumes "callable ok r rec" and "emission ok r A s"
    and "\<forall>c \<in> set es. \<forall>a \<in> A. ((ft, elem_text (doc r) c), a) \<in> (needs r)\<^sup>+"
  shows "generates ok r A ((\<lambda>c. (ft, elem_text (doc r) c)) ` set es) s (generate_texts rec ft es s)"
proof -
  have "generates ok r A (\<Union>c \<in> set es. {(ft, elem_text (doc r) c)}) s (generate_texts rec ft es s)"
    unfolding generate_texts_def
  proof (rule generates_loop [OF _ assms(2)])
    fix c and t :: "('a \<times> entry list) gen_state" assume "c \<in> set es" and t: "emission ok r A t"
    with assms show "generates ok r A {(ft, elem_text (doc r) c)} t (rec ft (elem_text (doc (fst t)) c) t)"
      by (auto simp: emission_docs(3) [OF t] intro: callableD)
  qed
  then show ?thesis by (rule generates_weaken) auto
qed

lemma generates_keep: "generates ok r A Y s m \<Longrightarrow> x \<in> set (trace s) \<Longrightarrow> generates ok r A {x} s m"
  unfolding generates_def by (erule outcome_mono) auto

lemma due_deps:
  assumes "\<forall>a \<in> A. (x, a) \<in> (needs r)\<^sup>+" and "needed r x"
    and "y \<in> set (gen_deps r x @ followup r x)" and "a \<in> insert x A"
  shows "(y, a) \<in> (needs r)\<^sup>+"
proof -
  have "(y, x) \<in> needs r" using assms(2,3) by (simp add: needs_def)
  with assms(1,4) show ?thesis by (auto intro: trancl_into_trancl2)
qed

text \<open>The call for an item that is due, when its dependencies have been emitted.\<close>

context generator
begin

lemma call_generates:
  assumes "emission ok r (insert x A) s" and "x \<notin> A" and "call_item c = [x]" and "emittable r x"
    and "\<forall>y \<in> set (gen_deps r x). emittable r y \<longrightarrow> y \<in> set (trace s)"
  shows "generates ok r A {x} s (call (recorded gen) c s)"
proof (cases "gen c (fst s) (fst (snd s))")
  case (Inl e)
  then show ?thesis by (cases s) (auto simp: generates_def call_def recorded_def)
next
  case (Inr h)
  obtain st g' where h: "h = (st, g')" by (cases h)
  have ok: "ok (doc (fst s))" using assms(1) by (simp add: emission_def)
  note k = keeps [OF ok Inr [unfolded h]]
  have m: "call (recorded gen) c s = Inr ((fst s)\<lparr>doc := st\<rparr>, g', trace s @ [x])"
    using Inr h assms(3) by (cases s) (auto simp: call_def recorded_def)
  have "emission ok r A ((fst s)\<lparr>doc := st\<rparr>, g', trace s @ [x])"
    using assms k unfolding emission_def
    by (auto simp: ordered_snoc entry_declared_def intro: items_frame.rel_trans [OF _ same_items_doc(1)])
  then show ?thesis by (auto simp: generates_def m)
qed

lemma emit_generates:
  assumes "emission ok r (insert x A) s" and "x \<notin> A" and "call_item c = [x]" and "emitFeatures r"
    and "emittable r x"
    and "\<forall>y \<in> set (gen_deps r x). emittable r y \<longrightarrow> y \<in> set (trace s)"
  shows "generates ok r A {x} s (emit_call (recorded gen) c s)"
  using call_generates assms emission_docs(5) [OF assms(1)] by (auto simp: emit_call_def)

lemma mark_generates:
  assumes "emission ok r A s"
  shows "outcome {} (mark_group_enums g (fst s)) (\<lambda>r'. emission ok r A (r', snd s))"
proof -
  have "outcome {} (mark_group_enums g (fst s)) (only_doc (fst s))"
    using mark_group_enums_doc [of g "fst s"] by (auto simp: outcome_def split: sum.splits)
  then show ?thesis
  proof (rule outcome_mono)
    fix r' assume "only_doc (fst s) r'"
    then obtain st where st: "r' = (fst s)\<lparr>doc := st\<rparr>" "same_but_required (doc (fst s)) st"
      by (auto simp: only_doc_def)
    have "ok (doc (fst s))" using assms by (simp add: emission_def)
    with st have "ok (doc r')" using marked by simp
    then show "emission ok r A (r', snd s)"
      by (intro emission_change [OF assms])
        (simp_all add: st same_items_doc same_but_required_deps entry_declared_def)
  qed
qed

text \<open>The call for a type, and what follows it.\<close>

lemma finish_generates:
  assumes "emission ok r (insert x A) s" and "x \<notin> A" and "call_item c = [x]" and "emitFeatures r"
    and "emittable r x"
    and "\<forall>y \<in> set (gen_deps r x). emittable r y \<longrightarrow> y \<in> set (trace s)"
    and "callable ok r rec" and "\<forall>y \<in> set (opt_entry FType fo). \<forall>a \<in> A. (y, a) \<in> (needs r)\<^sup>+"
  shows "generates ok r A {x} s (rbind (emit_call (recorded gen) c s) (\<lambda>s. generate_opt rec FType fo s))"
proof (rule generates_bind [OF emit_generates [OF assms(1-6)]])
  fix t :: "('g \<times> entry list) gen_state" assume "emission ok r A t" "\<forall>y \<in> {x}. emittable r y \<longrightarrow> y \<in> set (trace t)"
  then show "generates ok r A {x} t (generate_opt rec FType fo t)"
    using assms(5) by (intro generates_keep [OF opt_generates] assms(7,8)) simp_all
qed

lemma target_generates:
  assumes s: "emission ok r (insert (FType, n) A) s" and A: "(FType, n) \<notin> A"
    and rec: "callable ok r rec" and emit: "emitFeatures r" and x: "needed r (FType, n)"
    and i: "info_entry FType n r = Some i" "i_elem i = i_elem f"
    and d: "\<forall>y \<in> set (gen_deps r (FType, n)). emittable r y \<longrightarrow> y \<in> set (trace s)"
    and R: "\<forall>y \<in> set (followup r (FType, n)). \<forall>a \<in> A. (y, a) \<in> (needs r)\<^sup>+"
  shows "generates ok r A {(FType, n)} s
    (rbind (type_target n (elem_get (doc r) (i_elem f) ''alias'') f (fst s)) (\<lambda>(target, te, r).
       case target of
         None \<Rightarrow> Inr (r, snd s)
       | Some c \<Rightarrow> rbind (emit_call (recorded gen) c (r, snd s))
           (generate_opt rec FType (if elem_get (doc r) te ''category'' = Some ''bitmask''
              then elem_get (doc r) te ''bitvalues'' else None))))"
proof -
  let ?x = "(FType, n)" and ?al = "elem_get (doc r) (i_elem f) ''alias''"
  have finish: "generates ok r A {?x} t (rbind (emit_call (recorded gen) c t)
      (generate_opt rec FType (if elem_get (doc (fst t)) te ''category'' = Some ''bitmask''
              then elem_get (doc (fst t)) te ''bitvalues'' else None)))"
    if "emission ok r (insert ?x A) t" "group_of r ?x = Some te" "call_item c = [?x]" "trace t = trace s" for t c te
    apply (rule finish_generates [OF that(1) A that(3) emit _ _ rec])
    using that d R x by (auto simp: emittable_def) (auto simp: followup_def emission_docs [OF that(1)] opt_entry_def split: if_splits)
  show ?thesis
  proof (cases "elem_get (doc r) (i_elem f) ''category'' = Some ''enum''")
    case False
    then have "group_of r ?x = Some (i_elem f)" by (simp add: group_of_def i)
    with False finish [OF s] show ?thesis by (simp add: type_target_def emission_docs [OF s])
  next
    case True
    then have g: "group_of r ?x = map_option i_elem (reg_lookup r (if ?al \<noteq> None then ?al else n) (groupdict r))"
      by (simp add: group_of_def i)
    note simps = type_target_def emission_docs [OF s] True
    show ?thesis
    proof (cases "reg_lookup r (if ?al \<noteq> None then ?al else n) (groupdict r)")
      case None
      then have "\<not> emittable r ?x" using g by (simp add: emittable_def)
      then have "emission ok r A s" using s by (rule emission_dropped [rotated])
      then have "emission ok r A (warn w (fst s), snd s)" for w
        by (rule emission_change) (use s in \<open>simp_all add: same_items_doc entry_declared_def emission_def\<close>)
      with None \<open>\<not> emittable r ?x\<close> show ?thesis
        by (cases ?al) (simp_all add: simps generates_def)
    next
      case (Some gi)
      have "outcome {} (mark_group_enums gi (fst s)) (\<lambda>r'. emission ok r (insert ?x A) (r', snd s))"
        by (rule mark_generates [OF s])
      then have "generates ok r A {?x} s (rbind (mark_group_enums gi (fst s)) (\<lambda>r'.
          rbind (emit_call (recorded gen) (GenGroup gi n None) (r', snd s))
           (generate_opt rec FType (if elem_get (doc r') (i_elem gi) ''category'' = Some ''bitmask''
              then elem_get (doc r') (i_elem gi) ''bitvalues'' else None))))"
        unfolding generates_def
      proof (rule outcome_bind)
        fix r' assume "emission ok r (insert ?x A) (r', snd s)"
        from finish [OF this, of "i_elem gi" "GenGroup gi n None"] Some g show "outcome {} (rbind (emit_call (recorded gen) (GenGroup gi n None) (r', snd s))
           (generate_opt rec FType (if elem_get (doc r') (i_elem gi) ''category'' = Some ''bitmask''
              then elem_get (doc r') (i_elem gi) ''bitvalues'' else None)))
          (\<lambda>s'. emission ok r A s' \<and> set (trace s) \<subseteq> set (trace s') \<and> (\<forall>x \<in> {?x}. emittable r x \<longrightarrow> x \<in> set (trace s')))"
          by (auto simp: generates_def)
      qed
      then show ?thesis
        using Some g finish [OF s] by (cases ?al) (simp_all add: simps rbind_assoc)
    qed
  qed
qed

lemma generate_type_generates:
  assumes s: "emission ok r (insert (FType, n) A) s" and A: "(FType, n) \<notin> A" "\<forall>a \<in> A. ((FType, n), a) \<in> (needs r)\<^sup>+"
    and rec: "callable ok r rec" and emit: "emitFeatures r"
    and f: "reg_lookup (fst s) n (typedict (fst s)) = Some f" and x: "needed r (FType, n)"
  shows "generates ok r A {(FType, n)} s (generate_type rec (recorded gen) n f s)"
proof -
  let ?x = "(FType, n)" and ?B = "insert (FType, n) A" and ?e = "i_elem f"
  let ?al = "elem_get (doc r) ?e ''alias''" and ?requires = "elem_get (doc r) ?e ''requires''"
  have "info_entry FType n (fst s) = Some (base_info.truncate f)" using f by (simp add: info_entry_def)
  moreover have "same_items r (fst s)" using s by (simp add: emission_def)
  ultimately obtain i where i: "info_entry FType n r = Some i" "i_elem i = ?e"
    by (auto elim: same_items_cases [of r "fst s" FType n])
  have deps: "gen_deps r ?x = opt_entry FType ?al @ opt_entry FType ?requires
      @ map (\<lambda>c. (FType, elem_text (doc r) c)) (findall_below (doc r) ?e ''type'')
      @ map (\<lambda>c. (FEnum, elem_text (doc r) c)) (findall_below (doc r) ?e ''enum'')"
    by (simp add: gen_deps_def i Let_def)
  note R = due_deps [OF A(2) x] and docs = emission_docs [where ok = ok and r = r and A = ?B]
  show ?thesis
    unfolding generate_type_def Let_def emission_docs(1) [OF s, of "''alias''", simplified]
    apply (rule generates_bind [OF opt_generates [OF rec s]])
    subgoal using R deps by simp
    apply (rule generates_bind [OF opt_generates [OF rec]], assumption)
    subgoal using R deps by (simp add: docs)
    apply (rule generates_bind [OF texts_generates [OF rec]], assumption)
    subgoal using R deps by (simp add: docs)
    apply (rule generates_bind [OF texts_generates [OF rec]], assumption)
    subgoal using R deps by (simp add: docs)
    apply (rule target_generates [OF _ A(1) rec emit x i], assumption)
    subgoal by (simp add: deps docs) blast
    subgoal using R by simp
    done
qed

lemma generate_command_generates:
  assumes s: "emission ok r (insert (FCmd, n) A) s" and A: "(FCmd, n) \<notin> A" "\<forall>a \<in> A. ((FCmd, n), a) \<in> (needs r)\<^sup>+"
    and rec: "callable ok r rec" and emit: "emitFeatures r"
    and f: "reg_lookup (fst s) n (cmddict (fst s)) = Some f" and x: "needed r (FCmd, n)"
  shows "generates ok r A {(FCmd, n)} s (generate_command rec (recorded gen) n f s)"
proof -
  let ?x = "(FCmd, n)" and ?B = "insert (FCmd, n) A" and ?e = "i_elem f"
  have "info_entry FCmd n (fst s) = Some (base_info.truncate f)" using f by (simp add: info_entry_def)
  moreover have "same_items r (fst s)" using s by (simp add: emission_def)
  ultimately obtain i where i: "info_entry FCmd n r = Some i" "i_elem i = ?e"
    by (auto elim: same_items_cases [of r "fst s" FCmd n])
  have deps: "gen_deps r ?x = opt_entry FCmd (elem_get (doc r) ?e ''alias'')
      @ map (\<lambda>c. (FType, elem_text (doc r) c)) (findall_below (doc r) ?e ''type'')"
    by (simp add: gen_deps_def i Let_def)
  note R = due_deps [OF A(2) x] and docs = emission_docs [where ok = ok and r = r and A = ?B]
  show ?thesis
    unfolding generate_command_def Let_def emission_docs(1) [OF s, of "''alias''", simplified]
    apply (rule generates_bind [OF opt_generates [OF rec s]])
    subgoal using R deps by simp
    apply (rule generates_bind [OF texts_generates [OF rec]], assumption)
    subgoal using R deps by (simp add: docs)
    apply (rule emit_generates [OF _ A(1) _ emit], assumption)
    subgoal by simp
    subgoal using x by (simp add: emittable_def group_of_def i)
    subgoal by (simp add: deps docs) blast
    done
qed

lemma generate_enum_generates:
  assumes s: "emission ok r (insert (FEnum, n) A) s" and A: "(FEnum, n) \<notin> A" "\<forall>a \<in> A. ((FEnum, n), a) \<in> (needs r)\<^sup>+"
    and rec: "callable ok r rec" and emit: "emitFeatures r"
    and f: "reg_lookup (fst s) n (enumdict (fst s)) = Some f" and x: "needed r (FEnum, n)"
  shows "generates ok r A {(FEnum, n)} s (generate_enum rec (recorded gen) n f s)"
proof -
  let ?x = "(FEnum, n)"
  have "info_entry FEnum n (fst s) = Some (base_info.truncate f)" using f by (simp add: info_entry_def)
  moreover have "same_items r (fst s)" using s by (simp add: emission_def)
  ultimately obtain i where i: "info_entry FEnum n r = Some i" "i_elem i = i_elem f"
    by (auto elim: same_items_cases [of r "fst s" FEnum n])
  have deps: "gen_deps r ?x = opt_entry FEnum (elem_get (doc r) (i_elem f) ''alias'')"
    by (simp add: gen_deps_def i Let_def)
  note R = due_deps [OF A(2) x]
  show ?thesis
    unfolding generate_enum_def Let_def emission_docs(1) [OF s, of "''alias''", simplified]
    apply (rule generates_bind [OF opt_generates [OF rec s]])
    subgoal using R deps by simp
    apply (rule emit_generates [OF _ A(1) _ emit], assumption)
    subgoal by simp
    subgoal using x by (simp add: emittable_def group_of_def i)
    subgoal by (simp add: deps)
    done
qed

lemma generateFeature_generates:
  assumes "emission ok r A s" and "\<forall>a \<in> A. ((ft, n), a) \<in> (needs r)\<^sup>+"
    and r: "emitFeatures r" "requireDepends (gen_opts r)" "acyclic (needs r)"
  shows "generates ok r A {(ft, n)} s (generateFeature (recorded gen) d explicit ft n s)"
  using assms(1,2)
proof (induction d arbitrary: explicit ft n s A)
  case 0
  then show ?case by (simp add: generates_def)
next
  case (Suc d)
  let ?x = "(ft, n)" and ?rec = "generateFeature (recorded gen) d False"
  have x: "?x \<notin> A" using Suc.prems(2) r(3) by (auto simp: acyclic_def)
  have same: "same_items r (fst s)" using Suc.prems(1) by (simp add: emission_def)
  have call: "callable ok r ?rec" using Suc.IH by (auto simp: callable_def)
  show ?case
  proof (cases "info_entry ft n (fst s)")
    case None
    then have "\<not> needed (fst s) ?x" by (simp add: needed_def)
    then have "\<not> emittable r ?x" using same_items_facts(4) [OF same] by (simp add: emittable_def)
    then show ?thesis using None Suc.prems(1) by (simp add: generates_skip)
  next
    case (Some f)
    let ?s = "(declare_entry ft n (fst s), snd s)"
    consider (skip) "\<not> i_required f" | (old) "i_required f" "i_declared f" | (go) "i_required f" "\<not> i_declared f" by blast
    then show ?thesis
    proof cases
      case skip
      then have "\<not> needed (fst s) ?x" using Some by (simp add: needed_def)
      then have "\<not> emittable r ?x" using same_items_facts(4) [OF same] by (simp add: emittable_def)
      then show ?thesis using Some skip Suc.prems(1) by (simp add: generates_skip)
    next
      case old
      then have "entry_declared (fst s) ?x" using Some by (simp add: entry_declared_def)
      then have "emittable r ?x \<longrightarrow> ?x \<in> set (trace s)" using Suc.prems(1) x by (auto simp: emission_def)
      then show ?thesis using Some old Suc.prems(1) by (simp add: generates_skip)
    next
      case go
      have s: "emission ok r (insert ?x A) ?s" by (rule emission_declare [OF Suc.prems(1) Some go(2)])
      have "needed (fst s) ?x" using Some go by (simp add: needed_def)
      then have need: "needed r ?x" using same_items_facts(4) [OF same] by simp
      have "info_entry ft n (fst ?s) = Some (set_declared f)" by (simp add: info_entry_declare Some)
      then have "generates ok r A {?x} ?s (generate_entry ?rec (recorded gen) ft n ?s)"
        using generate_type_generates [of r n A ?s ?rec] generate_command_generates [of r n A ?s ?rec]
          generate_enum_generates [of r n A ?s ?rec] s x Suc.prems(2) call r(1) need
        by (cases ft) (auto simp: generate_entry_def info_entry_def split: option.splits)
      moreover have "requireDepends (gen_opts (fst s))" using r(2) same by (simp add: same_items_def)
      ultimately show ?thesis using Some go by (simp add: generates_def)
    qed
  qed
qed

lemma callable_generateFeature:
  assumes "emitFeatures r" "requireDepends (gen_opts r)" "acyclic (needs r)"
  shows "callable ok r (generateFeature (recorded gen) d explicit)"
  using generateFeature_generates [OF _ _ assms] by (auto simp: callable_def)

lemma interface_generates:
  assumes r: "emitFeatures r" "requireDepends (gen_opts r)" "acyclic (needs r)" and s: "emission ok r {} s"
  shows "generates ok r {} {} s (generateRequiredInterface (recorded gen) d interface s)"
proof -
  have one: "generates ok r {} {} t (generateFeature (recorded gen) d True ft n t)" if "emission ok r {} t" for t ft n
    using generateFeature_generates [OF that _ r] by (rule generates_weaken) simp_all
  have loop: "generates ok r {} {} t (for_each f es t)"
    if "\<And>e u. emission ok r {} u \<Longrightarrow> generates ok r {} {} u (f e u)" and "emission ok r {} t"
    for f es and t :: "('g \<times> entry list) gen_state"
    using generates_loop [of es ok r "{}" "\<lambda>_. {}" f t] that by simp
  show ?thesis
    unfolding generateRequiredInterface_def
    by (rule loop [OF _ s], (rule generates_bind [OF loop], simp_all add: one generates_skip)+)
      (rule loop, simp_all add: one)
qed

end

text \<open>C18: the items of an interface come out once each and in order: when \<^verbatim>\<open>generateRequiredInterface\<close>
  returns, no item was passed to the generator twice, every item was passed after all
  that it depends on (its alias, the type it requires, the types and enums in its
  definition), and the items that were passed are exactly those that are declared and have something to emit.
  The generator is any that keeps the contract; the dependencies must be acyclic.\<close>

theorem generateRequiredInterface_ordered:
  assumes "generator gen ok" and "ok (doc r)" and "emitFeatures r" and "requireDepends (gen_opts r)"
    and "acyclic (needs r)" and "\<forall>x. \<not> entry_declared r x"
    and "generateRequiredInterface (recorded gen) d interface (r, g, []) = Inr (r', g', tr)"
  shows "distinct tr \<and> ordered r tr \<and> (\<forall>x. x \<in> set tr \<longleftrightarrow> entry_declared r' x \<and> emittable r x)"
proof -
  have "emission ok r {} (r, g, [])"
    using assms(2,6) by (simp add: emission_def items_frame.rel_refl ordered_def)
  from generator.interface_generates [OF assms(1,3-5) this, of d interface]
  have "emission ok r {} (r', g', tr)" by (simp add: generates_def assms(7))
  then have "distinct tr" "ordered r tr" "\<forall>x \<in> set tr. entry_declared r' x \<and> emittable r x"
    "\<forall>x. entry_declared r' x \<and> emittable r x \<longrightarrow> x \<in> set tr"
    unfolding emission_def fst_conv snd_conv by blast+
  then show ?thesis by blast
qed

text \<open>A generator that does nothing, and an interface that requires a type whose definition requires another.\<close>

definition silent :: "unit gen" where
  "silent c r g = Inr (doc r, g)"

definition order_example :: registry where
  "order_example = (Registry None)\<lparr>
     doc := [type_node ''A'' [(''requires'', ''B'')] [], type_node ''B'' [] [],
             \<lparr>etag = ''feature'', eattrib = [], etext = None, etail = None, echildren = [3]\<rparr>,
             \<lparr>etag = ''require'', eattrib = [], etext = None, etail = None, echildren = [4]\<rparr>, type_node ''A'' [] []],
     typedict := [(Name (Some ''A''), (TypeInfo 0)\<lparr>i_required := True\<rparr>), (Name (Some ''B''), (TypeInfo 1)\<lparr>i_required := True\<rparr>)],
     emitFeatures := True\<rparr>"

lemma order_example_run:
  "case generateRequiredInterface (recorded silent) 3 2 (order_example, (), []) of
     Inl e \<Rightarrow> False | Inr s \<Rightarrow> trace s = [(FType, Some ''B''), (FType, Some ''A'')]"
  by code_simp

lemma generator_silent: "generator silent (\<lambda>_. True)"
  by unfold_locales (auto simp: silent_def doc_frame.rel_refl deps_frame.rel_refl)

theorem generateRequiredInterface_terminates_witness:
  "generateRequiredInterface silent 3 2 (order_example, ()) \<noteq> Inl RecursionError"
proof -
  have "pending (fst (order_example, ())) < 3" by code_simp
  moreover have "\<forall>c r g. silent c r g \<noteq> Inl RecursionError" by (simp add: silent_def)
  ultimately show ?thesis using generateRequiredInterface_terminates by blast
qed

theorem generateRequiredInterface_ordered_witness:
  "ordered order_example [(FType, Some ''B''), (FType, Some ''A'')]"
proof -
  have n: "needed order_example x \<longleftrightarrow> x \<in> {(FType, Some ''A''), (FType, Some ''B'')}" for x
    by (cases "fst x"; cases x) (auto simp: needed_def info_entry_def reg_lookup_def lookupElementInfo_def
        lookupKey_def order_example_def Registry_def TypeInfo_def BaseInfo_def)
  have d: "gen_deps order_example (FType, Some ''A'') = [(FType, Some ''B'')]"
    "followup order_example (FType, Some ''A'') = []"
    "gen_deps order_example (FType, Some ''B'') = []" "followup order_example (FType, Some ''B'') = []"
    by code_simp+
  have "acyclic (needs order_example)"
    by (rule acyclicI_order [of _ "\<lambda>x. if x = (FType, Some ''A'') then 0 else (1::nat)"])
      (use d in \<open>auto simp: needs_def n\<close>)
  moreover have "\<forall>x. \<not> entry_declared order_example x"
    by (auto simp: entry_declared_def info_entry_def reg_lookup_def lookupElementInfo_def lookupKey_def
        order_example_def Registry_def TypeInfo_def BaseInfo_def base_info.defs split: ftype.splits if_splits)
  moreover have "emitFeatures order_example" "requireDepends (gen_opts order_example)" by code_simp+
  moreover obtain r' g' where "generateRequiredInterface (recorded silent) 3 2 (order_example, (), []) =
      Inr (r', g', [(FType, Some ''B''), (FType, Some ''A'')])"
    using order_example_run by (auto split: sum.splits)
  ultimately show ?thesis using generateRequiredInterface_ordered [OF generator_silent] by blast
qed

end
