(* ===== verification/RegApiGen.thy ===== *)
theory RegApiGen
  imports RegOrder "HOL-Library.List_Lexorder" "HOL-Library.Char_ord"
begin

text \<open>
  The driver of a generation, \<^verbatim>\<open>apiGen\<close> of \<^verbatim>\<open>src/tools/vkex/reg.py\<close>, with the selection of the
  versions and extensions, the three passes over them, the removal of references to what is not
  required, and \<^verbatim>\<open>apiReset\<close>. A loop over a dictionary is a loop over the keys it has at the start;
  no loop changes the keys of the dictionary it runs over.
\<close>

section \<open>References to what is not required\<close>

definition supported_name :: "'b base_info_scheme info_dict \<Rightarrow> string \<Rightarrow> bool" where
  "supported_name supported api = (case map_of supported (Name (Some api)) of None \<Rightarrow> False | Some i \<Rightarrow> i_required i)"

definition strip_attribute :: "string \<Rightarrow> 'b base_info_scheme info_dict \<Rightarrow> addr \<Rightarrow> store \<Rightarrow> store" where
  "strip_attribute attribute supported e st =
     (case elem_get st e attribute of
        None \<Rightarrow> st
      | Some attribstring \<Rightarrow>
          let names = py_split CHR '','' attribstring; apis = filter (supported_name supported) names in
          if \<exists>api \<in> set names. \<not> supported_name supported api
          then elem_set st e attribute (py_join '','' apis) else st)"

definition stripUnsupportedAPIs ::
  "'a base_info_scheme info_dict \<Rightarrow> string \<Rightarrow> 'b base_info_scheme info_dict \<Rightarrow> store \<Rightarrow> store" where
  "stripUnsupportedAPIs dictionary attribute supported st =
     fold (\<lambda>(key, info). strip_attribute attribute supported (i_elem info)) dictionary st"

text \<open>Here a name that is not in the dictionary is a \<^verbatim>\<open>KeyError\<close>.\<close>

definition strip_list :: "'b base_info_scheme info_dict \<Rightarrow> pname list \<Rightarrow> pname list res" where
  "strip_list supported names =
     (if \<exists>api \<in> set names. map_of supported (Name api) = None then Inl KeyError
      else Inr (filter (\<lambda>api. i_required (the (map_of supported (Name api)))) names))"

definition stripUnsupportedAPIsFromList ::
  "(string, pname list) dict \<Rightarrow> 'b base_info_scheme info_dict \<Rightarrow> (string, pname list) dict res" where
  "stripUnsupportedAPIsFromList dictionary supported =
     for_each (\<lambda>(key, names) d. rbind (strip_list supported names) (\<lambda>apis. Inr (AList.update key apis d)))
       dictionary dictionary"

text \<open>
  \<^verbatim>\<open>list.sort()\<close> on names: strings are compared by code points, and a comparison with \<^verbatim>\<open>None\<close>, which
  any sort of two or more names with a missing one makes, raises.
\<close>

definition sort_names :: "pname list \<Rightarrow> pname list res" where
  "sort_names names =
     (if length names \<le> 1 then Inr names
      else if None \<in> set names then Inl TypeError
      else Inr (map Some (sort (map the names))))"

definition extend_parents :: "store \<Rightarrow> type_info \<Rightarrow> (string, pname list) dict \<Rightarrow> (string, pname list) dict" where
  "extend_parents st info d =
     (let e = i_elem info in
      if i_required info \<and> elem_get st e ''category'' = Some ''struct''
      then (case elem_get st e ''structextends'' of
              None \<Rightarrow> d
            | Some parents \<Rightarrow>
                fold (\<lambda>parent d. AList.update parent
                        ((case map_of d parent of None \<Rightarrow> [] | Some l \<Rightarrow> l) @ [elem_get st e ''name'']) d)
                  (py_split CHR '','' parents) d)
      else d)"

definition tagValidExtensionStructs :: "registry \<Rightarrow> registry res" where
  "tagValidExtensionStructs r =
     (let d = fold (\<lambda>(key, info). extend_parents (doc r) info) (typedict r) (validextensionstructs r) in
      rbind (for_each (\<lambda>(parent, names) d. rbind (sort_names names) (\<lambda>ns. Inr (AList.update parent ns d))) d d) (\<lambda>d.
      Inr (r\<lparr>validextensionstructs := d\<rparr>)))"

section \<open>Selection\<close>

definition select_version :: "dkey \<Rightarrow> registry \<Rightarrow> registry res" where
  "select_version key r =
     (case map_of (apidict r) key of
        None \<Rightarrow> Inl KeyError
      | Some fi \<Rightarrow>
          if \<not> apiNameMatch (api_to_match r) (elem_get (doc r) (i_elem fi) ''api'') then Inr r
          else (case f_name fi of
                  None \<Rightarrow> Inl TypeError
                | Some name \<Rightarrow>
                    if \<not> re_match (versions (gen_opts r)) name then Inr r
                    else let emit = re_match (emitversions (gen_opts r)) name in
                         Inr (r\<lparr>apidict := dict_adjust key (\<lambda>f. f\<lparr>f_emit := emit\<rparr>) (apidict r),
                                genFeatures := AList.update (Some name) (fi\<lparr>f_emit := emit\<rparr>) (genFeatures r)\<rparr>)))"

definition select_versions :: "registry \<Rightarrow> registry res" where
  "select_versions r = for_each select_version (map fst (apidict r)) (r\<lparr>genFeatures := []\<rparr>)"

definition included_by_default :: "registry \<Rightarrow> feature_info \<Rightarrow> bool" where
  "included_by_default r ei =
     apiNameMatch (defaultExtensions (gen_opts r)) (elem_get (doc r) (i_elem ei) ''supported'')"

definition extension_included :: "registry \<Rightarrow> feature_info \<Rightarrow> string \<Rightarrow> bool" where
  "extension_included r ei name =
     (let include = included_by_default r ei;
          include = (if re_match (addExtensions (gen_opts r)) name
                     then apiNameMatch (api_to_match r) (elem_get (doc r) (i_elem ei) ''supported'')
                     else include)
      in if re_match (removeExtensions (gen_opts r)) name then False else include)"

definition add_removed_name :: "pname \<Rightarrow> pname list option \<Rightarrow> pname list option" where
  "add_removed_name name removed = map_option (List.insert name) removed"

definition select_extension :: "dkey \<Rightarrow> registry \<Rightarrow> registry res" where
  "select_extension key r =
     (case map_of (extdict r) key of
        None \<Rightarrow> Inl KeyError
      | Some ei \<Rightarrow>
          (case f_name ei of
             None \<Rightarrow> Inl TypeError
           | Some name \<Rightarrow>
               let include = extension_included r ei name;
                   r = (if re_match (removeExtensions (gen_opts r)) name \<and> included_by_default r ei
                        then r\<lparr>removedExtensionNames := add_removed_name (Some name) (removedExtensionNames r)\<rparr> else r)
               in if \<not> include then Inr r
                  else let emit = re_match (emitExtensions (gen_opts r)) name in
                       Inr (r\<lparr>extdict := dict_adjust key (\<lambda>f. f\<lparr>f_emit := emit\<rparr>) (extdict r),
                              genFeatures := AList.update (Some name) (ei\<lparr>f_emit := emit\<rparr>) (genFeatures r),
                              requiredextensions := requiredextensions r @ [Some name]\<rparr>)))"

definition select_extensions :: "registry \<Rightarrow> registry res" where
  "select_extensions r =
     for_each select_extension (map fst (sort_key (\<lambda>x. f_number (snd x)) (extdict r)))
       (r\<lparr>removedExtensionNames := Some []\<rparr>)"

text \<open>The keys that a pattern matches are emitted; only strings can be matched.\<close>

definition set_emit :: "rx \<Rightarrow> (bool \<Rightarrow> 'i \<Rightarrow> 'i) \<Rightarrow> 'i info_dict \<Rightarrow> 'i info_dict res" where
  "set_emit pat put d =
     for_each (\<lambda>key d. case key of
                 Name (Some n) \<Rightarrow> Inr (dict_adjust key (put (re_match pat n)) d)
               | _ \<Rightarrow> Inl TypeError) (map fst d) d"

definition select_spirv :: "registry \<Rightarrow> registry res" where
  "select_spirv r =
     rbind (set_emit (emitSpirv (gen_opts r)) (\<lambda>b i. i\<lparr>s_emit := b\<rparr>) (spirvextdict r)) (\<lambda>exts.
     rbind (set_emit (emitSpirv (gen_opts r)) (\<lambda>b i. i\<lparr>s_emit := b\<rparr>) (spirvcapdict r)) (\<lambda>caps.
     Inr (r\<lparr>spirvextdict := exts, spirvcapdict := caps\<rparr>)))"

definition select_formats :: "registry \<Rightarrow> registry res" where
  "select_formats r =
     rbind (set_emit (emitFormats (gen_opts r)) (\<lambda>b i. i\<lparr>c_emit := b\<rparr>) (formatsdict r)) (\<lambda>fmts.
     Inr (r\<lparr>formatsdict := fmts\<rparr>))"

definition order_features :: "registry \<Rightarrow> pname list res" where
  "order_features r =
     (case sortProcedure (gen_opts r) of
        None \<Rightarrow> Inr (map fst (genFeatures r))
      | Some proc \<Rightarrow> proc (doc r) (map fst (genFeatures r)) (genFeatures r))"

section \<open>The passes\<close>

definition tag_feature :: "(string \<Rightarrow> string list option) \<Rightarrow> nat \<Rightarrow> feature_info \<Rightarrow> registry \<Rightarrow> registry res" where
  "tag_feature parse d f r =
     (let e = i_elem f; name = f_name f; api = apiname (gen_opts r); prof = profile (gen_opts r) in
      rbind (fillFeatureDictionary parse d e name api prof r) (\<lambda>r.
      rbind (requireFeatures parse d e name api prof r) (\<lambda>r.
      rbind (deprecateFeatures e name api prof r) (\<lambda>r.
      assignAdditionalValidity e api prof r))))"

definition untag_feature :: "nat \<Rightarrow> feature_info \<Rightarrow> registry \<Rightarrow> registry res" where
  "untag_feature d f r =
     (let e = i_elem f; api = apiname (gen_opts r); prof = profile (gen_opts r) in
      rbind (removeFeatures d e (f_name f) api prof r) (\<lambda>r.
      removeAdditionalValidity e api prof r))"

definition strip_references :: "registry \<Rightarrow> registry res" where
  "strip_references r =
     (let st = stripUnsupportedAPIs (typedict r) ''structextends'' (typedict r) (doc r);
          st = stripUnsupportedAPIs (cmddict r) ''successcodes'' (enumdict r) st;
          st = stripUnsupportedAPIs (cmddict r) ''errorcodes'' (enumdict r) st
      in rbind (stripUnsupportedAPIsFromList (validextensionstructs r) (typedict r)) (\<lambda>d.
         Inr (r\<lparr>doc := st, validextensionstructs := d\<rparr>)))"

text \<open>Passes 1 and 2: everything up to the generation.\<close>

definition tag_passes :: "(string \<Rightarrow> string list option) \<Rightarrow> nat \<Rightarrow> pname list \<Rightarrow> registry \<Rightarrow> registry res" where
  "tag_passes parse d names r =
     rbind (for_each (\<lambda>name r. rbind (feature_of (genFeatures r) name) (\<lambda>f. tag_feature parse d f r)) names r) (\<lambda>r.
     rbind (for_each (\<lambda>name r. rbind (feature_of (genFeatures r) name) (\<lambda>f. untag_feature d f r)) names r) (\<lambda>r.
     rbind (strip_references r) tagValidExtensionStructs))"

text \<open>Pass 3.\<close>

definition generate_interface :: "'g gen \<Rightarrow> nat \<Rightarrow> pname \<Rightarrow> 'g gen_state \<Rightarrow> 'g gen_state res" where
  "generate_interface gen d name s =
     rbind (feature_of (genFeatures (fst s)) name) (\<lambda>f.
     let emit = f_emit f; s = ((fst s)\<lparr>emitFeatures := emit\<rparr>, snd s) in
     rbind (call gen (BeginFeature (i_elem f) emit) s) (\<lambda>s.
     rbind (generateRequiredInterface gen d (i_elem f) s) (\<lambda>s.
     call gen EndFeature s)))"

definition generate_extras ::
  "'g gen \<Rightarrow> spirv_info list \<Rightarrow> spirv_info list \<Rightarrow> cond_info list \<Rightarrow> 'g gen_state \<Rightarrow> 'g gen_state res" where
  "generate_extras gen spirvexts spirvcaps formats s =
     rbind (for_each (\<lambda>i. generateSpirv gen (Some i)) spirvexts s) (\<lambda>s.
     rbind (for_each (\<lambda>i. generateSpirv gen (Some i)) spirvcaps s) (\<lambda>s.
     rbind (for_each (\<lambda>i. generateFormat gen (Some i)) formats s) (\<lambda>s.
     rbind (for_each (generateSyncStage gen) (map snd (syncstagedict (fst s))) s) (\<lambda>s.
     rbind (for_each (generateSyncAccess gen) (map snd (syncaccessdict (fst s))) s) (\<lambda>s.
     for_each (generateSyncPipeline gen) (map snd (syncpipelinedict (fst s))) s)))))"

text \<open>Everything that \<^verbatim>\<open>apiGen\<close> does before the generator is called.\<close>

definition select_all :: "registry \<Rightarrow> registry res" where
  "select_all r = rbind (rbind (select_versions r) select_extensions) (\<lambda>r. rbind (select_spirv r) select_formats)"

definition apiGen :: "(string \<Rightarrow> string list option) \<Rightarrow> 'g gen \<Rightarrow> nat \<Rightarrow> 'g gen_state \<Rightarrow> 'g gen_state res" where
  "apiGen parse gen d s =
     rbind (select_all (fst s)) (\<lambda>r.
     rbind (order_features r) (\<lambda>orderedFeatures.
     rbind (tag_passes parse d orderedFeatures r) (\<lambda>r.
     rbind (call gen BeginFile (r, snd s)) (\<lambda>s.
     rbind (for_each (generate_interface gen d) orderedFeatures s) (\<lambda>s.
     rbind (generate_extras gen (map snd (spirvextdict r)) (map snd (spirvcapdict r)) (map snd (formatsdict r)) s) (\<lambda>s.
     call gen EndFile s))))))"

section \<open>\<open>apiReset\<close>\<close>

definition map_infos :: "('i \<Rightarrow> 'i) \<Rightarrow> 'i info_dict \<Rightarrow> 'i info_dict" where
  "map_infos f d = map (\<lambda>(k, i). (k, f i)) d"

definition apiReset :: "registry \<Rightarrow> registry" where
  "apiReset r = r\<lparr>typedict := map_infos resetState_validity (typedict r), enumdict := map_infos resetState (enumdict r),
     cmddict := map_infos resetState_validity (cmddict r), apidict := map_infos resetState (apidict r)\<rparr>"

section \<open>Stripping\<close>

text \<open>The names of a list that are supported, as the attribute that lists them.\<close>

definition kept_names :: "'b base_info_scheme info_dict \<Rightarrow> string \<Rightarrow> string" where
  "kept_names supported s = py_join '','' (filter (supported_name supported) (py_split CHR '','' s))"

lemma kept_names_all:
  "\<forall>api \<in> set (py_split CHR '','' s). supported_name supported api \<Longrightarrow> kept_names supported s = s"
proof -
  assume "\<forall>api \<in> set (py_split CHR '','' s). supported_name supported api"
  then have "filter (supported_name supported) (py_split CHR '','' s) = py_split CHR '','' s" by simp
  then show ?thesis by (simp only: kept_names_def py_join_split)
qed

lemma split_kept_names:
  "filter (supported_name supported) (py_split CHR '','' s) \<noteq> [] \<Longrightarrow>
     py_split CHR '','' (kept_names supported s) = filter (supported_name supported) (py_split CHR '','' s)"
  unfolding kept_names_def by (rule py_split_join) (auto dest: py_split_no_sep)

lemma kept_names_idem [simp]: "kept_names supported (kept_names supported s) = kept_names supported s"
proof (cases "filter (supported_name supported) (py_split CHR '','' s) = []")
  case True
  then have "kept_names supported s = []" by (simp add: kept_names_def)
  then show ?thesis by (simp add: kept_names_def)
next
  case False
  then show ?thesis using split_kept_names [OF False] by (simp add: kept_names_def [of _ "kept_names supported s"])
    (simp add: kept_names_def)
qed

lemma elem_get_strip_attribute:
  "elem_get (strip_attribute attr supported e st) a k =
     (if a = e \<and> k = attr then map_option (kept_names supported) (elem_get st e attr) else elem_get st a k)"
proof (cases "elem_get st e attr")
  case None
  then show ?thesis by (auto simp: strip_attribute_def)
next
  case (Some s)
  then have "e < length st" using node_out by fastforce
  then show ?thesis using Some kept_names_all [of s supported]
    by (cases "\<forall>api \<in> set (py_split CHR '','' s). supported_name supported api")
      (auto simp: strip_attribute_def kept_names_def Let_def)
qed

lemma strip_attribute_step: "attr \<noteq> ''name'' \<Longrightarrow> doc_step st (strip_attribute attr supported e st)"
  by (auto simp: strip_attribute_def Let_def doc_frame.rel_refl intro: doc_step_set split: option.splits)

text \<open>C19: after \<^verbatim>\<open>stripUnsupportedAPIs\<close> the attribute of every element of the dictionary lists the supported
  and required names among those that it listed, in the same order, however often an element occurs in
  the dictionary; nothing else of the document changes. A non-empty list reads back as exactly these names.\<close>

theorem stripUnsupportedAPIs_correct:
  "elem_get (stripUnsupportedAPIs d attr supported st) a k =
     (if k = attr \<and> a \<in> i_elem ` snd ` set d then map_option (kept_names supported) (elem_get st a attr)
      else elem_get st a k) \<and>
   py_split CHR '','' (kept_names supported s) =
     (let names = filter (supported_name supported) (py_split CHR '','' s) in if names = [] then [[]] else names)"
proof
  show "elem_get (stripUnsupportedAPIs d attr supported st) a k =
     (if k = attr \<and> a \<in> i_elem ` snd ` set d then map_option (kept_names supported) (elem_get st a attr)
      else elem_get st a k)"
    unfolding stripUnsupportedAPIs_def
  proof (induction d arbitrary: st)
    case (Cons x d)
    then show ?case
      by (cases x) (auto simp: elem_get_strip_attribute option.map_comp comp_def)
  qed simp
  show "py_split CHR '','' (kept_names supported s) =
     (let names = filter (supported_name supported) (py_split CHR '','' s) in if names = [] then [[]] else names)"
    using split_kept_names [of supported s] by (auto simp: Let_def kept_names_def)
qed

lemma stripUnsupportedAPIs_step:
  "attr \<noteq> ''name'' \<Longrightarrow> doc_step st (stripUnsupportedAPIs d attr supported st)"
  unfolding stripUnsupportedAPIs_def
proof (induction d arbitrary: st)
  case (Cons x d)
  then show ?case
    by (cases x) (auto intro: doc_frame.rel_trans [OF strip_attribute_step])
qed (simp add: doc_frame.rel_refl)

section \<open>Lists of extending structures\<close>

text \<open>The required structures that extend a parent, in the order of the dictionary.\<close>

definition extending :: "registry \<Rightarrow> string \<Rightarrow> type_info \<Rightarrow> bool" where
  "extending r parent i \<longleftrightarrow> i_required i \<and> elem_get (doc r) (i_elem i) ''category'' = Some ''struct'' \<and>
     (\<exists>s. elem_get (doc r) (i_elem i) ''structextends'' = Some s \<and> parent \<in> set (py_split CHR '','' s))"

definition names_of :: "(string, pname list) dict \<Rightarrow> string \<Rightarrow> pname list" where
  "names_of d parent = (case map_of d parent of None \<Rightarrow> [] | Some l \<Rightarrow> l)"

lemma names_of_update [simp]: "names_of (AList.update k l d) p = (if p = k then l else names_of d p)"
  by (simp add: names_of_def)

lemma set_extend_parents:
  "set (names_of (extend_parents (doc r) i d) parent) =
     set (names_of d parent) \<union> (if extending r parent i then {elem_get (doc r) (i_elem i) ''name''} else {})"
proof -
  have "set (names_of (fold (\<lambda>parent d. AList.update parent
            ((case map_of d parent of None \<Rightarrow> [] | Some l \<Rightarrow> l) @ [n]) d) ps d) parent) =
      set (names_of d parent) \<union> (if parent \<in> set ps then {n} else {})" for ps n
    by (induction ps arbitrary: d) (auto simp: names_of_def)
  then show ?thesis by (auto simp: extend_parents_def Let_def extending_def split: option.splits)
qed

lemma set_extend_all:
  "set (names_of (fold (\<lambda>(key, info). extend_parents (doc r) info) ts d) parent) =
     set (names_of d parent) \<union> {elem_get (doc r) (i_elem i) ''name'' | i. i \<in> snd ` set ts \<and> extending r parent i}"
proof (induction ts arbitrary: d)
  case (Cons x ts)
  then show ?case by (cases x) (auto simp: set_extend_parents)
qed simp

lemma wf_extend_all: "wf_dict d \<Longrightarrow> wf_dict (fold (\<lambda>(key, info). extend_parents st info) ts d)"
proof (induction ts arbitrary: d)
  case (Cons x ts)
  have "wf_dict (fold (\<lambda>parent d. AList.update parent
            ((case map_of d parent of None \<Rightarrow> [] | Some l \<Rightarrow> l) @ [n]) d) ps e)" if "wf_dict e" for ps n e
    using that by (induction ps arbitrary: e) auto
  then have "wf_dict (extend_parents st i d)" for i
    using Cons.prems by (auto simp: extend_parents_def Let_def split: option.splits)
  with Cons.IH show ?case by (cases x) simp
qed simp

definition names_sorted :: "pname list \<Rightarrow> bool" where
  "names_sorted ns \<longleftrightarrow> length ns \<le> 1 \<or> None \<notin> set ns \<and> sorted (map the ns)"

lemma sort_names_Inr: "sort_names ns = Inr ms \<Longrightarrow> set ms = set ns \<and> length ms = length ns \<and> names_sorted ms"
proof -
  assume s: "sort_names ns = Inr ms"
  have "Some ` the ` set ns = set ns" if "None \<notin> set ns"
    using that by (induction ns) auto
  with s show ?thesis
    by (auto simp: sort_names_def names_sorted_def comp_def simp flip: image_image split: if_splits)
qed

lemma sort_all:
  assumes "for_each (\<lambda>(parent, names) d. rbind (sort_names names) (\<lambda>ns. Inr (AList.update parent ns d))) xs d = Inr d'"
    and "distinct (map fst xs)"
  shows "names_of d' p = (case map_of xs p of None \<Rightarrow> names_of d p | Some l \<Rightarrow> projr (sort_names l)) \<and>
    (\<forall>l. map_of xs p = Some l \<longrightarrow> \<not> isl (sort_names l))"
  using assms
proof (induction xs arbitrary: d)
  case (Cons x xs)
  obtain k l where x: "x = (k, l)" by (cases x)
  with Cons.prems obtain ns where ns: "sort_names l = Inr ns"
    and rest: "for_each (\<lambda>(parent, names) d. rbind (sort_names names) (\<lambda>ns. Inr (AList.update parent ns d))) xs
      (AList.update k ns d) = Inr d'" by (auto elim!: rbind_InrE)
  have k: "map_of xs k = None" using Cons.prems(2) x by (simp add: map_of_eq_None_keys)
  from Cons.IH [OF rest] Cons.prems(2) k ns show ?case by (auto simp: x split: option.splits)
qed simp

text \<open>When \<^verbatim>\<open>tagValidExtensionStructs\<close> returns, the list of every parent has the names of exactly the
  required structures that name it in \<^verbatim>\<open>structextends\<close>, besides those that it had, and is sorted; nothing
  else of the registry changes.\<close>

theorem tagValidExtensionStructs_correct:
  assumes "tagValidExtensionStructs r = Inr r'" and "wf_dict (validextensionstructs r)"
  shows "names_sorted (names_of (validextensionstructs r') parent) \<and>
    set (names_of (validextensionstructs r') parent) = set (names_of (validextensionstructs r) parent) \<union>
      {elem_get (doc r) (i_elem i) ''name'' | i. i \<in> snd ` set (typedict r) \<and> extending r parent i} \<and>
    r' = r\<lparr>validextensionstructs := validextensionstructs r'\<rparr>"
proof -
  let ?d = "fold (\<lambda>(key, info). extend_parents (doc r) info) (typedict r) (validextensionstructs r)"
  obtain d' where d': "for_each (\<lambda>(parent, names) d. rbind (sort_names names) (\<lambda>ns. Inr (AList.update parent ns d))) ?d ?d = Inr d'"
    and r': "r' = r\<lparr>validextensionstructs := d'\<rparr>"
    using assms(1) by (auto simp: tagValidExtensionStructs_def Let_def elim!: rbind_InrE)
  have "distinct (map fst ?d)" using wf_extend_all [OF assms(2)] by (simp add: wf_dict_def)
  note all = sort_all [OF d' this, of parent]
  show ?thesis
  proof (cases "map_of ?d parent")
    case None
    then have "names_of ?d parent = []" "names_of d' parent = []" using all by (simp_all add: names_of_def)
    then show ?thesis using set_extend_all [of r "typedict r" "validextensionstructs r" parent]
      by (simp add: r' names_sorted_def)
  next
    case (Some l)
    then obtain ns where "sort_names l = Inr ns" "names_of d' parent = ns" "names_of ?d parent = l"
      using all by (cases "sort_names l") (auto simp: names_of_def)
    then show ?thesis using sort_names_Inr [of l ns] set_extend_all [of r "typedict r" "validextensionstructs r" parent]
      by (simp add: r')
  qed
qed

section \<open>Reset\<close>

lemma map_infos_simps [simp]:
  "map fst (map_infos f d) = map fst d" "map_of (map_infos f d) k = map_option f (map_of d k)"
  "map_infos f (map_infos g d) = map_infos (f \<circ> g) d"
  by (auto simp: map_infos_def map_of_map comp_def case_prod_beta)

lemma lookup_map_infos [simp]: "lookupElementInfo a n (map_infos f d) = map_option f (lookupElementInfo a n d)"
  by (auto simp: lookupElementInfo_def lookupKey_def)

lemma resetState_simps [simp]:
  "\<not> i_required (resetState i)" "\<not> i_declared (resetState i)" "i_elem (resetState i) = i_elem i"
  "\<not> i_required (resetState_validity t)" "\<not> i_declared (resetState_validity t)" "i_elem (resetState_validity t) = i_elem t"
  "resetState \<circ> resetState = resetState" "resetState_validity \<circ> resetState_validity = resetState_validity"
  by (auto simp: resetState_def resetState_validity_def)

text \<open>\<^verbatim>\<open>apiReset\<close> undoes the tagging and the generation: no type, enum or command is required or declared
  any more, all are still defined by the same elements, and every entry is pending again; a second reset changes nothing.\<close>

theorem apiReset_clears:
  "\<not> item_required (apiReset r) x \<and> \<not> entry_declared (apiReset r) y \<and> item_elem (apiReset r) = item_elem r \<and>
   pending (apiReset r) = length (typedict r) + length (enumdict r) + length (cmddict r) \<and>
   apiReset (apiReset r) = apiReset r"
proof (intro conjI)
  have l: "reg_lookup (apiReset r) n d = reg_lookup r n d" for n and d :: "'a info_dict"
    by (simp add: reg_lookup_def api_name_def apiReset_def)
  show "\<not> item_required (apiReset r) x"
    by (cases x) (auto simp: info_required_def reg_lookup_def apiReset_def split: option.splits)
  show "\<not> entry_declared (apiReset r) y"
    by (auto simp: entry_declared_def info_entry_def reg_lookup_def apiReset_def split: ftype.splits)
  show "item_elem (apiReset r) = item_elem r"
  proof
    show "item_elem (apiReset r) z = item_elem r z" for z
      by (cases z) (simp_all add: reg_lookup_def apiReset_def api_name_def option.map_comp comp_def)
  qed
  have u: "undeclared (map_infos f d) = length d" if "\<And>i. \<not> i_declared (f i)" for f d
    using that by (auto simp: undeclared_def map_infos_def filter_map comp_def case_prod_beta)
  show "pending (apiReset r) = length (typedict r) + length (enumdict r) + length (cmddict r)"
    by (simp add: pending_def apiReset_def u)
  show "apiReset (apiReset r) = apiReset r" by (simp add: apiReset_def)
qed

section \<open>What is selected\<close>

definition included :: "registry \<Rightarrow> feature_info \<Rightarrow> bool" where
  "included r e \<longleftrightarrow> (\<exists>n. f_name e = Some n \<and> extension_included r e n)"

definition taken_out :: "registry \<Rightarrow> feature_info \<Rightarrow> bool" where
  "taken_out r e \<longleftrightarrow> (\<exists>n. f_name e = Some n \<and> re_match (removeExtensions (gen_opts r)) n \<and> included_by_default r e)"

lemma included_cong:
  "doc r' = doc r \<Longrightarrow> gen_opts r' = gen_opts r \<Longrightarrow> included r' = included r \<and> taken_out r' = taken_out r"
  by (auto simp: included_def taken_out_def extension_included_def included_by_default_def api_to_match_def fun_eq_iff Let_def)

definition selected_exts :: "registry \<Rightarrow> (dkey \<times> feature_info) list \<Rightarrow> registry \<Rightarrow> bool" where
  "selected_exts r xs r' \<longleftrightarrow> doc r' = doc r \<and> gen_opts r' = gen_opts r \<and>
     requiredextensions r' = requiredextensions r @ map f_name (filter (included r) (map snd xs)) \<and>
     dom (map_of (genFeatures r')) = dom (map_of (genFeatures r)) \<union> set (map f_name (filter (included r) (map snd xs))) \<and>
     (\<forall>ns. removedExtensionNames r = Some ns \<longrightarrow>
        (\<exists>ms. removedExtensionNames r' = Some ms \<and> set ms = set ns \<union> set (map f_name (filter (taken_out r) (map snd xs)))))"

lemma select_one:
  assumes "map_of (extdict r) k = Some e" and "select_extension k r = Inr s"
  shows "selected_exts r [(k, e)] s \<and> (\<forall>k'. k' \<noteq> k \<longrightarrow> map_of (extdict s) k' = map_of (extdict r) k')"
proof (cases "f_name e")
  case None
  with assms show ?thesis by (simp add: select_extension_def)
next
  case (Some n)
  with assms show ?thesis
    by (auto simp: select_extension_def selected_exts_def included_def taken_out_def Let_def add_removed_name_def
        split: if_splits)
qed

lemma select_loop:
  assumes "for_each select_extension (map fst xs) r = Inr r'" and "distinct (map fst xs)"
    and "\<forall>(k, e) \<in> set xs. map_of (extdict r) k = Some e"
  shows "selected_exts r xs r'"
  using assms
proof (induction xs arbitrary: r)
  case Nil
  then show ?case by (simp add: selected_exts_def)
next
  case (Cons x xs)
  obtain k e where x: "x = (k, e)" by (cases x)
  with Cons.prems(1) obtain s where s: "select_extension k r = Inr s" "for_each select_extension (map fst xs) s = Inr r'"
    by (auto elim!: rbind_InrE)
  have "map_of (extdict r) k = Some e" using Cons.prems(3) x by simp
  note one = select_one [OF this s(1)]
  have "map_of (extdict s) k' = Some e'" if "(k', e') \<in> set xs" for k' e'
  proof -
    have "k' \<noteq> k" using Cons.prems(2) that x by force
    then show ?thesis using one Cons.prems(3) that by fastforce
  qed
  then have "selected_exts s xs r'" using Cons.IH [OF s(2)] Cons.prems(2) by auto
  moreover have "included s = included r" "taken_out s = taken_out r"
    using one included_cong [of s r] by (simp_all add: selected_exts_def)
  ultimately show ?case using one unfolding selected_exts_def x
    by auto
qed

text \<open>C20: the extensions that \<^verbatim>\<open>apiGen\<close> selects are those that the pattern of additions matches and the API
  supports, and those that it does not match and are included by default, less all that the pattern of
  removals matches; they are required in the order of their numbers. Exactly the extensions that are included
  by default and match the pattern of removals are remembered as removed.\<close>

theorem select_extensions_correct:
  assumes "select_extensions r = Inr r'" and "wf_dict (extdict r)"
  shows "dom (map_of (genFeatures r')) = dom (map_of (genFeatures r)) \<union>
      f_name ` {e \<in> snd ` set (extdict r). \<exists>n. f_name e = Some n \<and> \<not> re_match (removeExtensions (gen_opts r)) n \<and>
        apiNameMatch (if re_match (addExtensions (gen_opts r)) n then api_to_match r else defaultExtensions (gen_opts r))
          (elem_get (doc r) (i_elem e) ''supported'')} \<and>
    (\<exists>ms. removedExtensionNames r' = Some ms \<and> set ms = f_name ` {e \<in> snd ` set (extdict r). taken_out r e}) \<and>
    requiredextensions r' = requiredextensions r @
      map f_name (filter (included r) (sort_key f_number (map snd (extdict r))))"
proof -
  let ?xs = "sort_key (\<lambda>x. f_number (snd x)) (extdict r)" and ?r = "r\<lparr>removedExtensionNames := Some []\<rparr>"
  have "distinct (map fst ?xs)"
    using assms(2) by (simp add: wf_dict_def distinct_map inj_on_def)
  moreover have "\<forall>(k, e) \<in> set ?xs. map_of (extdict ?r) k = Some e"
    using assms(2) by (auto simp: wf_dict_def)
  ultimately have s: "selected_exts ?r ?xs r'"
    using assms(1) by (intro select_loop) (simp_all add: select_extensions_def)
  have i: "included ?r = included r" "taken_out ?r = taken_out r" using included_cong [of ?r r] by simp_all
  have e: "included r e \<longleftrightarrow> (\<exists>n. f_name e = Some n \<and> \<not> re_match (removeExtensions (gen_opts r)) n \<and>
        apiNameMatch (if re_match (addExtensions (gen_opts r)) n then api_to_match r else defaultExtensions (gen_opts r))
          (elem_get (doc r) (i_elem e) ''supported''))" for e
    by (auto simp: included_def extension_included_def included_by_default_def Let_def)
  have "map snd ?xs = sort_key f_number (map snd (extdict r))"
  proof -
    have "map snd (insort_key (\<lambda>x. f_number (snd x)) y ys) = insort_key f_number (snd y) (map snd ys)"
      for y :: "dkey \<times> feature_info" and ys by (induction ys) auto
    then have "map snd (sort_key (\<lambda>x. f_number (snd x)) zs) = sort_key f_number (map snd zs)"
      for zs :: "(dkey \<times> feature_info) list" by (induction zs) simp_all
    then show ?thesis .
  qed
  with s show ?thesis unfolding selected_exts_def i e [symmetric] by auto
qed

section \<open>The registry stays well formed\<close>

lemma dict_ok_emit: "dict_ok st d \<Longrightarrow> (\<And>i. i_elem (f i) = i_elem i) \<Longrightarrow> dict_ok st (dict_adjust k f d)"
  by (rule dict_ok_adjust)

lemma select_version_step: "select_version k r = Inr r' \<Longrightarrow> reg_step r r'"
  by (auto simp: select_version_def Let_def reg_step_def reg_ok_def dict_ok_emit split: option.splits if_splits)

lemma select_extension_step: "select_extension k r = Inr r' \<Longrightarrow> reg_step r r'"
  by (auto simp: select_extension_def Let_def reg_step_def reg_ok_def dict_ok_emit split: option.splits if_splits)

lemma set_emit_ok:
  assumes "set_emit pat put d = Inr d'" and "dict_ok st d" and "\<And>b i. i_elem (put b i) = i_elem i"
  shows "dict_ok st d'"
  using assms(1) unfolding set_emit_def
  by (rule for_each_inv [where P = "dict_ok st"])
    (auto simp: assms(2,3) dict_ok_emit split: dkey.splits option.splits)

lemma select_all_step:
  assumes "select_all r = Inr r'" shows "reg_step r r'"
proof -
  obtain r1 r2 r3 where r: "select_versions r = Inr r1" "select_extensions r1 = Inr r2" "select_spirv r2 = Inr r3"
    "select_formats r3 = Inr r'"
    using assms by (auto simp: select_all_def elim!: rbind_InrE)
  have "reg_step (r\<lparr>genFeatures := []\<rparr>) r1"
    using r(1) unfolding select_versions_def by (rule reg_frame.for_each_rel) (rule select_version_step)
  moreover have "reg_step (r1\<lparr>removedExtensionNames := Some []\<rparr>) r2"
    using r(2) unfolding select_extensions_def by (rule reg_frame.for_each_rel) (rule select_extension_step)
  moreover have "reg_step r2 r3"
    using r(3) by (auto simp: select_spirv_def reg_step_def reg_ok_def elim!: rbind_InrE dest!: set_emit_ok)
  moreover have "reg_step r3 r'"
    using r(4) by (auto simp: select_formats_def reg_step_def reg_ok_def elim!: rbind_InrE dest!: set_emit_ok)
  moreover have "reg_step r (r\<lparr>genFeatures := []\<rparr>)" "reg_step r1 (r1\<lparr>removedExtensionNames := Some []\<rparr>)"
    by (simp_all add: reg_step_def reg_ok_def)
  ultimately show ?thesis by (meson reg_frame.rel_trans)
qed

lemma tag_feature_step: "tag_feature parse d f r = Inr r' \<Longrightarrow> reg_step r r'"
  unfolding tag_feature_def Let_def
  by (elim rbind_InrE) (meson fillFeatureDictionary_step requireFeatures_step deprecateFeatures_step
      validity_steps reg_frame.rel_trans)

lemma untag_feature_step: "untag_feature d f r = Inr r' \<Longrightarrow> reg_step r r'"
  unfolding untag_feature_def Let_def
  by (elim rbind_InrE) (meson removeFeatures_step validity_steps reg_frame.rel_trans)

lemma strip_references_step: "strip_references r = Inr r' \<Longrightarrow> reg_step r r'"
proof -
  let ?st = "stripUnsupportedAPIs (cmddict r) ''errorcodes'' (enumdict r)
    (stripUnsupportedAPIs (cmddict r) ''successcodes'' (enumdict r)
      (stripUnsupportedAPIs (typedict r) ''structextends'' (typedict r) (doc r)))"
  have "doc_step (doc r) ?st"
    by (intro doc_frame.rel_trans [OF stripUnsupportedAPIs_step doc_frame.rel_trans
          [OF stripUnsupportedAPIs_step stripUnsupportedAPIs_step]]) simp_all
  then have "reg_step r (r\<lparr>doc := ?st\<rparr>)" by (rule reg_step_doc)
  moreover assume "strip_references r = Inr r'"
  then obtain v where "r' = r\<lparr>doc := ?st, validextensionstructs := v\<rparr>"
    by (auto simp: strip_references_def Let_def elim!: rbind_InrE)
  ultimately show ?thesis by (simp add: reg_step_def reg_ok_def)
qed

lemma tag_passes_step:
  assumes "tag_passes parse d names r = Inr r'" shows "reg_step r r'"
proof -
  obtain r1 r2 r3 where
    p1: "for_each (\<lambda>name r. rbind (feature_of (genFeatures r) name) (\<lambda>f. tag_feature parse d f r)) names r = Inr r1"
    and p2: "for_each (\<lambda>name r. rbind (feature_of (genFeatures r) name) (\<lambda>f. untag_feature d f r)) names r1 = Inr r2"
    and p3: "strip_references r2 = Inr r3" "tagValidExtensionStructs r3 = Inr r'"
    using assms unfolding tag_passes_def by (elim rbind_InrE)
  have "reg_step r r1"
    using p1 by (rule reg_frame.for_each_rel) (auto elim!: rbind_InrE intro: tag_feature_step)
  moreover have "reg_step r1 r2"
    using p2 by (rule reg_frame.for_each_rel) (auto elim!: rbind_InrE intro: untag_feature_step)
  moreover have "reg_step r2 r3" using p3(1) by (rule strip_references_step)
  moreover have "reg_step r3 r'"
    using p3(2) by (auto simp: tagValidExtensionStructs_def Let_def reg_step_def reg_ok_def elim!: rbind_InrE)
  ultimately show ?thesis by (meson reg_frame.rel_trans)
qed

context client
begin

lemma call_step: "call gen c s = Inr s' \<Longrightarrow> reg_step (fst s) (fst s')"
  by (cases s) (auto simp: call_def elim!: rbind_InrE intro!: reg_step_doc dest: step)

lemma generate_interface_step: "generate_interface gen d name s = Inr s' \<Longrightarrow> reg_step (fst s) (fst s')"
proof -
  assume "generate_interface gen d name s = Inr s'"
  then obtain f :: feature_info and s1 s2 where "call gen (BeginFeature (i_elem f) (f_emit f)) ((fst s)\<lparr>emitFeatures := f_emit f\<rparr>, snd s) = Inr s1"
    "generateRequiredInterface gen d (i_elem f) s1 = Inr s2" "call gen EndFeature s2 = Inr s'"
    unfolding generate_interface_def Let_def by (elim rbind_InrE)
  from call_step [OF this(1)] generateRequiredInterface_step [OF client_axioms this(2)] call_step [OF this(3)]
  have "reg_step ((fst s)\<lparr>emitFeatures := f_emit f\<rparr>) (fst s')"
    by (simp only: fst_conv) (blast intro: reg_frame.rel_trans)
  then show ?thesis by (simp add: reg_step_def reg_ok_def)
qed

lemma loop_step:
  assumes "for_each f xs s = Inr s'" and "\<And>x s s'. f x s = Inr s' \<Longrightarrow> reg_step (fst s) (fst (s' :: 'a gen_state))"
  shows "reg_step (fst s) (fst s')"
  using assms(1) by (rule for_each_inv [where P = "\<lambda>t. reg_step (fst s) (fst t)"])
    (auto intro: reg_frame.rel_refl reg_frame.rel_trans assms(2))

lemma extra_steps:
  "generateSpirv gen i s = Inr s' \<Longrightarrow> reg_step (fst s) (fst s')"
  "generateFormat gen f s = Inr s' \<Longrightarrow> reg_step (fst s) (fst s')"
  "generateSyncStage gen c s = Inr s' \<Longrightarrow> reg_step (fst s) (fst s')"
  "generateSyncAccess gen c s = Inr s' \<Longrightarrow> reg_step (fst s) (fst s')"
  "generateSyncPipeline gen b s = Inr s' \<Longrightarrow> reg_step (fst s) (fst s')"
  by (auto simp: generateSpirv_def generateFormat_def generateSyncStage_def generateSyncAccess_def
      generateSyncPipeline_def call_step reg_frame.rel_refl split: option.splits if_splits)

lemma generate_extras_step:
  assumes "generate_extras gen a b c s = Inr s'" shows "reg_step (fst s) (fst s')"
proof -
  obtain s1 s2 s3 s4 s5 where
    l: "for_each (\<lambda>i. generateSpirv gen (Some i)) a s = Inr s1" "for_each (\<lambda>i. generateSpirv gen (Some i)) b s1 = Inr s2"
      "for_each (\<lambda>i. generateFormat gen (Some i)) c s2 = Inr s3"
      "for_each (generateSyncStage gen) (map snd (syncstagedict (fst s3))) s3 = Inr s4"
      "for_each (generateSyncAccess gen) (map snd (syncaccessdict (fst s4))) s4 = Inr s5"
      "for_each (generateSyncPipeline gen) (map snd (syncpipelinedict (fst s5))) s5 = Inr s'"
    using assms unfolding generate_extras_def by (elim rbind_InrE)
  have "reg_step (fst s) (fst s1)" "reg_step (fst s1) (fst s2)" "reg_step (fst s2) (fst s3)"
    "reg_step (fst s3) (fst s4)" "reg_step (fst s4) (fst s5)" "reg_step (fst s5) (fst s')"
    by (rule loop_step [OF l(1)], erule extra_steps, rule loop_step [OF l(2)], erule extra_steps,
        rule loop_step [OF l(3)], erule extra_steps, rule loop_step [OF l(4)], erule extra_steps,
        rule loop_step [OF l(5)], erule extra_steps, rule loop_step [OF l(6)], erule extra_steps)
  then show ?thesis by (meson reg_frame.rel_trans)
qed

lemma apiGen_step: "apiGen parse gen d s = Inr s' \<Longrightarrow> reg_step (fst s) (fst s')"
proof -
  assume "apiGen parse gen d s = Inr s'"
  then obtain r names r1 s1 s2 s3 where "select_all (fst s) = Inr r" "tag_passes parse d names r = Inr r1"
    and g: "call gen BeginFile (r1, snd s) = Inr s1" "for_each (generate_interface gen d) names s1 = Inr s2"
      "generate_extras gen (map snd (spirvextdict r1)) (map snd (spirvcapdict r1)) (map snd (formatsdict r1)) s2 = Inr s3"
      "call gen EndFile s3 = Inr s'"
    unfolding apiGen_def by (elim rbind_InrE)
  then have "reg_step (fst s) r1" by (meson select_all_step tag_passes_step reg_frame.rel_trans)
  moreover have "reg_step r1 (fst s1)" using call_step [OF g(1)] by simp
  moreover have "reg_step (fst s1) (fst s2)" using g(2) by (rule loop_step) (rule generate_interface_step)
  moreover have "reg_step (fst s2) (fst s3)" using g(3) by (rule generate_extras_step)
  moreover have "reg_step (fst s3) (fst s')" using g(4) by (rule call_step)
  ultimately show ?thesis by (meson reg_frame.rel_trans)
qed

end

text \<open>C21: a whole generation keeps the registry well formed: whatever document is loaded and whatever the
  generator does to it within its contract (it shortens and renames nothing), when \<^verbatim>\<open>apiGen\<close> returns the
  store is a tree, every dictionary has distinct names and every entry points to an element that carries
  its name.\<close>

theorem apiGen_ok:
  assumes "client gen" and "loadElementTree d tree (Registry opts) = Inr r" and "apiGen parse gen d (r, g) = Inr (r', g')"
  shows "reg_ok r'"
proof -
  have "reg_ok r" using assms(2) by (rule load_ok)
  with client.apiGen_step [OF assms(1,3)] show ?thesis by (simp add: reg_step_def)
qed

section \<open>A small document\<close>

text \<open>A version that requires a handle, and an extension that requires a structure extending another.\<close>

definition small_document :: xtree where
  "small_document =
     XTree ''registry'' [] None None
       [XTree ''types'' [] None None
          [XTree ''type'' [(''category'', ''handle''), (''name'', ''VkDevice'')] None None [],
           XTree ''type'' [(''category'', ''struct''), (''name'', ''VkB''), (''structextends'', ''VkA,VkGone'')] None None [],
           XTree ''type'' [(''category'', ''struct''), (''name'', ''VkA'')] None None []],
        XTree ''feature'' [(''api'', ''vulkan''), (''name'', ''VK_VERSION_1_0''), (''number'', ''1.0'')] None None
          [XTree ''require'' [] None None [XTree ''type'' [(''name'', ''VkDevice'')] None None []]],
        XTree ''extensions'' [] None None
          [XTree ''extension'' [(''name'', ''VK_KHR_x''), (''number'', ''2''), (''supported'', ''vulkan'')] None None
             [XTree ''require'' [] None None
                [XTree ''type'' [(''name'', ''VkA'')] None None [], XTree ''type'' [(''name'', ''VkB'')] None None []]]]]"

definition small_options :: generator_options where
  "small_options = GeneratorOptions (default_args\<lparr>a_apiname := Some ''vulkan'', a_addExtensions := Some rx_all\<rparr>)"

definition small_registry :: "registry res" where
  "small_registry = loadElementTree 9 small_document (Registry (Some small_options))"

definition small_result :: "unit gen_state res" where
  "small_result = rbind small_registry (\<lambda>r. apiGen (\<lambda>_. None) silent 9 (r, ()))"

lemma small_result_Inr:
  "case small_result of Inl e \<Rightarrow> False | Inr s \<Rightarrow>
     validextensionstructs (fst s) = [(''VkA'', [Some ''VkB''])] \<and> map fst (genFeatures (fst s)) = [Some ''VK_VERSION_1_0'', Some ''VK_KHR_x'']"
  by code_simp

text \<open>The runs that the witnesses are about.\<close>

lemma res_caseD: "(case m of Inl e \<Rightarrow> False | Inr x \<Rightarrow> P x) \<Longrightarrow> \<exists>x. m = Inr x \<and> P x"
  by (cases m) simp_all

lemma small_run:
  obtains r s where "small_registry = Inr r" "loadElementTree 9 small_document (Registry (Some small_options)) = Inr r"
    "apiGen (\<lambda>_. None) silent 9 (r, ()) = Inr s" "reg_ok r"
    "validextensionstructs (fst s) = [(''VkA'', [Some ''VkB''])]"
proof -
  obtain s where s: "small_result = Inr s" "validextensionstructs (fst s) = [(''VkA'', [Some ''VkB''])]"
    using res_caseD [OF small_result_Inr] by blast
  then obtain r where r: "small_registry = Inr r" "apiGen (\<lambda>_. None) silent 9 (r, ()) = Inr s"
    unfolding small_result_def by (elim rbind_InrE)
  from r(1) have "loadElementTree 9 small_document (Registry (Some small_options)) = Inr r" by (simp add: small_registry_def)
  with that r s(2) show ?thesis using load_ok by blast
qed

theorem apiGen_ok_witness:
  "\<exists>r s. loadElementTree 9 small_document (Registry (Some small_options)) = Inr r \<and>
     apiGen (\<lambda>_. None) silent 9 (r, ()) = Inr s \<and> reg_ok (fst s)"
proof -
  obtain r s where rs: "loadElementTree 9 small_document (Registry (Some small_options)) = Inr r"
    "apiGen (\<lambda>_. None) silent 9 (r, ()) = Inr s" by (rule small_run)
  have c: "client silent" using generator_silent by (simp add: generator_def)
  have a: "apiGen (\<lambda>_. None) silent 9 (r, ()) = Inr (fst s, snd s)" using rs(2) by (simp only: prod.collapse)
  have "reg_ok (fst s)" by (rule apiGen_ok [OF c rs(1) a])
  with rs show ?thesis by blast
qed

lemma small_selection:
  "case rbind small_registry select_extensions of Inl e \<Rightarrow> False | Inr r \<Rightarrow> requiredextensions r = [Some ''VK_KHR_x'']"
  by code_simp

theorem select_extensions_correct_witness:
  "\<exists>r r'. small_registry = Inr r \<and> select_extensions r = Inr r' \<and> Some ''VK_KHR_x'' \<in> dom (map_of (genFeatures r'))"
proof -
  obtain r where r: "small_registry = Inr r" "reg_ok r" by (rule small_run)
  obtain r' where r': "select_extensions r = Inr r'" "requiredextensions r' = [Some ''VK_KHR_x'']"
    using res_caseD [OF small_selection, unfolded r(1) rbind_simps] by blast
  have "wf_dict (extdict r)" using r(2) by (simp add: reg_ok_def dict_ok_def)
  note c = select_extensions_correct [OF r'(1) this]
  have "requiredextensions r = []"
  proof -
    have "case small_registry of Inl e \<Rightarrow> False | Inr r \<Rightarrow> requiredextensions r = []" by code_simp
    then show ?thesis unfolding r(1) by simp
  qed
  with c r'(2) have "[Some ''VK_KHR_x''] = map f_name (filter (included r) (sort_key f_number (map snd (extdict r))))" by simp
  then have "Some ''VK_KHR_x'' \<in> set (map f_name (filter (included r) (sort_key f_number (map snd (extdict r)))))"
    by (metis list.set_intros(1))
  then obtain e where "e \<in> snd ` set (extdict r)" "f_name e = Some ''VK_KHR_x''" "included r e" by fastforce
  moreover from this(3) have "\<exists>n. f_name e = Some n \<and> \<not> re_match (removeExtensions (gen_opts r)) n \<and>
        apiNameMatch (if re_match (addExtensions (gen_opts r)) n then api_to_match r else defaultExtensions (gen_opts r))
          (elem_get (doc r) (i_elem e) ''supported'')"
    by (auto simp: included_def extension_included_def included_by_default_def Let_def split: if_splits)
  ultimately have "Some ''VK_KHR_x'' \<in> dom (map_of (genFeatures r'))"
    unfolding conjunct1 [OF c] by (intro UnI2 image_eqI [of _ f_name e]) simp_all
  then show ?thesis using r(1) r'(1) by blast
qed

lemma small_tagging:
  "case rbind small_result (\<lambda>s. tagValidExtensionStructs (fst s)) of Inl e \<Rightarrow> False | Inr r \<Rightarrow> True"
  by code_simp

theorem tagValidExtensionStructs_correct_witness:
  "\<exists>r r'. tagValidExtensionStructs r = Inr r' \<and> Some ''VkB'' \<in> set (names_of (validextensionstructs r') ''VkA'')"
proof -
  obtain s where s: "small_result = Inr s" "validextensionstructs (fst s) = [(''VkA'', [Some ''VkB''])]"
    using res_caseD [OF small_result_Inr] by blast
  obtain r' where r': "tagValidExtensionStructs (fst s) = Inr r'"
    using res_caseD [OF small_tagging, unfolded s(1) rbind_simps] by blast
  have "wf_dict (validextensionstructs (fst s))" by (simp add: s wf_dict_def)
  from tagValidExtensionStructs_correct [OF r' this, of "''VkA''"]
  have "set (names_of (validextensionstructs (fst s)) ''VkA'') \<subseteq> set (names_of (validextensionstructs r') ''VkA'')" by blast
  moreover have "Some ''VkB'' \<in> set (names_of (validextensionstructs (fst s)) ''VkA'')" by (simp add: names_of_def s(2))
  ultimately show ?thesis using r' by blast
qed

end
