(* ===== verification/RegFrame.thy ===== *)
theory RegFrame
  imports RegApiGen
begin

text \<open>
  What the passes of a run leave alone, and what becomes of the selection: the parse and the passes
  keep the options, the passes keep the selected features, and a feature that is selected to be emitted
  carries a name that was asked for. The lemmas go through the definitions with one rule for each way of
  composing computations.
\<close>

section \<open>Computations that keep a part of the state\<close>

definition keeps :: "('s \<Rightarrow> 'x) \<Rightarrow> 'x \<Rightarrow> 's res \<Rightarrow> bool" where
  "keeps sel x m \<longleftrightarrow> (\<forall>s. m = Inr s \<longrightarrow> sel s = x)"

lemma keepsD: "keeps sel x m \<Longrightarrow> m = Inr s \<Longrightarrow> sel s = x"
  by (simp add: keeps_def)

lemma keeps_simps [simp]: "keeps sel x (Inr s) \<longleftrightarrow> sel s = x" "keeps sel x (Inl e)"
  by (auto simp: keeps_def)

lemma keeps_bind: "keeps sel x m \<Longrightarrow> (\<And>t. sel t = x \<Longrightarrow> keeps sel x (f t)) \<Longrightarrow> keeps sel x (rbind m f)"
  unfolding keeps_def by (auto elim!: rbind_InrE)

lemma keeps_bind_value: "(\<And>v. m = Inr v \<Longrightarrow> keeps sel x (f v)) \<Longrightarrow> keeps sel x (rbind m f)"
  unfolding keeps_def by (auto elim!: rbind_InrE)

lemma keeps_loop:
  assumes "sel s = x" and "\<And>a t. sel t = x \<Longrightarrow> keeps sel x (f a t)"
  shows "keeps sel x (for_each f xs s)"
  unfolding keeps_def
proof (intro allI impI)
  fix s' assume "for_each f xs s = Inr s'"
  then show "sel s' = x"
    by (rule for_each_inv [where P = "\<lambda>s. sel s = x"]) (use assms in \<open>auto simp: keeps_def\<close>)
qed

text \<open>Nothing but the selection changes the features that are selected.\<close>

lemma fill_keeps:
  "keeps genFeatures x (fill f c k add r)" if "genFeatures r = x"
  using that unfolding fill_def by (auto split: option.splits intro!: keeps_bind_value)

lemma fill_block_keeps:
  assumes "genFeatures r = x" shows "keeps genFeatures x (fill_block f e r)"
proof -
  have "keeps genFeatures x (fill_type f k a t)" "keeps genFeatures x (fill_enum f k a t)"
    "keeps genFeatures x (fill_command f k a t)" if "genFeatures t = x" for k a t
    unfolding fill_type_def fill_enum_def fill_command_def Let_def
    by (auto simp: that split: option.splits intro!: keeps_bind_value fill_keeps)
  then show ?thesis unfolding fill_block_def Let_def by (intro keeps_bind keeps_loop assms) auto
qed

lemma depends_keeps:
  "genFeatures r = x \<Longrightarrow> requireDependsSatisfied parse d e r = Inr (b, s) \<Longrightarrow> genFeatures s = x"
  by (auto dest: requireDepends_state)

lemma remove_keeps:
  assumes "genFeatures r = x"
  shows "keeps genFeatures x (remove_extending n g r)" and "keeps genFeatures x (remove_plain e r)"
  using assms unfolding remove_extending_def remove_plain_def Let_def
  by (auto split: option.splits intro!: keeps_bind_value)

lemma enum_keeps: "genFeatures r = x \<Longrightarrow> keeps genFeatures x (markEnumRequired d n b r)"
proof (induction d arbitrary: n r)
  case (Suc d)
  then show ?case
    by (auto simp: Let_def remove_keeps split: option.splits intro!: keeps_bind)
qed simp

lemma type_keeps: "genFeatures r = x \<Longrightarrow> keeps genFeatures x (markTypeRequired d n b r)"
proof (induction d arbitrary: n r)
  case (Suc d)
  have "keeps genFeatures x (for_each (\<lambda>attrib_name r.
      let depname = elem_get (doc r) e attrib_name in
      if truthy depname \<and> n \<noteq> depname then markTypeRequired d depname b r else Inr r) ks s)"
    if "genFeatures s = x" for e ks s
    by (rule keeps_loop) (simp_all add: Let_def Suc.IH that)
  moreover have "keeps genFeatures x (for_each (\<lambda>subtype r. if n \<noteq> elem_text (doc r) subtype
      then markTypeRequired d (elem_text (doc r) subtype) b r else Inr r) ks s)" if "genFeatures s = x" for ks s
    by (rule keeps_loop) (simp_all add: Suc.IH that)
  moreover have "keeps genFeatures x (for_each (\<lambda>subenum r. markEnumRequired d (elem_text (doc r) subenum) b r) ks s)"
    if "genFeatures s = x" for ks s
    by (rule keeps_loop) (simp_all add: enum_keeps that)
  ultimately show ?case using Suc
    by (simp add: Let_def split: option.split)
      (auto simp: set_flagType_def split: if_splits intro!: keeps_bind)
qed simp

lemma cmd_keeps: "genFeatures r = x \<Longrightarrow> keeps genFeatures x (markCmdRequired d n b r)"
proof (induction d arbitrary: n r)
  case (Suc d)
  then show ?case
    by (auto simp: Let_def type_keeps split: option.splits intro!: keeps_bind keeps_loop)
qed simp

lemma mark_keeps: "genFeatures r = x \<Longrightarrow> keeps genFeatures x (markRequired d f e b r)"
proof -
  have e: "genFeatures (fold (markExtend f) es s) = genFeatures s" for es s
    by (induction es arbitrary: s) (auto simp: markExtend_def Let_def split: option.splits)
  assume "genFeatures r = x"
  then show ?thesis unfolding markRequired_def
    by (intro keeps_bind keeps_loop type_keeps enum_keeps cmd_keeps) (simp_all add: e)
qed

lemma deprecate_keeps:
  assumes "genFeatures r = x" shows "keeps genFeatures x (deprecateFeatures i n api prof r)"
proof -
  have "keeps genFeatures x (deprecate_type v f l a t)" "keeps genFeatures x (deprecate_enum v f l a t)"
    "keeps genFeatures x (deprecate_command v f l a t)" if "genFeatures t = x" for v f l a t
    unfolding deprecate_type_def deprecate_enum_def deprecate_command_def not_present_def deprecated_twice_def
      log_error_def Let_def
    by (auto simp: that split: option.splits)
  then have "keeps genFeatures x (for_each (deprecate_type v f l) ts t)" "keeps genFeatures x (for_each (deprecate_enum v f l) ts t)"
    "keeps genFeatures x (for_each (deprecate_command v f l) ts t)" if "genFeatures t = x" for v f l ts t
    by (simp_all add: keeps_loop that)
  note loops = this
  show ?thesis
  proof (cases n)
    case (Some a)
    show ?thesis unfolding deprecateFeatures_def Some option.case Let_def
      by (rule keeps_loop, rule assms, rule keeps_bind_value) (simp add: loops keeps_bind)
  qed (simp add: deprecateFeatures_def)
qed

lemma validity_keeps:
  assumes "genFeatures r = x" shows "keeps genFeatures x (usage_block add api prof e r)"
proof -
  have "keeps genFeatures x (add_validity add k cmddict cmddict_update v t)"
    "keeps genFeatures x (add_validity add k typedict typedict_update v t)" if "genFeatures t = x" for k v t
    unfolding add_validity_def Let_def by (auto simp: that case_prod_beta)
  then have "keeps genFeatures x (for_each (\<lambda>v r. rbind (add_validity add ''command'' cmddict cmddict_update v r)
      (\<lambda>r. add_validity add ''struct'' typedict typedict_update v r)) vs r)" for vs
    by (intro keeps_loop keeps_bind assms)
  then show ?thesis unfolding usage_block_def by (intro keeps_bind_value) (simp add: assms)
qed

lemma tag_passes_keeps:
  assumes "tag_passes parse d names r = Inr r'" shows "genFeatures r' = genFeatures r"
proof -
  let ?x = "genFeatures r"
  have blocks: "keeps genFeatures ?x (requireFeatures parse d e n api prof s)"
    "keeps genFeatures ?x (removeFeatures d e n api prof s)"
    "keeps genFeatures ?x (fillFeatureDictionary parse d e n api prof s)" if "genFeatures s = ?x" for e n api prof s
    unfolding requireFeatures_def removeFeatures_def fillFeatureDictionary_def
    by (auto simp: that split: prod.splits intro!: keeps_loop keeps_bind_value mark_keeps fill_block_keeps
        dest!: depends_keeps [rotated])
  have "keeps genFeatures ?x (tag_feature parse d f s)" "keeps genFeatures ?x (untag_feature d f s)"
    if "genFeatures s = ?x" for f s
    unfolding tag_feature_def untag_feature_def Let_def assignAdditionalValidity_def removeAdditionalValidity_def
    by (intro keeps_bind keeps_loop blocks deprecate_keeps validity_keeps that; assumption)+
  moreover have "keeps genFeatures ?x (strip_references s)" "keeps genFeatures ?x (tagValidExtensionStructs s)"
    if "genFeatures s = ?x" for s
    unfolding strip_references_def tagValidExtensionStructs_def Let_def
    by (auto simp: that intro!: keeps_bind_value)
  ultimately have "keeps genFeatures ?x (tag_passes parse d names r)"
    unfolding tag_passes_def by (intro keeps_bind keeps_loop keeps_bind_value) auto
  then show ?thesis using assms by (rule keepsD)
qed

section \<open>The features carry the names of their elements\<close>

definition named :: "store \<Rightarrow> (dkey \<times> feature_info) list \<Rightarrow> bool" where
  "named st d \<longleftrightarrow> (\<forall>f \<in> snd ` set d. \<forall>n. f_name f = Some n \<longrightarrow> elem_get st (i_elem f) ''name'' = Some n)"

definition feature_dicts :: "registry \<Rightarrow> (dkey \<times> feature_info) list \<times> (dkey \<times> feature_info) list" where
  "feature_dicts r = (apidict r, extdict r)"

lemma FeatureInfo_name: "FeatureInfo st e = Inr fi \<Longrightarrow> f_name fi = elem_get st e ''name''"
  by (auto simp: FeatureInfo_def Let_def BaseInfo_def base_info.defs feature_info.defs elim!: rbind_InrE split: if_splits)

lemma named_grows: "named st d \<Longrightarrow> doc_extends st st' \<Longrightarrow> named st' d"
  by (fastforce simp: named_def doc_extends_def)

lemma fold_warn_dicts [simp]: "feature_dicts (fold (\<lambda>w. warn [w]) ws r) = feature_dicts r"
  by (induction ws arbitrary: r) (auto simp: feature_dicts_def)

lemma set_update_snd: "snd ` set (AList.update k v d) \<subseteq> insert v (snd ` set d)"
  by (induction d) auto

lemma added_snd: "snd ` set (fst (addElementInfo st e i t d)) \<subseteq> insert i (snd ` set d)"
  using set_update_snd [of _ i d]
  by (cases "map_of d (Name (elem_get st e ''name''))") (simp_all add: addElementInfo_def Let_def subset_insertI)

lemma add_named:
  "FeatureInfo st e = Inr fi \<Longrightarrow> named st d \<Longrightarrow> named st (fst (addElementInfo st e fi t d))"
proof -
  assume fi: "FeatureInfo st e = Inr fi" and "named st d"
  then have "\<forall>f \<in> insert fi (snd ` set d). \<forall>n. f_name f = Some n \<longrightarrow> elem_get st (i_elem f) ''name'' = Some n"
    using FeatureInfo_name [OF fi] i_elem_feature [OF fi] by (simp add: named_def)
  then show ?thesis unfolding named_def using added_snd [of st e fi t d] by blast
qed

lemma reg_add_dicts:
  "feature_dicts (reg_add apidict apidict_update e fi t r) = (fst (addElementInfo (doc r) e fi t (apidict r)), extdict r)"
  "feature_dicts (reg_add extdict extdict_update e fi t r) = (apidict r, fst (addElementInfo (doc r) e fi t (extdict r)))"
  by (simp_all add: reg_add_def case_prod_beta) (simp_all add: feature_dicts_def)

text \<open>The enums of a feature do not touch the features.\<close>

lemma enum_adds_keep: "keeps feature_dicts x (add_enum_info e g r)" if "feature_dicts r = x"
proof -
  have "feature_dicts (reg_add enumdict enumdict_update e i t r) = x" for i t
    using that by (simp add: reg_add_def case_prod_beta) (simp add: feature_dicts_def)
  then show ?thesis
    unfolding add_enum_info_def addEnumValue_def Let_def
    by (auto split: option.splits) (auto simp: feature_dicts_def)
qed

lemma extend_group_features [simp]:
  "feature_dicts (extend_group g e r) = feature_dicts r" "feature_dicts (r\<lparr>doc := st\<rparr>) = feature_dicts r"
  by (auto simp: feature_dicts_def extend_group_def split: option.splits)

lemma enums_keep:
  "feature_dicts (fst s) = x \<Longrightarrow> keeps (feature_dicts \<circ> fst) x (parse_feature_enum fi e s)"
  "feature_dicts (fst s) = x \<Longrightarrow> keeps (feature_dicts \<circ> fst) x (parse_extension_enum fi el e s)"
proof -
  have add: "keeps (feature_dicts \<circ> fst) x (rbind (add_enum_info e g r) (\<lambda>r. Inr (r, c)))"
    if "feature_dicts r = x" for g r and c :: conditions
    using keepsD [OF enum_adds_keep [OF that]] by (auto simp: keeps_def elim!: rbind_InrE)
  obtain r cs where s: "s = (r, cs)" by (cases s)
  assume x: "feature_dicts (fst s) = x"
  show "keeps (feature_dicts \<circ> fst) x (parse_feature_enum fi e s)"
    unfolding parse_feature_enum_def Let_def s using x s
    by (simp add: add split: option.split) (intro allI impI keeps_bind_value add, simp)
  show "keeps (feature_dicts \<circ> fst) x (parse_extension_enum fi el e s)"
    unfolding parse_extension_enum_def Let_def s using x s
    by (simp add: add split: option.split) (intro allI impI keeps_bind_value add, simp)
qed

lemma enum_loop:
  assumes "for_each (\<lambda>el s. for_each (f el) (findall (doc (fst s)) el ''enum'') s) els t = Inr t'"
    and "\<And>el a u. feature_dicts (fst u) = feature_dicts (fst t) \<Longrightarrow>
      keeps (feature_dicts \<circ> fst) (feature_dicts (fst t)) (f el a u)"
    and "\<And>el e s s'. f el e s = Inr s' \<Longrightarrow> e < length (doc (fst s)) \<Longrightarrow> reg_step (fst s) (fst s')"
    and "reg_ok (fst t)"
  shows "feature_dicts (fst t') = feature_dicts (fst t) \<and> reg_ok (fst t') \<and> doc_extends (doc (fst t)) (doc (fst t'))"
proof -
  have "keeps (feature_dicts \<circ> fst) (feature_dicts (fst t))
      (for_each (\<lambda>el s. for_each (f el) (findall (doc (fst s)) el ''enum'') s) els t)"
    by (intro keeps_loop) (simp_all add: assms(2))
  then have "feature_dicts (fst t') = feature_dicts (fst t)" using assms(1) by (auto dest: keepsD)
  moreover have "reg_step (fst t) (fst t')" using assms(1,3) by (rule require_loop_step)
  ultimately show ?thesis using assms(4) by (simp add: reg_step_def)
qed

lemma feature_named:
  assumes "parse_feature e s = Inr s'" and "e < length (doc (fst s))" and "reg_ok (fst s)"
    and "named (doc (fst s)) (apidict (fst s))"
  shows "reg_ok (fst s') \<and> doc_extends (doc (fst s)) (doc (fst s')) \<and> named (doc (fst s')) (apidict (fst s'))"
proof -
  obtain r cs where s: "s = (r, cs)" by (cases s)
  obtain fi where fi: "FeatureInfo (doc r) e = Inr fi" and l:
    "for_each (\<lambda>el s. for_each (parse_feature_enum fi) (findall (doc (fst s)) el ''enum'') s)
       (findall (doc r) e ''require'') (reg_add apidict apidict_update e fi ''feature'' r, cs) = Inr s'"
    using assms(1) by (auto simp: parse_feature_def s elim!: rbind_InrE)
  have "reg_ok (reg_add apidict apidict_update e fi ''feature'' r)"
    using assms(2,3) i_elem_feature [OF fi] reg_ok_add(5) by (auto simp: s)
  with enum_loop [where f = "\<lambda>_. parse_feature_enum fi", OF l] have k: "reg_ok (fst s')"
    "doc_extends (doc r) (doc (fst s'))"
    "feature_dicts (fst s') = feature_dicts (reg_add apidict apidict_update e fi ''feature'' r)"
    by (simp_all add: enums_keep parse_feature_enum_step)
  then have "apidict (fst s') = fst (addElementInfo (doc r) e fi ''feature'' (apidict r))"
    by (simp add: reg_add_dicts) (simp add: feature_dicts_def)
  with k assms(4) named_grows [OF add_named [OF fi]] show ?thesis by (simp add: s)
qed

lemma extension_named:
  assumes "parse_extension e s = Inr s'" and "e < length (doc (fst s))" and "reg_ok (fst s)"
    and "named (doc (fst s)) (apidict (fst s))" and "named (doc (fst s)) (extdict (fst s))"
  shows "reg_ok (fst s') \<and> doc_extends (doc (fst s)) (doc (fst s')) \<and>
    named (doc (fst s')) (apidict (fst s')) \<and> named (doc (fst s')) (extdict (fst s'))"
proof -
  obtain r cs where s: "s = (r, cs)" by (cases s)
  obtain fi where fi: "FeatureInfo (doc r) e = Inr fi" and l:
    "for_each (\<lambda>el s. for_each (parse_extension_enum fi el) (findall (doc (fst s)) el ''enum'') s)
       (findall (doc r) e ''require'') (reg_add extdict extdict_update e fi ''extension'' r, cs) = Inr s'"
    using assms(1) by (auto simp: parse_extension_def s elim!: rbind_InrE)
  have "reg_ok (reg_add extdict extdict_update e fi ''extension'' r)"
    using assms(2,3) i_elem_feature [OF fi] reg_ok_add(6) by (auto simp: s)
  with enum_loop [where f = "parse_extension_enum fi", OF l] have k: "reg_ok (fst s')"
    "doc_extends (doc r) (doc (fst s'))"
    "feature_dicts (fst s') = feature_dicts (reg_add extdict extdict_update e fi ''extension'' r)"
    by (simp_all add: enums_keep parse_extension_enum_step)
  then have "apidict (fst s') = apidict r" "extdict (fst s') = fst (addElementInfo (doc r) e fi ''extension'' (extdict r))"
    by (simp_all add: reg_add_dicts) (simp_all add: feature_dicts_def)
  with k assms(4,5) named_grows [OF add_named [OF fi]] named_grows show ?thesis by (simp add: s)
qed

text \<open>A loop over elements of the document, with an invariant of the dictionaries.\<close>

lemma features_loop:
  assumes "for_each f xs (r, cs) = Inr (r', cs')" and "reg_ok r" and "P r" and "\<forall>x \<in> set xs. x < length (doc r)"
    and step: "\<And>x s s'. f x s = Inr s' \<Longrightarrow> x < length (doc (fst s)) \<Longrightarrow> reg_ok (fst s) \<Longrightarrow> P (fst s)
      \<Longrightarrow> reg_ok (fst s') \<and> doc_extends (doc (fst s)) (doc (fst s')) \<and> P (fst s')"
  shows "reg_ok r' \<and> P r'"
proof -
  have "reg_ok (fst (r', cs')) \<and> P (fst (r', cs')) \<and> (\<forall>x \<in> set xs. x < length (doc (fst (r', cs'))))"
    using assms(1)
  proof (rule for_each_inv)
    fix x s s' assume "x \<in> set xs" and s: "reg_ok (fst s) \<and> P (fst s) \<and> (\<forall>x \<in> set xs. x < length (doc (fst s)))"
      and f: "f x s = Inr s'"
    then have "reg_ok (fst s') \<and> doc_extends (doc (fst s)) (doc (fst s')) \<and> P (fst s')" using step [OF f] by blast
    moreover from this s have "\<forall>x \<in> set xs. x < length (doc (fst s'))" by (meson doc_extends_def less_le_trans)
    ultimately show "reg_ok (fst s') \<and> P (fst s') \<and> (\<forall>x \<in> set xs. x < length (doc (fst s')))" by blast
  qed (use assms(2-4) in simp)
  then show ?thesis by simp
qed

definition feats_named :: "registry \<Rightarrow> bool" where
  "feats_named r \<longleftrightarrow> named (doc r) (apidict r) \<and> named (doc r) (extdict r)"

lemma parse_features_named:
  assumes "parse_features r = Inr (r', cs')" and "reg_ok r"
  shows "feats_named r'"
proof -
  let ?cs = "\<lparr>format_condition = [], stage_condition = [], access_condition = []\<rparr>"
  obtain r1 cs where 1: "for_each parse_feature (findall (doc r) (reg r) ''feature'') (r\<lparr>apidict := []\<rparr>, ?cs)
      = Inr (r1, cs)"
    and 2: "for_each parse_extension (findall2 (doc r1) (reg r1) ''extensions'' ''extension'')
      (r1\<lparr>extensions := findall2 (doc r1) (reg r1) ''extensions'' ''extension'', extdict := []\<rparr>, cs) = Inr (r', cs')"
    using assms(1) by (auto simp: parse_features_def Let_def elim!: rbind_InrE)
  have r1: "reg_ok r1 \<and> named (doc r1) (apidict r1)"
    using assms(2) by (intro features_loop [where P = "\<lambda>r. named (doc r) (apidict r)", OF 1] feature_named)
      (auto simp: reg_ok_clear named_def intro: findall_wf [THEN conjunct2])
  moreover have "reg_ok (r1\<lparr>extensions := x, extdict := []\<rparr>)" for x
    using reg_ok_clear(6) [of "r1\<lparr>extensions := x\<rparr>"] r1 by simp
  moreover have "feats_named (r1\<lparr>extensions := x, extdict := []\<rparr>)" for x
    using r1 by (simp add: feats_named_def) (simp add: named_def)
  ultimately have "reg_ok r' \<and> feats_named r'"
    by (intro features_loop [where P = feats_named, OF 2])
      (auto simp: feats_named_def dest: extension_named intro: findall2_wf)
  then show ?thesis by blast
qed

lemma fold_keeps: "(\<And>x r. g (f x r) = g r) \<Longrightarrow> g (fold f xs r) = g r"
  by (induction xs arbitrary: r) auto

lemma parse_rest_same:
  "feats_named (parse_sync cs (parse_formats cs (parse_spirv r))) = feats_named r"
proof -
  let ?g = "\<lambda>r. (feature_dicts r, doc r)"
  have "feature_dicts (reg_add spirvextdict spirvextdict_update e i1 t r) = feature_dicts r"
    "feature_dicts (reg_add spirvcapdict spirvcapdict_update e i1 t r) = feature_dicts r"
    "feature_dicts (reg_add formatsdict formatsdict_update e i2 t r) = feature_dicts r"
    "feature_dicts (reg_add syncstagedict syncstagedict_update e i2 t r) = feature_dicts r"
    "feature_dicts (reg_add syncaccessdict syncaccessdict_update e i2 t r) = feature_dicts r"
    "feature_dicts (reg_add syncpipelinedict syncpipelinedict_update e i3 t r) = feature_dicts r" for e i1 i2 i3 t r
    by (simp_all add: reg_add_def case_prod_beta) (simp_all add: feature_dicts_def)
  then have "?g (parse_sync cs (parse_formats cs (parse_spirv r))) = ?g r"
    unfolding parse_sync_def parse_formats_def parse_spirv_def Let_def
    by (simp add: fold_keeps [where g = feature_dicts] fold_keeps [where g = doc])
  then show ?thesis by (simp add: feats_named_def feature_dicts_def)
qed

lemma load_named:
  assumes "loadElementTree d tree (Registry opts) = Inr r" shows "feats_named r"
proof -
  obtain r4 r5 cs where "reg_ok r4" "parse_features r4 = Inr (r5, cs)"
    and "r = parse_sync cs (parse_formats cs (parse_spirv r5))"
    using load_parts [OF assms] by blast
  then show ?thesis using parse_features_named by (simp add: parse_rest_same)
qed

section \<open>The parse keeps the options\<close>

lemma fold_warn_opts [simp]: "gen_opts (fold (\<lambda>w. warn [w]) ws r) = gen_opts r"
  by (induction ws arbitrary: r) auto

lemma reg_add_opts [simp]:
  "gen_opts (reg_add typedict typedict_update e i1 t r) = gen_opts r"
  "gen_opts (reg_add groupdict groupdict_update e i2 t r) = gen_opts r"
  "gen_opts (reg_add enumdict enumdict_update e i3 t r) = gen_opts r"
  "gen_opts (reg_add cmddict cmddict_update e i1 t r) = gen_opts r"
  "gen_opts (reg_add apidict apidict_update e i4 t r) = gen_opts r"
  "gen_opts (reg_add extdict extdict_update e i4 t r) = gen_opts r"
  "gen_opts (reg_add spirvextdict spirvextdict_update e i5 t r) = gen_opts r"
  "gen_opts (reg_add spirvcapdict spirvcapdict_update e i5 t r) = gen_opts r"
  "gen_opts (reg_add formatsdict formatsdict_update e i6 t r) = gen_opts r"
  "gen_opts (reg_add syncstagedict syncstagedict_update e i6 t r) = gen_opts r"
  "gen_opts (reg_add syncaccessdict syncaccessdict_update e i6 t r) = gen_opts r"
  "gen_opts (reg_add syncpipelinedict syncpipelinedict_update e i7 t r) = gen_opts r"
  by (simp_all add: reg_add_def case_prod_beta)

lemma addEnumValue_opts: "gen_opts r = x \<Longrightarrow> keeps gen_opts x (addEnumValue e t r)"
  by (auto simp: addEnumValue_def Let_def split: option.splits)

lemma add_enum_info_opts: "gen_opts r = x \<Longrightarrow> keeps gen_opts x (add_enum_info e g r)"
  by (simp add: add_enum_info_def addEnumValue_opts)

lemma name_element_opts: "name_element e ne msg r = Inr (n, r') \<Longrightarrow> gen_opts r' = gen_opts r"
  by (auto simp: name_element_def split: option.splits elim!: rbind_InrE)

lemma parse_enums_opts: "gen_opts r = x \<Longrightarrow> keeps gen_opts x (parse_enums vs r)"
  unfolding parse_enums_def parse_group_enums_def parse_group_enum_def Let_def
  by (intro keeps_loop) (auto intro!: keeps_loop keeps_bind_value addEnumValue_opts)

lemma parse_types_opts: "gen_opts r = x \<Longrightarrow> keeps gen_opts x (parse_types vs r)"
  unfolding parse_types_def parse_type_def Let_def
  by (intro keeps_loop) (auto intro!: keeps_bind_value dest!: name_element_opts)

lemma parse_commands_opts: "gen_opts r = x \<Longrightarrow> keeps gen_opts x (parse_commands vs r)"
proof -
  assume x: "gen_opts r = x"
  have c: "keeps (gen_opts \<circ> fst) x (parse_command vs e s)" if "gen_opts (fst s) = x" for e s
    using that unfolding parse_command_def Let_def
    by (auto split: prod.splits intro!: keeps_bind_value dest!: name_element_opts)
  have a: "keeps gen_opts x (parse_alias ca s)" if "gen_opts s = x" for ca s
    using that unfolding parse_alias_def by (auto split: prod.splits option.splits intro!: keeps_bind_value)
  have c': "keeps (gen_opts \<circ> fst) x (for_each (parse_command vs) es (r\<lparr>cmddict := []\<rparr>, []))" for es
    by (rule keeps_loop) (simp_all add: x c)
  have "gen_opts (fst v) = x" if "for_each (parse_command vs) es (r\<lparr>cmddict := []\<rparr>, []) = Inr v" for es v
    using keepsD [OF c' that] by simp
  then show ?thesis
    unfolding parse_commands_def by (intro keeps_bind_value) (simp add: case_prod_beta keeps_loop a)
qed

lemma extend_group_opts [simp]: "gen_opts (extend_group g e r) = gen_opts r"
  by (simp add: extend_group_def split: option.split)

lemma feature_enums_opts:
  "gen_opts (fst s) = x \<Longrightarrow> keeps (gen_opts \<circ> fst) x (parse_feature_enum fi e s)"
  "gen_opts (fst s) = x \<Longrightarrow> keeps (gen_opts \<circ> fst) x (parse_extension_enum fi el e s)"
proof -
  have add: "keeps (gen_opts \<circ> fst) x (rbind (add_enum_info e g r) (\<lambda>r. Inr (r, c)))"
    if "gen_opts r = x" for g r and c :: conditions
    using keepsD [OF add_enum_info_opts [OF that]] by (auto simp: keeps_def elim!: rbind_InrE)
  obtain r cs where s: "s = (r, cs)" by (cases s)
  assume x: "gen_opts (fst s) = x"
  show "keeps (gen_opts \<circ> fst) x (parse_feature_enum fi e s)"
    unfolding parse_feature_enum_def Let_def s using x s
    by (simp add: add split: option.split) (intro allI impI keeps_bind_value add, simp)
  show "keeps (gen_opts \<circ> fst) x (parse_extension_enum fi el e s)"
    unfolding parse_extension_enum_def Let_def s using x s
    by (simp add: add split: option.split) (intro allI impI keeps_bind_value add, simp)
qed

lemma parse_features_opts: "gen_opts r = x \<Longrightarrow> keeps (gen_opts \<circ> fst) x (parse_features r)"
proof -
  assume x: "gen_opts r = x"
  have f: "keeps (gen_opts \<circ> fst) x (parse_feature e s)" "keeps (gen_opts \<circ> fst) x (parse_extension e s)"
    if "gen_opts (fst s) = x" for e s
    using that unfolding parse_feature_def parse_extension_def
    by (auto split: prod.splits intro!: keeps_bind_value keeps_loop feature_enums_opts)
  have f': "keeps (gen_opts \<circ> fst) x (for_each parse_feature es (r\<lparr>apidict := []\<rparr>, c))" for es c
    by (rule keeps_loop) (simp_all add: x f)
  have "gen_opts (fst v) = x" if "for_each parse_feature es (r\<lparr>apidict := []\<rparr>, c) = Inr v" for es c v
    using keepsD [OF f' that] by simp
  then show ?thesis
    unfolding parse_features_def Let_def by (intro keeps_bind_value) (simp add: case_prod_beta, rule keeps_loop, simp_all add: f)
qed

lemma load_opts:
  assumes "loadElementTree d tree r = Inr r'" shows "gen_opts r' = gen_opts r"
proof -
  let ?x = "gen_opts r"
  have pre: "keeps gen_opts ?x (preprocess d s)" if "gen_opts s = ?x" for s
    using that unfolding preprocess_def Let_def by (auto intro!: keeps_bind_value)
  have rest: "gen_opts (parse_sync cs (parse_formats cs (parse_spirv s))) = gen_opts s" "gen_opts (parse_groups s) = gen_opts s" for cs s
    unfolding parse_sync_def parse_formats_def parse_spirv_def parse_groups_def Let_def
    by (simp_all add: fold_keeps [where g = gen_opts])
  have fin: "keeps gen_opts ?x (rbind (parse_features s) (\<lambda>(r, cs). Inr (parse_sync cs (parse_formats cs (parse_spirv r)))))"
    if "gen_opts s = ?x" for s
    using keepsD [OF parse_features_opts [OF that]] by (intro keeps_bind_value) (auto simp: rest)
  have "keeps gen_opts ?x (loadElementTree d tree r)"
    unfolding loadElementTree_def parseTree_def Let_def
    by (auto split: prod.splits option.splits
        intro!: keeps_bind pre parse_types_opts parse_enums_opts parse_commands_opts fin simp: rest)
  then show ?thesis using assms by (rule keepsD)
qed

section \<open>What is emitted was asked for\<close>

text \<open>\<open>n\<close> is matched by the pattern for versions, or by the one for extensions and not the one for removals.\<close>

definition asked_for :: "'a generator_options_scheme \<Rightarrow> string \<Rightarrow> bool" where
  "asked_for opts n \<longleftrightarrow> re_match (versions opts) n \<and> re_match (emitversions opts) n \<or>
     re_match (emitExtensions opts) n \<and> \<not> re_match (removeExtensions opts) n"

definition emits_asked :: "generator_options \<Rightarrow> registry \<Rightarrow> bool" where
  "emits_asked opts r \<longleftrightarrow> (\<forall>f \<in> snd ` set (genFeatures r). f_emit f \<longrightarrow>
     (\<exists>n. elem_get (doc r) (i_elem f) ''name'' = Some n \<and> asked_for opts n))"

lemma named_adjust:
  "named st d \<Longrightarrow> named st (dict_adjust k (\<lambda>f. f\<lparr>f_emit := b\<rparr>) d)"
  by (force simp: dict_adjust_def named_def split: if_splits)

lemma emits_update:
  assumes "emits_asked opts r" and "f_emit f \<Longrightarrow> \<exists>n. elem_get (doc r) (i_elem f) ''name'' = Some n \<and> asked_for opts n"
  shows "emits_asked opts (r\<lparr>genFeatures := AList.update k f (genFeatures r)\<rparr>)"
  using assms set_update_snd [of k f "genFeatures r"] unfolding emits_asked_def by fastforce

definition selection_ok :: "generator_options \<Rightarrow> registry \<Rightarrow> bool" where
  "selection_ok opts r \<longleftrightarrow> gen_opts r = opts \<and> feats_named r \<and> emits_asked opts r"

lemma selection_ok_select:
  assumes "selection_ok opts r" and "map_of d k = Some f" and "d = apidict r \<or> d = extdict r"
    and "f_name f = Some n" and "emit \<Longrightarrow> asked_for opts n"
  shows "emits_asked opts (r\<lparr>genFeatures := AList.update (Some n) (f\<lparr>f_emit := emit\<rparr>) (genFeatures r)\<rparr>)"
proof (rule emits_update)
  show "emits_asked opts r" using assms(1) by (simp add: selection_ok_def)
  have "f \<in> snd ` set d" using assms(2) by (force dest: map_of_SomeD)
  then have "elem_get (doc r) (i_elem f) ''name'' = Some n"
    using assms(1,3,4) by (auto simp: selection_ok_def feats_named_def named_def)
  then show "\<exists>n. elem_get (doc r) (i_elem (f\<lparr>f_emit := emit\<rparr>)) ''name'' = Some n \<and> asked_for opts n"
    if "f_emit (f\<lparr>f_emit := emit\<rparr>)" using that assms(5) by auto
qed

lemma selection_ok_other [simp]:
  "selection_ok opts (r\<lparr>removedExtensionNames := n\<rparr>) = selection_ok opts r"
  "selection_ok opts (r\<lparr>genFeatures := g, requiredextensions := x\<rparr>) = selection_ok opts (r\<lparr>genFeatures := g\<rparr>)"
  by (simp_all add: selection_ok_def feats_named_def emits_asked_def)

lemma selection_ok_flag:
  assumes "selection_ok opts r" and "emits_asked opts (r\<lparr>genFeatures := g\<rparr>)"
  shows "selection_ok opts (r\<lparr>apidict := dict_adjust k (\<lambda>f. f\<lparr>f_emit := b\<rparr>) (apidict r), genFeatures := g\<rparr>)"
    and "selection_ok opts (r\<lparr>extdict := dict_adjust k (\<lambda>f. f\<lparr>f_emit := b\<rparr>) (extdict r), genFeatures := g\<rparr>)"
  using assms named_adjust by (simp_all add: selection_ok_def feats_named_def emits_asked_def)

lemma select_version_ok:
  assumes "selection_ok opts r" and "select_version k r = Inr s" shows "selection_ok opts s"
proof -
  have o: "gen_opts r = opts" using assms(1) by (simp add: selection_ok_def)
  obtain f where f: "map_of (apidict r) k = Some f" using assms(2) by (auto simp: select_version_def split: option.splits)
  show ?thesis
  proof (cases "apiNameMatch (api_to_match r) (elem_get (doc r) (i_elem f) ''api'')")
    case True
    then obtain n where n: "f_name f = Some n" using assms(2) f by (auto simp: select_version_def split: option.splits)
    show ?thesis
    proof (cases "re_match (versions opts) n")
      case m: True
      have "emits_asked opts (r\<lparr>genFeatures := AList.update (Some n) (f\<lparr>f_emit := re_match (emitversions opts) n\<rparr>) (genFeatures r)\<rparr>)"
        by (rule selection_ok_select [OF assms(1) f]) (use n m in \<open>simp_all add: asked_for_def\<close>)
      from selection_ok_flag(1) [OF assms(1) this] show ?thesis
        using assms(2) f True n m o by (auto simp: select_version_def Let_def)
    next
      case False
      with assms f True n o show ?thesis by (auto simp: select_version_def Let_def)
    qed
  next
    case False
    with assms f show ?thesis by (auto simp: select_version_def)
  qed
qed

lemma select_extension_ok:
  assumes "selection_ok opts r" and "select_extension k r = Inr s" shows "selection_ok opts s"
proof -
  have o: "gen_opts r = opts" using assms(1) by (simp add: selection_ok_def)
  obtain f n where f: "map_of (extdict r) k = Some f" and n: "f_name f = Some n"
    using assms(2) by (auto simp: select_extension_def split: option.splits)
  let ?b = "re_match (removeExtensions opts) n \<and> included_by_default r f"
  let ?r = "if ?b then r\<lparr>removedExtensionNames := add_removed_name (Some n) (removedExtensionNames r)\<rparr> else r"
  have r: "selection_ok opts ?r" "extdict ?r = extdict r" "gen_opts ?r = opts" using assms(1) o by simp_all
  show ?thesis
  proof (cases "extension_included r f n")
    case True
    then have "\<not> re_match (removeExtensions opts) n" by (auto simp: extension_included_def o Let_def)
    then have "emits_asked opts (?r\<lparr>genFeatures := AList.update (Some n) (f\<lparr>f_emit := re_match (emitExtensions opts) n\<rparr>) (genFeatures ?r)\<rparr>)"
      by (intro selection_ok_select [OF r(1), where d = "extdict r" and k = k]) (use n f r in \<open>simp_all add: asked_for_def\<close>)
    from selection_ok_flag(2) [OF r(1) this, of k "re_match (emitExtensions opts) n"] show ?thesis
      using assms(2) True f n o \<open>\<not> re_match (removeExtensions opts) n\<close> by (auto simp: select_extension_def Let_def)
  next
    case False
    with assms f n o r(1) show ?thesis by (auto simp: select_extension_def Let_def split: if_splits)
  qed
qed

lemma select_all_emits:
  assumes "select_all r = Inr s" and "feats_named r" shows "emits_asked (gen_opts r) s"
proof -
  let ?P = "selection_ok (gen_opts r)"
  obtain r1 r2 r3 where r: "select_versions r = Inr r1" "select_extensions r1 = Inr r2" "select_spirv r2 = Inr r3"
    "select_formats r3 = Inr s"
    using assms by (auto simp: select_all_def elim!: rbind_InrE)
  have "?P r1"
    using r(1) unfolding select_versions_def
  proof (rule for_each_inv [where P = ?P])
    show "?P (r\<lparr>genFeatures := []\<rparr>)" using assms(2) by (simp add: selection_ok_def feats_named_def emits_asked_def)
  qed (rule select_version_ok)
  then have "?P (r1\<lparr>removedExtensionNames := Some []\<rparr>)" by simp
  with r(2) have "?P r2" unfolding select_extensions_def by (rule for_each_inv) (rule select_extension_ok)
  then show ?thesis
    using r(3,4) by (auto simp: select_spirv_def select_formats_def selection_ok_def emits_asked_def elim!: rbind_InrE)
qed

end
