(* ===== verification/VkexGen.thy ===== *)
theory VkexGen
  imports RegApiGen
begin

text \<open>
  The generator of \<^verbatim>\<open>vkex.hpp\<close>, \<^verbatim>\<open>src/tools/vkex/vkexgenerator.py\<close>, with the methods of its base
  class \<^verbatim>\<open>OutputGenerator\<close> (\<^verbatim>\<open>src/tools/vkex/generator.py\<close>) that it calls. The output file is the
  text written so far; what is printed to the console is kept in \<open>printed\<close>, line by line. At the
  end the whole is one function \<open>vkex_gen\<close>, a client of the registry.
\<close>

section \<open>Text of declarations\<close>

definition noneStr :: "string option \<Rightarrow> string" where
  "noneStr s = (case s of None \<Rightarrow> [] | Some t \<Rightarrow> t)"

definition concat_text :: "string \<Rightarrow> string \<Rightarrow> string" where
  "concat_text a b =
     (if a = [] then b
      else if b = [] then a
      else if \<not> py_isspace (last a) \<and> py_isalnum (hd b) then a @ '' '' @ b
      else a @ b)"

definition convertTypeRef :: "string \<Rightarrow> string" where
  "convertTypeRef name = (if prefix ''Vk'' name then ''vk::'' @ drop 2 name else name)"

definition convertTypeDecl :: "string \<Rightarrow> string" where
  "convertTypeDecl name = (if prefix ''Vk'' name then drop 2 name else name)"

text \<open>\<^verbatim>\<open>name[len(prefix)]\<close> is out of range when the name is the prefix itself.\<close>

definition removePrefix :: "string \<Rightarrow> string \<Rightarrow> string res" where
  "removePrefix name pre =
     (if prefix pre name
      then (case drop (length pre) name of [] \<Rightarrow> Inl IndexError | c # rest \<Rightarrow> Inr (chr_lower c # rest))
      else Inr name)"

definition removePointer :: "string \<Rightarrow> string res" where
  "removePointer decl =
     (let decl = strip decl in
      if decl = [] then Inl IndexError
      else if last decl \<noteq> CHR ''*'' then Inl (RuntimeError (''Expected '' @ [CHR 0x27] @ ''*'' @ [CHR 0x27]))
      else let decl = strip (butlast decl) in
        if suffix ''const'' decl then Inr (strip (take (length decl - 5) decl))
        else if prefix ''const'' decl then Inr (strip (drop 5 decl))
        else Inr decl)"

text \<open>The opening and closing lines around a protected declaration.\<close>

definition genProtectString :: "string option \<Rightarrow> string \<times> string" where
  "genProtectString protect_str =
     (case protect_str of
        None \<Rightarrow> ([], [])
      | Some s \<Rightarrow>
          if s = [] then ([], [])
          else if CHR '','' \<in> set s then
            let cond = py_join '' && '' (map (\<lambda>d. ''defined('' @ d @ '')'') (py_split CHR '','' s)) in
            (''#if '' @ cond @ [CHR 0x0A], ''#endif // '' @ cond @ [CHR 0x0A])
          else (''#ifdef '' @ s @ [CHR 0x0A], ''#endif // '' @ s @ [CHR 0x0A]))"

section \<open>State\<close>

record vkex_state =
  v_genOpts :: "vkex_options option"
  v_outFile :: string
  v_featureName :: pname
  v_featureExtraProtect :: pname
  v_emit :: bool
  v_sections :: "(string, string list) dict"
  v_feature_not_empty :: bool
  v_may_alias :: "string list"
  v_emittedStructs :: "pname list"
  v_structTypeCounts :: "(string, nat) dict"
  v_printed :: "string list"
  v_files :: "((string \<times> string) \<times> string) list"

definition TYPE_SECTIONS :: "string list" where
  "TYPE_SECTIONS = [''include'', ''define'', ''basetype'', ''handle'', ''enum'', ''group'', ''bitmask'',
     ''funcpointer'', ''struct'']"

definition ALL_SECTIONS :: "string list" where
  "ALL_SECTIONS = TYPE_SECTIONS @ [''commandPointer'', ''command'']"

definition empty_sections :: "(string, string list) dict" where
  "empty_sections = map (\<lambda>s. (s, [])) ALL_SECTIONS"

definition VkexOutputGenerator :: "vkex_options option \<Rightarrow> vkex_state" where
  "VkexOutputGenerator opts =
     \<lparr>v_genOpts = opts, v_outFile = [], v_featureName = None, v_featureExtraProtect = None, v_emit = False,
      v_sections = empty_sections, v_feature_not_empty = False, v_may_alias = [], v_emittedStructs = [],
      v_structTypeCounts = [(''trivial'', 0), (''straightforward'', 0), (''complex'', 0)], v_printed = [], v_files = []\<rparr>"

text \<open>\<^verbatim>\<open>write\<close> joins its arguments with blanks and ends the line.\<close>

definition write_end :: "string list \<Rightarrow> string \<Rightarrow> vkex_state \<Rightarrow> vkex_state" where
  "write_end args end_text g = g\<lparr>v_outFile := v_outFile g @ py_join '' '' args @ end_text\<rparr>"

definition write_line :: "string list \<Rightarrow> vkex_state \<Rightarrow> vkex_state" where
  "write_line args = write_end args [CHR 0x0A]"

definition newline :: "vkex_state \<Rightarrow> vkex_state" where
  "newline = write_line [[]]"

definition missing_options :: "'a res" where
  "missing_options = Inl (RuntimeError ''Missing generator options object self.genOpts'')"

definition missing_conventions :: "'a res" where
  "missing_conventions = Inl (RuntimeError ''Missing Conventions object self.genOpts.conventions'')"

section \<open>Files\<close>

fun replace_hpp :: "string \<Rightarrow> string" where
  "replace_hpp [] = []"
| "replace_hpp (c # s) =
     (if prefix ''.hpp'' (c # s) then ''_hpp_'' @ replace_hpp (drop 3 s) else c # replace_hpp s)"

definition basename :: "string \<Rightarrow> string" where
  "basename path = last (py_split CHR ''/'' path)"

definition version_defines :: "nat \<Rightarrow> vkex_state \<Rightarrow> vkex_state" where
  "version_defines i g =
     fold (\<lambda>kind. write_line [''#define VK_'' @ kind @ ''_VERSION_1_'' @ show_int (int i)])
       [''BASE'', ''COMPUTE'', ''GRAPHICS''] g"

definition guarded_file :: "vkex_options \<Rightarrow> bool" where
  "guarded_file opts \<longleftrightarrow> protectFile (vkex opts) \<and> truthy (filename opts)"

definition base_beginFile :: "vkex_options option \<Rightarrow> vkex_state \<Rightarrow> vkex_state res" where
  "base_beginFile genOpts g =
     (case genOpts of
        None \<Rightarrow> missing_options
      | Some opts \<Rightarrow>
          if conventions opts = None then missing_conventions
          else Inr (g\<lparr>v_genOpts := Some opts, v_outFile := []\<rparr>))"

definition beginFile :: "vkex_options option \<Rightarrow> vkex_state \<Rightarrow> vkex_state res" where
  "beginFile genOpts g =
     rbind (base_beginFile genOpts g) (\<lambda>g.
     case v_genOpts g of
        None \<Rightarrow> missing_options
      | Some opts \<Rightarrow>
          let g = (if guarded_file opts
                   then let headerSym = py_upper (replace_hpp (basename (the (filename opts)))) in
                        newline (write_line [''#define'', headerSym] (write_line [''#ifndef'', headerSym] g))
                   else g);
              g = newline (write_line [''#include '' @ [CHR 0x22] @ ''vkex/vkex_utils.hpp'' @ [CHR 0x22]] g);
              g = newline (fold version_defines [0..<5] g);
              g = newline (fold (\<lambda>s. write_line [s]) (prefixText (vkex opts)) g)
          in Inr (newline (write_line [''namespace vkex'' @ [CHR 0x0A] @ ''{''] g)))"

definition print_line :: "string \<Rightarrow> vkex_state \<Rightarrow> vkex_state" where
  "print_line s g = g\<lparr>v_printed := v_printed g @ [s]\<rparr>"

text \<open>The text goes to a temporary file, which is copied to the target once it is complete.\<close>

definition base_endFile :: "vkex_state \<Rightarrow> vkex_state res" where
  "base_endFile g =
     (case v_genOpts g of
        None \<Rightarrow> missing_options
      | Some opts \<Rightarrow>
          let g = (case filename opts of
                     None \<Rightarrow> g
                   | Some name \<Rightarrow> g\<lparr>v_files := AList.update (directory opts, name) (v_outFile g) (v_files g)\<rparr>)
          in Inr (g\<lparr>v_genOpts := None\<rparr>))"

definition endFile :: "vkex_state \<Rightarrow> vkex_state res" where
  "endFile g =
     (case v_genOpts g of
        None \<Rightarrow> missing_options
      | Some opts \<Rightarrow>
          let g = write_line [''} // namespace vkex''] (newline g);
              g = (if guarded_file opts then write_line [''#endif''] (newline g) else g);
              g = fold (\<lambda>(kind, n). print_line (''Total '' @ kind @ '' structs: '' @ show_int (int n))) (v_structTypeCounts g) g
          in base_endFile g)"

section \<open>Features\<close>

definition base_beginFeature :: "store \<Rightarrow> addr \<Rightarrow> bool \<Rightarrow> vkex_state \<Rightarrow> vkex_state" where
  "base_beginFeature st interface emit g =
     g\<lparr>v_emit := emit, v_featureName := elem_get st interface ''name'',
       v_featureExtraProtect := elem_get st interface ''protect''\<rparr>"

definition beginFeature :: "store \<Rightarrow> addr \<Rightarrow> bool \<Rightarrow> vkex_state \<Rightarrow> vkex_state" where
  "beginFeature st interface emit g =
     (base_beginFeature st interface emit g)\<lparr>v_sections := empty_sections, v_feature_not_empty := False\<rparr>"

text \<open>The conventions ask for no comment after \<^verbatim>\<open>#endif\<close>.\<close>

definition endProtectComment :: "pname \<Rightarrow> pname \<Rightarrow> string res" where
  "endProtectComment protect_str protect_directive =
     (if protect_directive = None \<or> protect_str = None
      then Inl (RuntimeError ''Should not call in here without something to protect'') else Inr [])"

definition section_of :: "string \<Rightarrow> vkex_state \<Rightarrow> string list res" where
  "section_of name g = (case map_of (v_sections g) name of None \<Rightarrow> Inl KeyError | Some l \<Rightarrow> Inr l)"

definition write_section :: "string \<Rightarrow> vkex_state \<Rightarrow> vkex_state res" where
  "write_section name g =
     rbind (section_of name g) (\<lambda>contents.
     Inr (if contents = [] then g else write_line [py_join [CHR 0x0A] contents] g))"

definition is_core :: "pname \<Rightarrow> bool" where
  "is_core name = (case name of None \<Rightarrow> False | Some n \<Rightarrow> n \<noteq> [] \<and> prefix ''VK_VERSION_'' n)"

definition open_protect :: "bool \<Rightarrow> pname \<Rightarrow> pname \<Rightarrow> vkex_state \<Rightarrow> vkex_state" where
  "open_protect on directive name g = (if on then write_line [py_str directive, py_str name] g else g)"

definition close_protect :: "bool \<Rightarrow> pname \<Rightarrow> pname \<Rightarrow> vkex_state \<Rightarrow> vkex_state res" where
  "close_protect on directive name g =
     (if \<not> on then Inr g
      else rbind (endProtectComment name directive) (\<lambda>c. Inr (write_line [''#endif'' @ c] g)))"

definition write_commands :: "vkex_fields \<Rightarrow> vkex_state \<Rightarrow> vkex_state res" where
  "write_commands v g =
     rbind (section_of ''command'' g) (\<lambda>contents.
     if contents = [] then Inr g
     else
       let proto = truthy (protectProto v); ext = truthy (protectExtensionProto v) \<and> \<not> is_core (v_featureName g);
           g = open_protect proto (protectProto v) (protectProtoStr v) g;
           g = open_protect ext (protectExtensionProto v) (protectExtensionProtoStr v) g;
           g = write_end [py_join [CHR 0x0A] contents] [] g
       in rbind (close_protect ext (protectExtensionProto v) (protectExtensionProtoStr v) g) (\<lambda>g.
          if proto then close_protect proto (protectProto v) (protectProtoStr v) g else Inr (newline g)))"

definition write_pointers :: "vkex_fields \<Rightarrow> vkex_state \<Rightarrow> vkex_state res" where
  "write_pointers v g =
     (if \<not> genFuncPointers v then Inr g
      else rbind (section_of ''commandPointer'' g) (\<lambda>contents.
           Inr (if contents = [] then g else newline (write_line [py_join [CHR 0x0A] contents] g))))"

definition write_feature :: "vkex_options \<Rightarrow> vkex_state \<Rightarrow> vkex_state res" where
  "write_feature opts g =
     rbind (for_each write_section TYPE_SECTIONS (write_line [''#ifdef'', py_str (v_featureName g)] (newline g))) (\<lambda>g.
     rbind (write_pointers (vkex opts) g) (\<lambda>g.
     rbind (write_commands (vkex opts) g) (\<lambda>g.
     rbind (endProtectComment (v_featureName g) (Some ''#ifdef'')) (\<lambda>c.
     Inr (write_line [''#endif'' @ c] g)))))"

definition base_endFeature :: "vkex_state \<Rightarrow> vkex_state" where
  "base_endFeature g = g\<lparr>v_featureName := None, v_featureExtraProtect := None\<rparr>"

definition endFeature :: "vkex_state \<Rightarrow> vkex_state res" where
  "endFeature g =
     rbind (if v_emit g \<and> v_feature_not_empty g
            then (case v_genOpts g of
                    None \<Rightarrow> missing_options
                  | Some opts \<Rightarrow> if conventions opts = None then missing_conventions else write_feature opts g)
            else Inr g) (\<lambda>g.
     Inr (base_endFeature g))"

definition appendSection :: "pname \<Rightarrow> string \<Rightarrow> vkex_state \<Rightarrow> vkex_state res" where
  "appendSection section_name txt g =
     (case section_name of
        None \<Rightarrow> log_error [''Missing section in appendSection (probably a <type> element missing its ''
                  @ [CHR 0x27] @ ''category'' @ [CHR 0x27] @ '' attribute. Text:'', txt]
      | Some s \<Rightarrow>
          rbind (section_of s g) (\<lambda>l.
          Inr (g\<lparr>v_sections := AList.update s (l @ [txt]) (v_sections g), v_feature_not_empty := True\<rparr>)))"

section \<open>Structures\<close>

text \<open>\<^verbatim>\<open>OutputGenerator.genStruct\<close> takes the comments out of the members.\<close>

definition validateFeature :: "string \<Rightarrow> pname \<Rightarrow> vkex_state \<Rightarrow> unit res" where
  "validateFeature featureType name g =
     (if v_featureName g = None
      then Inl (UserWarning (py_join '' '' [''Attempt to generate'', featureType, py_str name, ''when not in feature'']))
      else Inr ())"

definition remove_comments :: "addr \<Rightarrow> store \<Rightarrow> store res" where
  "remove_comments e st =
     for_each (\<lambda>member st. for_each (\<lambda>c st. elem_remove st member c) (findall st member ''comment'') st)
       (findall_below st e ''member'') st"

text \<open>\<^verbatim>\<open>Member\<close>; \<^verbatim>\<open>isConst\<close> is set together with \<^verbatim>\<open>isArray\<close> only.\<close>

record vmember =
  m_elem :: addr
  m_lengthOf :: "pname list"
  m_isArray :: bool
  m_isConst :: "bool option"

definition Member :: "addr \<Rightarrow> vmember" where
  "Member e = \<lparr>m_elem = e, m_lengthOf = [], m_isArray = False, m_isConst = None\<rparr>"

definition isConst_of :: "vmember \<Rightarrow> bool res" where
  "isConst_of m = (case m_isConst m of None \<Rightarrow> Inl AttributeError | Some b \<Rightarrow> Inr b)"

type_synonym members = "(pname, vmember) dict"

datatype struct_kind = Trivial | Straightforward | Complex

fun kind_name :: "struct_kind \<Rightarrow> string" where
  "kind_name Trivial = ''trivial''"
| "kind_name Straightforward = ''straightforward''"
| "kind_name Complex = ''complex''"

definition autoGenerateableStructs :: "string list" where
  "autoGenerateableStructs = [''VkBufferCreateInfo'', ''VkRenderPassBeginInfo'']"

definition brokenStructs :: "string list" where
  "brokenStructs = [''VkVideoDecodeH265PictureInfoKHR'', ''VkCudaModuleCreateInfoNV'', ''VkSwapchainTimeDomainPropertiesEXT'']"

definition length_name :: "string \<Rightarrow> string" where
  "length_name len = (case py_split CHR '','' len of [a, b] \<Rightarrow> if b = ''null-terminated'' then a else len | _ \<Rightarrow> len)"

text \<open>The array \<open>name\<close> takes its length from another member, if that was seen before.\<close>

definition link_length :: "string \<Rightarrow> pname \<Rightarrow> bool \<Rightarrow> struct_kind \<times> members \<Rightarrow> struct_kind \<times> members" where
  "link_length len name isConst km = (case km of (kind, ms) \<Rightarrow>
     (if map_of ms (Some len) \<noteq> None
      then (if kind = Trivial then Straightforward else kind,
            dict_adjust name (\<lambda>m. m\<lparr>m_isArray := True, m_isConst := Some isConst\<rparr>)
              (dict_adjust (Some len) (\<lambda>m. m\<lparr>m_lengthOf := m_lengthOf m @ [name]\<rparr>) ms))
      else (if len \<noteq> ''null-terminated'' then Complex else kind, ms)))"

definition add_member ::
  "store \<Rightarrow> pname \<Rightarrow> addr \<Rightarrow> (struct_kind \<times> members) \<times> vkex_state \<Rightarrow> ((struct_kind \<times> members) \<times> vkex_state) res" where
  "add_member st typeName e s = (case s of ((kind, ms), g) \<Rightarrow>
     (case find_elem st e ''name'' of
        None \<Rightarrow> Inl AttributeError
      | Some nameElem \<Rightarrow>
          let name = elem_text st nameElem in
          if truthy (elem_get st e ''deprecated'') then Inr ((kind, ms), print_line ''  deprecated'' (print_line (py_str name) g))
          else if name \<in> {Some ''sType'', Some ''pNext''} then Inr s
          else
            let ms = AList.update name (Member e) ms;
                kind = (if truthy (elem_get st e ''altlen'') then Complex else kind)
            in if prefix ''['' (noneStr (elem_tail st nameElem)) then Inr ((Complex, ms), g)
               else (case elem_get st e ''len'' of
                       None \<Rightarrow> Inr ((kind, ms), g)
                     | Some len \<Rightarrow>
                         if len = [] then Inr ((kind, ms), g)
                         else
                           let kind = (if truthy (elem_get st e ''noautovalidity'') \<and> typeName \<notin> Some ` set autoGenerateableStructs
                                       then Complex else kind);
                               isConst = prefix ''const'' (strip (noneStr (elem_text st e)))
                           in Inr (link_length (length_name len) name isConst (kind, ms), g))))"

definition collect_members ::
  "store \<Rightarrow> pname \<Rightarrow> addr \<Rightarrow> vkex_state \<Rightarrow> ((struct_kind \<times> members) \<times> vkex_state) res" where
  "collect_members st typeName e g = for_each (add_member st typeName) (findall_below st e ''member'') ((Trivial, []), g)"

text \<open>One element of a declaration; the pieces of an array are folded into the type \<^verbatim>\<open>Array\<close>.\<close>

definition elementStr :: "store \<Rightarrow> string \<Rightarrow> addr \<Rightarrow> bool \<Rightarrow> string res" where
  "elementStr st pre e toArray =
     (let txt = strip (noneStr (elem_text st e)); tail = strip (noneStr (elem_tail st e)) in
      if elem_tag st e = ''type'' then
        let txt = convertTypeRef txt in
        if toArray then
          rbind (removePointer (concat_text (concat_text pre txt) tail)) (\<lambda>elemType.
          let elemType = (if elemType = ''void'' then ''std::byte'' else elemType);
              arrayType = ''Array<'' @ elemType @ ''>''
          in Inr (if prefix ''const'' pre then arrayType else arrayType @ ''*''))
        else Inr (concat_text (concat_text pre txt) tail)
      else if elem_tag st e = ''name'' \<and> toArray then
        rbind (removePrefix txt ''p'') (\<lambda>txt. Inr (concat_text (concat_text pre txt) tail))
      else Inr (concat_text (concat_text pre txt) tail))"

definition declare_elements :: "store \<Rightarrow> addr \<Rightarrow> bool \<Rightarrow> string \<Rightarrow> string res" where
  "declare_elements st e isArray body =
     rbind (for_each (\<lambda>c (body, pre). rbind (elementStr st pre c isArray) (\<lambda>s. Inr (concat_text body s, [])))
              (elem_children st e) (body, strip (noneStr (elem_text st e)))) (\<lambda>(body, pre). Inr body)"

definition declare_member :: "vmember \<Rightarrow> string \<times> store \<Rightarrow> (string \<times> store) res" where
  "declare_member m s = (case s of (body, st) \<Rightarrow>
     (if m_lengthOf m \<noteq> [] then Inr s
      else
        rbind (case find_elem st (m_elem m) ''comment'' of
                 None \<Rightarrow> Inr s
               | Some comment \<Rightarrow>
                   (case elem_text st comment of
                      None \<Rightarrow> Inl TypeError
                    | Some t \<Rightarrow> rbind (elem_remove st (m_elem m) comment) (\<lambda>st.
                        Inr (body @ ''    /// '' @ t @ [CHR 0x0A], st)))) (\<lambda>(body, st).
        rbind (declare_elements st (m_elem m) (m_isArray m) (body @ ''    '')) (\<lambda>body.
        Inr (body @ '' = {};'' @ [CHR 0x0A], st)))))"

text \<open>The conversion function: equal lengths are checked, then every field is assigned.\<close>

definition removePrefix_name :: "pname \<Rightarrow> string res" where
  "removePrefix_name name = (case name of None \<Rightarrow> Inl AttributeError | Some n \<Rightarrow> removePrefix n ''p'')"

definition member_of :: "members \<Rightarrow> pname \<Rightarrow> vmember res" where
  "member_of ms name = (case map_of ms name of None \<Rightarrow> Inl KeyError | Some m \<Rightarrow> Inr m)"

definition check_length :: "members \<Rightarrow> pname \<Rightarrow> pname \<Rightarrow> string \<Rightarrow> string res" where
  "check_length ms fst_name m body =
     rbind (removePrefix_name fst_name) (\<lambda>lengthMember.
     rbind (removePrefix_name m) (\<lambda>equalLengthMember.
     rbind (rbind (member_of ms m) isConst_of) (\<lambda>isConst.
     Inr (if isConst
          then body @ ''        VKEX_ASSERT('' @ equalLengthMember @ ''.size() == '' @ lengthMember @ ''.size());'' @ [CHR 0x0A]
          else body @ ''        if ('' @ equalLengthMember @ '' && '' @ equalLengthMember @ ''->size() != '' @ lengthMember
                 @ ''.size())'' @ [CHR 0x0A] @ ''        {'' @ [CHR 0x0A] @ ''            '' @ equalLengthMember @ ''->reset('' @ lengthMember
                 @ ''.size());'' @ [CHR 0x0A] @ ''        }'' @ [CHR 0x0A]))))"

definition check_member :: "members \<Rightarrow> pname \<times> vmember \<Rightarrow> string \<Rightarrow> string res" where
  "check_member ms nm body =
     (case m_lengthOf (snd nm) of [] \<Rightarrow> Inr body | f # rest \<Rightarrow> for_each (check_length ms f) rest body)"

definition member_value :: "members \<Rightarrow> pname \<times> vmember \<Rightarrow> string res" where
  "member_value ms nm = (case nm of (name, member) \<Rightarrow>
     (case m_lengthOf member of
        f # rest \<Rightarrow>
          rbind (removePrefix_name f) (\<lambda>arrayMemberName.
          rbind (rbind (member_of ms f) isConst_of) (\<lambda>isConst.
          Inr (if isConst then arrayMemberName @ ''.size()''
               else arrayMemberName @ '' ? '' @ arrayMemberName @ ''->size() : 0'')))
      | [] \<Rightarrow>
          if m_isArray member then
            rbind (removePrefix_name name) (\<lambda>arrayMemberName.
            rbind (isConst_of member) (\<lambda>isConst.
            Inr (if isConst then arrayMemberName @ ''.data()''
                 else arrayMemberName @ '' ? '' @ arrayMemberName @ ''->data() : nullptr'')))
          else Inr (py_str name)))"

definition assign_member :: "members \<Rightarrow> pname \<times> vmember \<Rightarrow> string \<Rightarrow> string res" where
  "assign_member ms nm body =
     rbind (member_value ms nm) (\<lambda>value.
     Inr (body @ ''        r.'' @ py_str (fst nm) @ '' = '' @ value @ '';'' @ [CHR 0x0A]))"

definition map_function :: "members \<Rightarrow> string \<Rightarrow> string res" where
  "map_function ms body =
     rbind (for_each (check_member ms) ms (body @ ''    MappedType map() const'' @ [CHR 0x0A] @ ''    {'' @ [CHR 0x0A])) (\<lambda>body.
     rbind (for_each (assign_member ms) ms (body @ ''        MappedType r;'' @ [CHR 0x0A])) (\<lambda>body.
     Inr (body @ ''        return r;'' @ [CHR 0x0A] @ ''    }'' @ [CHR 0x0A, CHR 0x0A]
            @ ''    operator MappedType() const { return map(); }'' @ [CHR 0x0A] @ ''};'' @ [CHR 0x0A])))"

definition may_alias_names :: "registry \<Rightarrow> string list" where
  "may_alias_names r =
     concat (map (\<lambda>(k, i). case k of Name (Some n) \<Rightarrow> (if elem_get (doc r) (i_elem i) ''mayalias'' = Some ''true'' then [n] else [])
                          | _ \<Rightarrow> []) (typedict r)) @
     concat (map (\<lambda>(k, i). case elem_get (doc r) (i_elem i) ''parentstruct'' of None \<Rightarrow> [] | Some p \<Rightarrow> [p]) (typedict r))"

definition typeMayAlias :: "registry \<Rightarrow> pname \<Rightarrow> vkex_state \<Rightarrow> bool \<times> vkex_state" where
  "typeMayAlias r typeName g =
     (let g = (if v_may_alias g = [] then g\<lparr>v_may_alias := may_alias_names r\<rparr> else g)
      in (typeName \<in> Some ` set (v_may_alias g), g))"

definition struct_head ::
  "vkex_fields \<Rightarrow> registry \<Rightarrow> pname \<Rightarrow> addr \<Rightarrow> vkex_state \<Rightarrow> (string \<times> vkex_state) res" where
  "struct_head v r typeName e g =
     (let st = doc r; body = fst (genProtectString (elem_get st e ''protect'')) in
      rbind (if genStructExtendsComment v \<and> truthy (elem_get st e ''structextends'')
             then (case typeName of
                     None \<Rightarrow> Inl TypeError
                   | Some n \<Rightarrow> Inr (body @ ''// '' @ n @ '' extends '' @ the (elem_get st e ''structextends'') @ [CHR 0x0A]))
             else Inr body) (\<lambda>body.
      case elem_get st e ''category'' of
        None \<Rightarrow> Inl TypeError
      | Some cat \<Rightarrow>
          let body = body @ cat;
              (alias_macro, g) = (if genAliasMacro v then typeMayAlias r typeName g else (False, g));
              body = (if alias_macro then body @ '' '' @ aliasMacro v else body)
          in (case typeName of
                None \<Rightarrow> Inl AttributeError
              | Some n \<Rightarrow>
                  Inr (body @ '' '' @ convertTypeDecl n @ [CHR 0x0A] @ ''{'' @ [CHR 0x0A]
                         @ ''    using MappedType = '' @ convertTypeRef n @ '';'' @ [CHR 0x0A, CHR 0x0A], g))))"

definition count_struct :: "struct_kind \<Rightarrow> pname \<Rightarrow> string \<Rightarrow> vkex_state \<Rightarrow> vkex_state res" where
  "count_struct kind typeName body g =
     (let g = g\<lparr>v_structTypeCounts := dict_adjust (kind_name kind) Suc (v_structTypeCounts g)\<rparr> in
      if kind = Trivial then Inr g
      else rbind (appendSection (Some ''struct'') body g) (\<lambda>g.
           Inr (g\<lparr>v_emittedStructs := v_emittedStructs g @ [typeName]\<rparr>)))"

definition struct_body ::
  "vkex_fields \<Rightarrow> registry \<Rightarrow> pname \<Rightarrow> addr \<Rightarrow> vkex_state \<Rightarrow> (store \<times> vkex_state) res" where
  "struct_body v r typeName e g =
     (let protect_end = snd (genProtectString (elem_get (doc r) e ''protect'')) in
      rbind (struct_head v r typeName e g) (\<lambda>(body, g).
      rbind (collect_members (doc r) typeName e g) (\<lambda>((kind, ms), g).
      rbind (for_each declare_member (map snd ms) (body, doc r)) (\<lambda>(body, st).
      rbind (map_function ms (body @ [CHR 0x0A])) (\<lambda>body.
      let body = body @ protect_end;
          body = (if kind = Complex then ''/*'' @ [CHR 0x0A] @ body @ ''*/'' @ [CHR 0x0A] else body)
      in rbind (count_struct kind typeName body g) (\<lambda>g. Inr (st, g)))))))"

definition genStruct :: "registry \<Rightarrow> type_info \<Rightarrow> pname \<Rightarrow> pname \<Rightarrow> vkex_state \<Rightarrow> (store \<times> vkex_state) res" where
  "genStruct r typeinfo typeName alias g =
     rbind (validateFeature ''struct'' typeName g) (\<lambda>_.
     rbind (remove_comments (i_elem typeinfo) (doc r)) (\<lambda>st.
     case v_genOpts g of
       None \<Rightarrow> missing_options
     | Some opts \<Rightarrow>
         if truthy alias then Inr (st, g)
         else if typeName \<in> Some ` set brokenStructs then Inr (st, g)
         else struct_body (vkex opts) (r\<lparr>doc := st\<rparr>) typeName (i_elem typeinfo) g))"

definition genType :: "registry \<Rightarrow> type_info \<Rightarrow> pname \<Rightarrow> pname \<Rightarrow> vkex_state \<Rightarrow> (store \<times> vkex_state) res" where
  "genType r typeinfo name alias g =
     rbind (validateFeature ''type'' name g) (\<lambda>_.
     if elem_get (doc r) (i_elem typeinfo) ''category'' \<in> {Some ''struct'', Some ''union''}
     then genStruct r typeinfo name alias g else Inr (doc r, g))"

section \<open>The generator as a client of the registry\<close>

text \<open>The methods that the class does not override check the feature, or do nothing.\<close>

definition vkex_gen :: "vkex_options option \<Rightarrow> vkex_state gen" where
  "vkex_gen genOpts c r g =
     (case c of
        GenType f n a \<Rightarrow> genType r f n a g
      | GenGroup f n a \<Rightarrow> rbind (validateFeature ''group'' n g) (\<lambda>_. Inr (doc r, g))
      | GenCmd f n a \<Rightarrow> rbind (validateFeature ''command'' n g) (\<lambda>_. Inr (doc r, g))
      | GenEnum f n a \<Rightarrow> rbind (validateFeature ''enum'' n g) (\<lambda>_. Inr (doc r, g))
      | BeginFile \<Rightarrow> rbind (beginFile genOpts g) (\<lambda>g. Inr (doc r, g))
      | BeginFeature e emit \<Rightarrow> Inr (doc r, beginFeature (doc r) e emit g)
      | EndFeature \<Rightarrow> rbind (endFeature g) (\<lambda>g. Inr (doc r, g))
      | EndFile \<Rightarrow> rbind (endFile g) (\<lambda>g. Inr (doc r, g))
      | _ \<Rightarrow> Inr (doc r, g))"

end
