(* ===== verification/VkexFacts.thy ===== *)
theory VkexFacts
  imports VkexGen
begin

text \<open>
  What the generator of \<^verbatim>\<open>vkex.hpp\<close> guarantees: it keeps the contracts of a client of the registry,
  it counts what it emits, and the text of a feature is enclosed in a matching pair of
  directives.
\<close>

section \<open>Removing the comments\<close>

lemma fold_remove1: "\<forall>y \<in> set ys. \<not> p y \<Longrightarrow> fold remove1 (filter p xs) (ys @ xs) = ys @ filter (\<lambda>x. \<not> p x) xs"
proof (induction xs arbitrary: ys)
  case (Cons x xs)
  show ?case
  proof (cases "p x")
    case True
    then have "x \<notin> set ys" using Cons.prems by blast
    then show ?thesis using True Cons by (simp add: remove1_append)
  next
    case False
    then show ?thesis using Cons.IH [of "ys @ [x]"] Cons.prems by simp
  qed
qed simp

lemma remove_all:
  "set_mset (mset cs) \<subseteq> set (elem_children st m) \<Longrightarrow> mset cs \<subseteq># mset (elem_children st m) \<Longrightarrow>
     \<exists>st'. for_each (\<lambda>c st. elem_remove st m c) cs st = Inr st' \<and> elem_children st' m = fold remove1 cs (elem_children st m)"
proof (induction cs arbitrary: st)
  case (Cons c cs)
  then have c: "c \<in> set (elem_children st m)" by simp
  then obtain st1 where st1: "elem_remove st m c = Inr st1" by (auto simp: elem_remove_def)
  have ch: "elem_children st1 m = remove1 c (elem_children st m)" by (simp add: elem_remove_children [OF st1])
  have sub: "mset cs \<subseteq># mset (elem_children st1 m)"
    using Cons.prems(2) c by (simp add: ch insert_subset_eq_iff)
  then have "set_mset (mset cs) \<subseteq> set (elem_children st1 m)" using set_mset_mono by fastforce
  from Cons.IH [OF this sub] show ?case by (auto simp: st1 ch)
qed simp

text \<open>One member: its comments go, whatever else there is stays.\<close>

definition comments_removed :: "store \<Rightarrow> store \<Rightarrow> bool" where
  "comments_removed st st' \<longleftrightarrow> length st' = length st \<and>
     (\<forall>a. elem_tag st' a = elem_tag st a \<and> elem_text st' a = elem_text st a \<and>
          elem_tail st' a = elem_tail st a \<and> (\<forall>k. elem_get st' a k = elem_get st a k) \<and>
          (elem_children st' a = elem_children st a \<or>
           elem_children st' a = filter (\<lambda>c. elem_tag st c \<noteq> ''comment'') (elem_children st a)))"

interpretation comment_frame: loop_frame comments_removed
proof unfold_locales
  show "comments_removed st st" for st by (simp add: comments_removed_def)
  show "comments_removed st u" if st: "comments_removed st t" and tu: "comments_removed t u" for st t u
  proof -
    have tag: "elem_tag t c = elem_tag st c" for c using st by (simp add: comments_removed_def)
    have "elem_children u a = elem_children st a \<or>
        elem_children u a = filter (\<lambda>c. elem_tag st c \<noteq> ''comment'') (elem_children st a)" for a
    proof -
      have "elem_children u a = elem_children t a \<or> elem_children u a = filter (\<lambda>c. elem_tag st c \<noteq> ''comment'') (elem_children t a)"
        "elem_children t a = elem_children st a \<or> elem_children t a = filter (\<lambda>c. elem_tag st c \<noteq> ''comment'') (elem_children st a)"
        using st tu by (simp_all add: comments_removed_def tag)
      then show ?thesis by (elim disjE) simp_all
    qed
    with st tu show ?thesis by (simp add: comments_removed_def)
  qed
qed


lemma remove_member_comments:
  "\<exists>st'. for_each (\<lambda>c st. elem_remove st m c) (findall st m ''comment'') st = Inr st' \<and> comments_removed st st' \<and>
     elem_children st' m = filter (\<lambda>c. elem_tag st c \<noteq> ''comment'') (elem_children st m) \<and>
     (\<forall>a. a \<noteq> m \<longrightarrow> elem_children st' a = elem_children st a)"
proof -
  have "set_mset (mset (findall st m ''comment'')) \<subseteq> set (elem_children st m)"
    "mset (findall st m ''comment'') \<subseteq># mset (elem_children st m)"
    by (simp_all add: findall_def multiset_filter_subset mset_filter)
  from remove_all [OF this] obtain st' where st': "for_each (\<lambda>c st. elem_remove st m c) (findall st m ''comment'') st = Inr st'"
    "elem_children st' m = fold remove1 (findall st m ''comment'') (elem_children st m)" by blast
  have ch: "elem_children st' m = filter (\<lambda>c. elem_tag st c \<noteq> ''comment'') (elem_children st m)"
    using st'(2) fold_remove1 [of "[]" "\<lambda>c. elem_tag st c = ''comment''" "elem_children st m"] by (simp add: findall_def)
  have "length st' = length st \<and> (\<forall>a. elem_tag st' a = elem_tag st a \<and> elem_text st' a = elem_text st a \<and>
      elem_tail st' a = elem_tail st a \<and> (\<forall>k. elem_get st' a k = elem_get st a k) \<and>
      (a \<noteq> m \<longrightarrow> elem_children st' a = elem_children st a))"
    using st'(1)
  proof (rule for_each_inv)
    fix c s s'
    assume "elem_remove s m c = Inr s'"
    then show "(length s = length st \<and> (\<forall>a. elem_tag s a = elem_tag st a \<and> elem_text s a = elem_text st a \<and>
      elem_tail s a = elem_tail st a \<and> (\<forall>k. elem_get s a k = elem_get st a k) \<and>
      (a \<noteq> m \<longrightarrow> elem_children s a = elem_children st a))) \<Longrightarrow>
      length s' = length st \<and> (\<forall>a. elem_tag s' a = elem_tag st a \<and> elem_text s' a = elem_text st a \<and>
      elem_tail s' a = elem_tail st a \<and> (\<forall>k. elem_get s' a k = elem_get st a k) \<and>
      (a \<noteq> m \<longrightarrow> elem_children s' a = elem_children st a))"
      by (auto simp: elem_remove_def elem_get_def split: if_splits)
  qed simp
  moreover have "elem_children st' a = elem_children st a \<or>
      elem_children st' a = filter (\<lambda>c. elem_tag st c \<noteq> ''comment'') (elem_children st a)" for a
    using calculation ch by (cases "a = m") simp_all
  ultimately have "comments_removed st st'" by (simp add: comments_removed_def)
  with st'(1) ch \<open>_ \<and> _\<close> show ?thesis by blast
qed

lemma comments_removed_find: "comments_removed st st' \<Longrightarrow> findall st m ''comment'' = [] \<Longrightarrow> findall st' m ''comment'' = []"
proof -
  assume r: "comments_removed st st'" and none: "findall st m ''comment'' = []"
  then have "elem_children st' m = elem_children st m \<or>
      elem_children st' m = filter (\<lambda>c. elem_tag st c \<noteq> ''comment'') (elem_children st m)"
    "elem_tag st' c = elem_tag st c" for c by (simp_all add: comments_removed_def)
  with none show ?thesis by (auto simp: findall_def filter_empty_conv)
qed

lemma remove_members:
  "\<exists>st'. for_each (\<lambda>m st. for_each (\<lambda>c st. elem_remove st m c) (findall st m ''comment'') st) ms st = Inr st' \<and>
     comments_removed st st' \<and> (\<forall>m \<in> set ms. findall st' m ''comment'' = [])"
proof (induction ms arbitrary: st)
  case (Cons m ms)
  obtain s where s: "for_each (\<lambda>c st. elem_remove st m c) (findall st m ''comment'') st = Inr s" "comments_removed st s"
    "elem_children s m = filter (\<lambda>c. elem_tag st c \<noteq> ''comment'') (elem_children st m)"
    using remove_member_comments by blast
  have m: "findall s m ''comment'' = []" using s(2,3) by (simp add: findall_def comments_removed_def)
  obtain st' where st': "for_each (\<lambda>m st. for_each (\<lambda>c st. elem_remove st m c) (findall st m ''comment'') st) ms s = Inr st'"
    "comments_removed s st'" "\<forall>m \<in> set ms. findall st' m ''comment'' = []" using Cons.IH by blast
  have "findall st' m ''comment'' = []" using st'(2) m by (rule comments_removed_find)
  moreover have "comments_removed st st'" using s(2) st'(2) by (rule comment_frame.rel_trans)
  ultimately show ?case using s(1) st' by auto
qed (simp add: comment_frame.rel_refl)

lemma comments_removed_down:
  assumes "comments_removed st st'"
  shows "down st' a = down st a \<or> down st' a = filter (\<lambda>c. elem_tag st c \<noteq> ''comment'') (down st a)"
proof -
  have "filter P (filter Q xs) = filter Q (filter P xs)" for P Q and xs :: "addr list"
    by (induction xs) auto
  moreover have "elem_children st' a = elem_children st a \<or>
      elem_children st' a = filter (\<lambda>c. elem_tag st c \<noteq> ''comment'') (elem_children st a)" "length st' = length st"
    using assms by (simp_all add: comments_removed_def)
  ultimately show ?thesis unfolding down_def by (elim disjE) simp_all
qed

lemma set_descendants: "set (descendants st a) = (\<Union>c \<in> set (down st a). insert c (set (descendants st c)))"
  by (subst descendants.simps) auto

lemma comments_removed_descendants:
  "comments_removed st st' \<Longrightarrow> set (descendants st' a) \<subseteq> set (descendants st a)"
proof (induction st a rule: descendants.induct)
  case (1 st a)
  have sub: "set (down st' a) \<subseteq> set (down st a)" using comments_removed_down [OF "1.prems", of a] by auto
  then have "(\<Union>c \<in> set (down st' a). insert c (set (descendants st' c))) \<subseteq> (\<Union>c \<in> set (down st a). insert c (set (descendants st c)))"
    by (rule UN_mono) (use "1.IH" [OF _ "1.prems"] sub in blast)
  then show ?case by (simp only: set_descendants [symmetric])
qed

text \<open>Comments without types and enums in them: then nothing depends on them.\<close>

definition quiet_comments :: "store \<Rightarrow> bool" where
  "quiet_comments st \<longleftrightarrow> (\<forall>c. elem_tag st c = ''comment'' \<longrightarrow> (\<forall>d \<in> set (descendants st c). elem_tag st d \<notin> {''type'', ''enum''}))"

lemma findall_below_simps:
  "findall_below st a t = concat (map (\<lambda>c. (if elem_tag st c = t then [c] else []) @ findall_below st c t) (down st a))"
proof -
  have "filter P (concat (map f xs)) = concat (map (\<lambda>x. filter P (f x)) xs)" for P and f :: "addr \<Rightarrow> addr list" and xs
    by (induction xs) auto
  then show ?thesis unfolding findall_below_def
    by (subst descendants.simps) (auto intro!: arg_cong [where f = concat] map_cong)
qed

lemma comments_removed_below:
  "comments_removed st st' \<Longrightarrow> quiet_comments st \<Longrightarrow> t \<in> {''type'', ''enum''} \<Longrightarrow> findall_below st' a t = findall_below st a t"
proof (induction st a rule: descendants.induct)
  case (1 st a)
  let ?g = "\<lambda>c. (if elem_tag st c = t then [c] else []) @ findall_below st c t"
  have tag: "elem_tag st' c = elem_tag st c" for c using "1.prems"(1) by (simp add: comments_removed_def)
  have quiet: "?g c = []" if "elem_tag st c = ''comment''" for c
    using "1.prems"(2,3) that by (auto simp: quiet_comments_def findall_below_def filter_empty_conv)
  have drop: "concat (map ?g (filter (\<lambda>c. elem_tag st c \<noteq> ''comment'') xs)) = concat (map ?g xs)" for xs
    using quiet by (induction xs) auto
  have sub: "set (down st' a) \<subseteq> set (down st a)" using comments_removed_down [OF "1.prems"(1), of a] by auto
  have "findall_below st' a t = concat (map ?g (down st' a))"
    by (subst findall_below_simps) (use sub "1.IH" [OF _ "1.prems"] tag in \<open>auto intro!: arg_cong [where f = concat] map_cong\<close>)
  also have "\<dots> = concat (map ?g (down st a))"
    using comments_removed_down [OF "1.prems"(1), of a] drop [of "down st a"] by auto
  finally show ?case by (subst (2) findall_below_simps)
qed

lemma comments_removed_step: "comments_removed st st' \<Longrightarrow> doc_step st st'"
proof -
  assume r: "comments_removed st st'"
  have "wf_store st'" if "wf_store st"
  proof (rule wf_storeI)
    fix a c assume "c \<in> set (elem_children st' a)"
    moreover have "elem_children st' a = elem_children st a \<or>
      elem_children st' a = filter (\<lambda>c. elem_tag st c \<noteq> ''comment'') (elem_children st a)"
      using r by (simp add: comments_removed_def)
    ultimately have "c \<in> set (elem_children st a)" by auto
    then show "a < c \<and> c < length st'" using wf_storeD [OF that] r by (simp add: comments_removed_def)
  qed
  then show ?thesis using r by (simp add: doc_step_def doc_extends_def comments_removed_def)
qed

lemma comments_removed_quiet:
  assumes "comments_removed st st'" and "quiet_comments st"
  shows "quiet_comments st' \<and> same_deps st st'"
proof (intro conjI)
  have tag: "elem_tag st' c = elem_tag st c" for c using assms(1) by (simp add: comments_removed_def)
  then show "quiet_comments st'"
    using assms(2) comments_removed_descendants [OF assms(1)] unfolding quiet_comments_def by fastforce
  show "same_deps st st'"
    using assms comments_removed_below [OF assms] by (auto simp: same_deps_def comments_removed_def)
qed

lemma remove_comments_spec:
  "\<exists>st'. remove_comments e st = Inr st' \<and> comments_removed st st' \<and>
     (\<forall>m \<in> set (findall_below st' e ''member''). find_elem st' m ''comment'' = None)"
proof -
  obtain st' where st': "remove_comments e st = Inr st'" "comments_removed st st'"
    "\<forall>m \<in> set (findall_below st e ''member''). findall st' m ''comment'' = []"
    unfolding remove_comments_def using remove_members by blast
  have "set (findall_below st' e ''member'') \<subseteq> set (findall_below st e ''member'')"
    using comments_removed_descendants [OF st'(2), of e] st'(2)
    by (auto simp: findall_below_def comments_removed_def)
  with st' show ?thesis by (auto simp: find_elem_def first_def)
qed

section \<open>What the members are\<close>

lemma set_dict_adjust: "(n, m) \<in> set (dict_adjust k f d) \<Longrightarrow> \<exists>m'. (n, m') \<in> set d \<and> (m = m' \<or> m = f m')"
  by (auto simp: dict_adjust_def split: if_splits)

lemma set_update_cases: "(n, m) \<in> set (AList.update k v d) \<Longrightarrow> (n, m) \<in> set d \<or> n = k \<and> m = v"
  by (induction d) (auto split: if_splits)

definition members_from :: "addr set \<Rightarrow> members \<Rightarrow> bool" where
  "members_from S ms \<longleftrightarrow> (\<forall>(n, m) \<in> set ms. m_elem m \<in> S)"

lemma members_from_update: "members_from S ms \<Longrightarrow> e \<in> S \<Longrightarrow> members_from S (AList.update n (Member e) ms)"
  by (auto simp: members_from_def Member_def dest!: set_update_cases)

lemma members_from_link: "members_from S ms \<Longrightarrow> link_length l n c (k, ms) = (k', ms') \<Longrightarrow> members_from S ms'"
  by (fastforce simp: members_from_def link_length_def split: if_splits dest!: set_dict_adjust)

lemma add_member_from:
  assumes "add_member st tn e ((k, ms), g) = Inr ((k', ms'), g')" and "members_from S ms" and "e \<in> S"
  shows "members_from S ms'"
  using assms by (auto simp: add_member_def Let_def members_from_update split: option.splits if_splits
      dest: members_from_link [rotated] intro!: members_from_update)

lemma collect_members_from:
  assumes "collect_members st tn e g = Inr ((k, ms), g')"
  shows "members_from (set (findall_below st e ''member'')) ms"
proof -
  have "members_from (set (findall_below st e ''member'')) (snd (fst ((k, ms), g')))"
    using assms unfolding collect_members_def
  proof (rule for_each_inv)
    fix x s s'
    assume "x \<in> set (findall_below st e ''member'')" "members_from (set (findall_below st e ''member'')) (snd (fst s))"
      "add_member st tn x s = Inr s'"
    then show "members_from (set (findall_below st e ''member'')) (snd (fst s'))"
      using add_member_from [of st tn x "fst (fst s)" "snd (fst s)" "snd s" "fst (fst s')" "snd (fst s')" "snd s'"] by simp
  qed (simp add: members_from_def)
  then show ?thesis by simp
qed

lemma declare_members_store:
  assumes "for_each declare_member ms (body, st) = Inr (body', st')"
    and "\<forall>m \<in> set ms. find_elem st (m_elem m) ''comment'' = None"
  shows "st' = st"
proof -
  have "snd (body', st') = st"
    using assms(1)
  proof (rule for_each_inv)
    fix m s s'
    assume "m \<in> set ms" and s: "snd s = st" and d: "declare_member m s = Inr s'"
    with assms(2) have "find_elem (snd s) (m_elem m) ''comment'' = None" by simp
    with s d show "snd s' = st"
      by (cases s) (auto simp: declare_member_def split: if_splits elim!: rbind_InrE)
  qed simp
  then show ?thesis by simp
qed

lemma count_struct_facts:
  assumes "count_struct k n b g = Inr g'"
  shows "v_structTypeCounts g' = dict_adjust (kind_name k) Suc (v_structTypeCounts g)"
    "v_emittedStructs g' = v_emittedStructs g @ (if k = Trivial then [] else [n])"
    "(if k = Trivial then v_sections g' = v_sections g \<and> v_feature_not_empty g' = v_feature_not_empty g
      else \<exists>l. map_of (v_sections g) ''struct'' = Some l \<and> v_sections g' = AList.update ''struct'' (l @ [b]) (v_sections g) \<and>
           v_feature_not_empty g')"
    "v_featureName g' = v_featureName g" "v_genOpts g' = v_genOpts g" "v_outFile g' = v_outFile g" "v_emit g' = v_emit g"
  using assms by (auto simp: count_struct_def Let_def appendSection_def section_of_def
      split: if_splits option.splits elim!: rbind_InrE)

text \<open>Only the printed lines and the set of aliases change before the structure is counted.\<close>

definition quiet_state :: "vkex_state \<Rightarrow> vkex_state \<Rightarrow> bool" where
  "quiet_state g g' \<longleftrightarrow> v_structTypeCounts g' = v_structTypeCounts g \<and> v_emittedStructs g' = v_emittedStructs g \<and>
     v_sections g' = v_sections g \<and> v_feature_not_empty g' = v_feature_not_empty g \<and> v_featureName g' = v_featureName g \<and>
     v_genOpts g' = v_genOpts g \<and> v_outFile g' = v_outFile g \<and> v_emit g' = v_emit g"

interpretation quiet_frame: loop_frame quiet_state
  by unfold_locales (auto simp: quiet_state_def)

lemma struct_head_quiet: "struct_head v r n e g = Inr (b, g') \<Longrightarrow> quiet_state g g'"
  by (auto simp: struct_head_def typeMayAlias_def quiet_state_def Let_def split: option.splits if_splits elim!: rbind_InrE)

lemma add_member_quiet: "add_member st tn e s = Inr s' \<Longrightarrow> quiet_state (snd s) (snd s')"
  by (cases s) (auto simp: add_member_def Let_def print_line_def quiet_state_def split: option.splits if_splits)

lemma collect_members_quiet: "collect_members st tn e g = Inr (km, g') \<Longrightarrow> quiet_state g g'"
proof -
  assume "collect_members st tn e g = Inr (km, g')"
  then have "quiet_state g (snd (km, g'))"
    unfolding collect_members_def
  proof (rule for_each_inv)
    show "quiet_state g (snd ((Trivial, []), g))" by (simp add: quiet_frame.rel_refl)
    show "quiet_state g (snd s')" if "quiet_state g (snd s)" "add_member st tn x s = Inr s'" for x s s'
      using that(1) add_member_quiet [OF that(2)] by (rule quiet_frame.rel_trans)
  qed
  then show ?thesis by simp
qed

text \<open>A structure that is generated: the comments of its members go, and it is counted once.\<close>

lemma struct_body_cases:
  assumes "struct_body v r n e g = Inr (st', g')"
    and "\<forall>m \<in> set (findall_below (doc r) e ''member''). find_elem (doc r) m ''comment'' = None"
  obtains k b g1 where "st' = doc r" "quiet_state g g1" "count_struct k n b g1 = Inr g'"
proof -
  obtain b1 g1 k ms g2 b2 st2 b3 b4 where s: "struct_head v r n e g = Inr (b1, g1)"
    "collect_members (doc r) n e g1 = Inr ((k, ms), g2)" "for_each declare_member (map snd ms) (b1, doc r) = Inr (b2, st2)"
    "count_struct k n b4 g2 = Inr g'" "st' = st2"
    using assms(1) by (auto simp: struct_body_def Let_def elim!: rbind_InrE)
  have "\<forall>m \<in> set (map snd ms). find_elem (doc r) (m_elem m) ''comment'' = None"
    using collect_members_from [OF s(2)] assms(2) by (auto simp: members_from_def)
  from declare_members_store [OF s(3) this] s show thesis
    using that struct_head_quiet [OF s(1)] collect_members_quiet [OF s(2)] quiet_frame.rel_trans by blast
qed

lemma genStruct_cases:
  assumes "genStruct r t n a g = Inr (st', g')"
  obtains (same) "comments_removed (doc r) st'" "g' = g"
  | (counted) k b g1 where "comments_removed (doc r) st'" "quiet_state g g1" "count_struct k n b g1 = Inr g'"
proof -
  obtain st where st: "remove_comments (i_elem t) (doc r) = Inr st" "comments_removed (doc r) st"
    "\<forall>m \<in> set (findall_below st (i_elem t) ''member''). find_elem st m ''comment'' = None"
    using remove_comments_spec by blast
  from assms st(1) obtain opts where o: "v_genOpts g = Some opts"
    "(if truthy a \<or> n \<in> Some ` set brokenStructs then Inr (st, g) else struct_body (vkex opts) (r\<lparr>doc := st\<rparr>) n (i_elem t) g) = Inr (st', g')"
    by (auto simp: genStruct_def missing_options_def split: option.splits if_splits elim!: rbind_InrE)
  show thesis
  proof (cases "truthy a \<or> n \<in> Some ` set brokenStructs")
    case True
    with o same st show thesis by simp
  next
    case False
    with o have "struct_body (vkex opts) (r\<lparr>doc := st\<rparr>) n (i_elem t) g = Inr (st', g')" by simp
    then show thesis using counted st by (elim struct_body_cases) simp_all
  qed
qed

section \<open>The contracts of a client\<close>

lemma vkex_gen_store:
  assumes "vkex_gen opts c r g = Inr (st, g')"
  shows "comments_removed (doc r) st"
proof (cases "\<exists>f n a. c = GenType f n a")
  case True
  then obtain f n a where "genType r f n a g = Inr (st, g')" using assms by (auto simp: vkex_gen_def)
  then have "st = doc r \<or> genStruct r f n a g = Inr (st, g')"
    by (auto simp: genType_def split: if_splits elim!: rbind_InrE)
  then show ?thesis by (auto elim!: genStruct_cases simp: comment_frame.rel_refl)
next
  case False
  with assms have "st = doc r" by (auto simp: vkex_gen_def split: gen_call.splits elim!: rbind_InrE)
  then show ?thesis by (simp add: comment_frame.rel_refl)
qed

interpretation vkex_client: client "vkex_gen opts" for opts
  by unfold_locales (rule comments_removed_step [OF vkex_gen_store])

lemma required_quiet: "same_but_required st st' \<Longrightarrow> quiet_comments st \<Longrightarrow> quiet_comments st'"
proof -
  assume s: "same_but_required st st'" and q: "quiet_comments st"
  have "set (descendants st' a) = set (descendants st a)" for a
    using s
  proof (induction st a rule: descendants.induct)
    case (1 st a)
    have "down st' a = down st a" using "1.prems" by (simp add: down_def same_but_required_def)
    then have "(\<Union>c \<in> set (down st' a). insert c (set (descendants st' c))) = (\<Union>c \<in> set (down st a). insert c (set (descendants st c)))"
      using "1.IH" [OF _ "1.prems"] by auto
    then show ?case by (simp only: set_descendants [symmetric])
  qed
  with s q show ?thesis by (simp add: quiet_comments_def same_but_required_def)
qed

interpretation vkex_generator: generator "vkex_gen opts" quiet_comments for opts
  by unfold_locales (use comments_removed_quiet vkex_gen_store required_quiet in blast)+

section \<open>Comments and protection\<close>

text \<open>Before a structure is looked at, the comments of its members are taken out of the document, and
  nothing else is; so no member has a comment left, and the branch of \<^verbatim>\<open>genStruct\<close> that would
  emit one is never taken.\<close>

theorem remove_comments_correct:
  "\<exists>st'. remove_comments e st = Inr st' \<and> comments_removed st st' \<and>
     filter (\<lambda>m. find_elem st' m ''comment'' \<noteq> None) (findall_below st' e ''member'') = []"
  using remove_comments_spec [of e st] by (auto simp: filter_empty_conv)

lemma join_defined:
  "ns \<noteq> [] \<Longrightarrow> c_cond m CAnd (py_join '' && '' (map (\<lambda>d. ''defined('' @ d @ '')'') ns)) (\<forall>n \<in> set ns. m n)"
proof (induction ns)
  case (Cons n ns)
  have n: "c_cond m CAnd (''defined('' @ n @ '')'') (m n)" by (intro c_prim c_defined)
  show ?case
  proof (cases "ns = []")
    case True
    with n show ?thesis by simp
  next
    case False
    with Cons.IH have "c_cond m CAnd (py_join '' && '' (map (\<lambda>d. ''defined('' @ d @ '')'') ns)) (\<forall>n \<in> set ns. m n)" by simp
    from c_and_append [OF this _ n] False show ?thesis by (simp add: py_join_Cons)
  qed
qed simp

lemma comma_in_join: "length ns > 1 \<Longrightarrow> CHR '','' \<in> set (py_join '','' ns)"
  by (cases ns; cases "tl ns") auto

text \<open>The guard around a structure holds when \<^emph>\<open>all\<close> the macros of the list are defined: a single macro becomes
  \<^verbatim>\<open>#ifdef\<close>, several a condition that parses as a conjunction of \<^verbatim>\<open>defined(...)\<close>, and the guard is closed.\<close>

theorem genProtectString_correct:
  assumes "ns \<noteq> []" and "\<forall>n \<in> set ns. n \<noteq> [] \<and> CHR '','' \<notin> set n"
  shows "(\<exists>cond. genProtectString (Some (py_join '','' ns)) =
       ((if length ns = 1 then ''#ifdef '' else ''#if '') @ cond @ [CHR 0x0A], ''#endif // '' @ cond @ [CHR 0x0A]) \<and>
       (if length ns = 1 then cond = hd ns else c_cond m CAnd cond (\<forall>n \<in> set ns. m n)))"
proof (cases "length ns = 1")
  case True
  then obtain n where "ns = [n]" by (cases ns) auto
  with assms(2) show ?thesis by (simp add: genProtectString_def)
next
  case False
  with assms(1) have l: "length ns > 1" by (cases ns) auto
  have "py_join '','' ns \<noteq> []" using comma_in_join [OF l] by auto
  moreover have "py_split CHR '','' (py_join '','' ns) = ns" using assms by (intro py_split_join) auto
  ultimately show ?thesis
    using join_defined [OF assms(1), of m] comma_in_join [OF l] False
    by (intro exI [of _ "py_join '' && '' (map (\<lambda>d. ''defined('' @ d @ '')'') ns)"]) (simp add: genProtectString_def Let_def)
qed

theorem genProtectString_correct_witness:
  "\<exists>cond. fst (genProtectString (Some ''A,B'')) = ''#if '' @ cond @ [CHR 0x0A] \<and> c_cond (\<lambda>n. n = ''A'') CAnd cond False"
  using genProtectString_correct [of "[''A'', ''B'']" "\<lambda>n. n = ''A''"] by auto

end
