(* ===== verification/VkexFile.thy ===== *)
theory VkexFile
  imports VkexFacts
begin

text \<open>
  The file that a whole generation writes: a head, one guarded block for each feature with
  structures, and a tail; and the order of the structures in it.
\<close>

section \<open>The state of the generator\<close>

definition struct_texts :: "vkex_state \<Rightarrow> string list" where
  "struct_texts g = (case map_of (v_sections g) ''struct'' of None \<Rightarrow> [] | Some l \<Rightarrow> l)"

definition kind_count :: "vkex_state \<Rightarrow> struct_kind \<Rightarrow> nat" where
  "kind_count g k = (case map_of (v_structTypeCounts g) (kind_name k) of None \<Rightarrow> 0 | Some n \<Rightarrow> n)"

text \<open>Structures are the only thing that a section holds, and all that are emitted are counted.\<close>

definition vkex_ok :: "vkex_state \<Rightarrow> bool" where
  "vkex_ok g \<longleftrightarrow> map fst (v_sections g) = ALL_SECTIONS \<and>
     (\<forall>s \<in> set ALL_SECTIONS. s \<noteq> ''struct'' \<longrightarrow> map_of (v_sections g) s = Some []) \<and>
     (v_feature_not_empty g \<longleftrightarrow> struct_texts g \<noteq> []) \<and>
     map fst (v_structTypeCounts g) = map kind_name [Trivial, Straightforward, Complex] \<and>
     length (v_emittedStructs g) = kind_count g Straightforward + kind_count g Complex"

lemma vkex_ok_init: "vkex_ok (VkexOutputGenerator opts)"
  by (simp add: vkex_ok_def VkexOutputGenerator_def empty_sections_def ALL_SECTIONS_def TYPE_SECTIONS_def
      struct_texts_def kind_count_def)

lemma vkex_ok_quiet: "quiet_state g g' \<Longrightarrow> vkex_ok g \<Longrightarrow> vkex_ok g' \<and> struct_texts g' = struct_texts g"
  by (simp add: quiet_state_def vkex_ok_def struct_texts_def kind_count_def)

lemma kind_name_eq [simp]: "kind_name a = kind_name b \<longleftrightarrow> a = b"
  by (cases a; cases b) simp_all

lemma count_struct_ok:
  assumes "count_struct k n b g = Inr g'" and "vkex_ok g"
  shows "vkex_ok g' \<and> struct_texts g' = struct_texts g @ (if k = Trivial then [] else [b])"
proof -
  note f = count_struct_facts [OF assms(1)]
  have "kind_name k \<in> set (map fst (v_structTypeCounts g))"
    using assms(2) by (cases k) (simp_all add: vkex_ok_def)
  then obtain c where "map_of (v_structTypeCounts g) (kind_name k) = Some c"
    by (metis map_of_eq_None_keys not_None_eq)
  then have count: "kind_count g' k' = (if k' = k then Suc (kind_count g k) else kind_count g k')" for k'
    by (simp add: kind_count_def f(1))
  show ?thesis
  proof (cases "k = Trivial")
    case True
    then show ?thesis using assms(2) f(1-3) count by (simp add: vkex_ok_def struct_texts_def)
  next
    case False
    then obtain l where l: "map_of (v_sections g) ''struct'' = Some l"
      "v_sections g' = AList.update ''struct'' (l @ [b]) (v_sections g)" "v_feature_not_empty g'"
      using f(3) by auto
    then have "''struct'' \<in> set (map fst (v_sections g))" by (metis map_of_eq_None_keys option.distinct(1))
    then have "map fst (v_sections g') = map fst (v_sections g)" by (simp add: l(2) update_old_keys)
    moreover have "length (v_emittedStructs g') = kind_count g' Straightforward + kind_count g' Complex"
      using False assms(2) by (cases k) (simp_all add: f(2) count vkex_ok_def)
    ultimately show ?thesis
      using False assms(2) l f(1) by (simp add: vkex_ok_def struct_texts_def)
  qed
qed

text \<open>A call for an item emits at most the structure it is for.\<close>

lemma item_cases:
  assumes "vkex_gen opts c r g = Inr (st, g')" and "call_item c \<noteq> []"
  obtains (same) "g' = g"
  | (counted) f n a k b g1 where "c = GenType f n a" "quiet_state g g1" "count_struct k n b g1 = Inr g'"
proof (cases c)
  case (GenType f n a)
  then have "genType r f n a g = Inr (st, g')" using assms(1) by (simp add: vkex_gen_def)
  then consider "g' = g" | "genStruct r f n a g = Inr (st, g')"
    by (auto simp: genType_def split: if_splits elim!: rbind_InrE)
  then show thesis using same counted GenType by cases (auto elim!: genStruct_cases)
qed (use assms same in \<open>auto simp: vkex_gen_def elim!: rbind_InrE\<close>)

lemma item_keeps:
  assumes "vkex_gen opts c r g = Inr (st, g')" and "call_item c \<noteq> []" and "vkex_ok g"
  shows "vkex_ok g'" "v_outFile g' = v_outFile g" "v_featureName g' = v_featureName g" "v_genOpts g' = v_genOpts g"
    "v_emit g' = v_emit g"
    "\<exists>new. struct_texts g' = struct_texts g @ new \<and> length (v_emittedStructs g') = length (v_emittedStructs g) + length new"
    "v_emittedStructs g' = v_emittedStructs g \<or> (\<exists>n. call_item c = [(FType, n)] \<and> v_emittedStructs g' = v_emittedStructs g @ [n])"
proof -
  have "vkex_ok g' \<and> v_outFile g' = v_outFile g \<and> v_featureName g' = v_featureName g \<and> v_genOpts g' = v_genOpts g \<and>
    v_emit g' = v_emit g \<and>
    (\<exists>new. struct_texts g' = struct_texts g @ new \<and> length (v_emittedStructs g') = length (v_emittedStructs g) + length new) \<and>
    (v_emittedStructs g' = v_emittedStructs g \<or> (\<exists>n. call_item c = [(FType, n)] \<and> v_emittedStructs g' = v_emittedStructs g @ [n]))"
    using assms(1,2)
  proof (cases rule: item_cases)
    case same
    with assms(3) show ?thesis by simp
  next
    case (counted f n a k b g1)
    have q: "vkex_ok g1" "struct_texts g1 = struct_texts g" using vkex_ok_quiet [OF counted(2) assms(3)] by simp_all
    note ok = count_struct_ok [OF counted(3) q(1)] and facts = count_struct_facts [OF counted(3)]
    from counted(1,2) q ok facts(2,4-7) show ?thesis
      by (auto simp: quiet_state_def)
  qed
  then show "vkex_ok g'" "v_outFile g' = v_outFile g" "v_featureName g' = v_featureName g" "v_genOpts g' = v_genOpts g"
    "v_emit g' = v_emit g"
    "\<exists>new. struct_texts g' = struct_texts g @ new \<and> length (v_emittedStructs g') = length (v_emittedStructs g) + length new"
    "v_emittedStructs g' = v_emittedStructs g \<or> (\<exists>n. call_item c = [(FType, n)] \<and> v_emittedStructs g' = v_emittedStructs g @ [n])"
    by blast+
qed

section \<open>The text of the file\<close>

definition nl :: string where
  "nl = [CHR 0x0A]"

definition block_text :: "string \<times> string list \<Rightarrow> string" where
  "block_text b = nl @ ''#ifdef '' @ fst b @ nl @ py_join nl (snd b) @ nl @ ''#endif'' @ nl"

definition header_symbol :: "vkex_options \<Rightarrow> string" where
  "header_symbol opts = py_upper (replace_hpp (basename (the (filename opts))))"

definition file_head :: "vkex_options \<Rightarrow> string" where
  "file_head opts =
     (if guarded_file opts
      then ''#ifndef '' @ header_symbol opts @ nl @ ''#define '' @ header_symbol opts @ nl @ nl else []) @
     ''#include '' @ [CHR 0x22] @ ''vkex/vkex_utils.hpp'' @ [CHR 0x22] @ nl @ nl @
     concat (map (\<lambda>i. concat (map (\<lambda>kind. ''#define VK_'' @ kind @ ''_VERSION_1_'' @ show_int (int i) @ nl)
       [''BASE'', ''COMPUTE'', ''GRAPHICS''])) [0..<5]) @ nl @
     concat (map (\<lambda>s. s @ nl) (prefixText (vkex opts))) @ nl @
     ''namespace vkex'' @ nl @ ''{'' @ nl @ nl"

definition file_tail :: "vkex_options \<Rightarrow> string" where
  "file_tail opts = nl @ ''} // namespace vkex'' @ nl @ (if guarded_file opts then nl @ ''#endif'' @ nl else [])"

lemma write_line_simps:
  "v_outFile (write_line args g) = v_outFile g @ py_join '' '' args @ nl"
  "v_outFile (newline g) = v_outFile g @ nl"
  by (simp_all add: write_line_def write_end_def newline_def nl_def)

definition only_writes :: "vkex_state \<Rightarrow> vkex_state \<Rightarrow> bool" where
  "only_writes g g' \<longleftrightarrow> g'\<lparr>v_outFile := v_outFile g\<rparr> = g"

lemma only_writes_simps [simp]:
  "only_writes g g"
  "only_writes g (write_line args h) \<longleftrightarrow> only_writes g h"
  "only_writes g (newline h) \<longleftrightarrow> only_writes g h"
  "only_writes g (fold (\<lambda>x. write_line (f x)) xs h) \<longleftrightarrow> only_writes g h"
  by (induction xs arbitrary: h) (simp_all add: only_writes_def write_line_def newline_def write_end_def)

lemma fold_lines: "v_outFile (fold (\<lambda>x. write_line [f x]) xs g) = v_outFile g @ concat (map (\<lambda>x. f x @ nl) xs)"
  by (induction xs arbitrary: g) (simp_all add: write_line_simps)

lemma fold_versions:
  "v_outFile (fold version_defines xs g) = v_outFile g @ concat (map (\<lambda>i. concat (map (\<lambda>kind.
     ''#define VK_'' @ kind @ ''_VERSION_1_'' @ show_int (int i) @ nl) [''BASE'', ''COMPUTE'', ''GRAPHICS''])) xs)"
  by (induction xs arbitrary: g) (simp_all add: version_defines_def write_line_simps)

lemma only_writes_versions [simp]: "only_writes g (fold version_defines xs h) \<longleftrightarrow> only_writes g h"
  by (induction xs arbitrary: h) (simp_all add: version_defines_def)

lemma beginFile_text:
  assumes "beginFile (Some opts) g = Inr g'"
  shows "g' = g\<lparr>v_genOpts := Some opts, v_outFile := file_head opts\<rparr>" and "conventions opts \<noteq> None"
proof -
  let ?g = "g\<lparr>v_genOpts := Some opts, v_outFile := []\<rparr>"
  show "conventions opts \<noteq> None" using assms by (auto simp: beginFile_def base_beginFile_def missing_conventions_def split: if_splits)
  then have "only_writes ?g g' \<and> v_outFile g' = file_head opts"
    using assms by (auto simp: beginFile_def base_beginFile_def Let_def file_head_def write_line_simps fold_lines fold_versions
        header_symbol_def nl_def [symmetric] append_eq_append_conv2 split: if_splits)
  then have "g'\<lparr>v_outFile := []\<rparr> = ?g" "v_outFile g' = file_head opts" by (simp_all add: only_writes_def)
  then have "g' = ?g\<lparr>v_outFile := file_head opts\<rparr>" by (metis vkex_state.surjective vkex_state.update_convs(2))
  then show "g' = g\<lparr>v_genOpts := Some opts, v_outFile := file_head opts\<rparr>" by simp
qed

lemma endFeature_text:
  assumes "endFeature g = Inr g'" and "vkex_ok g" and "v_genOpts g = Some opts"
  shows "\<exists>out. g' = g\<lparr>v_outFile := v_outFile g @ out, v_featureName := None, v_featureExtraProtect := None\<rparr> \<and>
    (if v_emit g \<and> struct_texts g \<noteq> [] then \<exists>n. v_featureName g = Some n \<and> out = block_text (n, struct_texts g) else out = [])"
proof (cases "v_emit g \<and> struct_texts g \<noteq> []")
  case False
  then have "\<not> (v_emit g \<and> v_feature_not_empty g)" using assms(2) by (simp add: vkex_ok_def)
  with False assms(1) show ?thesis by (auto simp: endFeature_def base_endFeature_def)
next
  case True
  let ?h = "write_line [''#ifdef'', py_str (v_featureName g)] (newline g)"
  have ne: "v_feature_not_empty g" using True assms(2) by (simp add: vkex_ok_def)
  have sec: "section_of s g = Inr (if s = ''struct'' then struct_texts g else [])" if "s \<in> set ALL_SECTIONS" for s
  proof (cases "s = ''struct''")
    case True
    then have "s \<in> set (map fst (v_sections g))" using assms(2) that by (simp add: vkex_ok_def)
    then have "map_of (v_sections g) s \<noteq> None" by (simp add: map_of_eq_None_keys)
    then show ?thesis using True by (auto simp: section_of_def struct_texts_def)
  qed (use assms(2) that in \<open>auto simp: section_of_def vkex_ok_def\<close>)
  have sections: "section_of s (write_line as h) = section_of s h" "section_of s (newline h) = section_of s h" for s as h
    by (simp_all add: section_of_def write_line_def write_end_def newline_def)
  let ?k = "write_line [py_join nl (struct_texts g)] ?h"
  have "for_each write_section TYPE_SECTIONS ?h = Inr ?k"
    using True by (simp add: TYPE_SECTIONS_def write_section_def sections sec ALL_SECTIONS_def nl_def)
  moreover have "write_pointers v ?k = Inr ?k" "write_commands v ?k = Inr ?k" for v
    by (simp_all add: write_pointers_def write_commands_def sections sec ALL_SECTIONS_def TYPE_SECTIONS_def)
  ultimately have w: "write_feature opts g = rbind (endProtectComment (v_featureName ?k) (Some ''#ifdef'')) (\<lambda>c.
     Inr (write_line [''#endif'' @ c] ?k))"
    by (simp add: write_feature_def)
  obtain h where h: "write_feature opts g = Inr h" "g' = h\<lparr>v_featureName := None, v_featureExtraProtect := None\<rparr>"
    using assms True ne by (auto simp: endFeature_def base_endFeature_def missing_conventions_def split: if_splits elim!: rbind_InrE)
  have name: "v_featureName ?k = v_featureName g" by (simp add: write_line_def write_end_def newline_def)
  with h(1) w obtain n where n: "v_featureName g = Some n" "h = write_line [''#endif''] ?k"
    by (auto simp: endProtectComment_def split: if_splits elim!: rbind_InrE)
  have "v_outFile h = v_outFile g @ block_text (n, struct_texts g)"
    by (simp add: n write_line_simps block_text_def py_str_def)
  moreover have "only_writes g h" using n(2) by simp
  ultimately have "h = g\<lparr>v_outFile := v_outFile g @ block_text (n, struct_texts g)\<rparr>"
    unfolding only_writes_def by (metis vkex_state.surjective vkex_state.update_convs(2))
  with h(2) n(1) True show ?thesis by auto
qed

section \<open>The run\<close>

text \<open>\<open>n\<close> is the name of a feature that is emitted.\<close>

definition emitted_feature :: "registry \<Rightarrow> string \<Rightarrow> bool" where
  "emitted_feature r n \<longleftrightarrow> (\<exists>f \<in> snd ` set (genFeatures r). f_emit f \<and> elem_get (doc r) (i_elem f) ''name'' = Some n)"

definition same_names :: "registry \<Rightarrow> registry \<Rightarrow> bool" where
  "same_names r r' \<longleftrightarrow> genFeatures r' = genFeatures r \<and> emitFeatures r' = emitFeatures r \<and>
     (\<forall>a. elem_get (doc r') a ''name'' = elem_get (doc r) a ''name'')"

interpretation names_frame: loop_frame same_names
  by unfold_locales (simp_all add: same_names_def)

lemma same_names_simps [simp]:
  "same_names r (warn w r)" "same_names r (declare_entry ft n r)"
  by (simp_all add: same_names_def warn_def declare_entry_def split: ftype.splits)

lemma same_names_doc: "only_doc r r' \<Longrightarrow> same_names r r'" "comments_removed (doc r) st \<Longrightarrow> same_names r (r\<lparr>doc := st\<rparr>)"
  by (auto simp: only_doc_def same_names_def same_but_required_def comments_removed_def)

lemma emitted_feature_same: "same_names r r' \<Longrightarrow> emitted_feature r' n = emitted_feature r n"
  by (simp add: emitted_feature_def same_names_def)

text \<open>What has been written when \<open>blocks\<close> are complete.\<close>

definition written :: "vkex_options \<Rightarrow> (string \<times> string list) list \<Rightarrow> vkex_state gen_state \<Rightarrow> bool" where
  "written opts blocks s \<longleftrightarrow> v_genOpts (snd s) = Some opts \<and> vkex_ok (snd s) \<and>
     v_outFile (snd s) = file_head opts @ concat (map block_text blocks) \<and>
     (\<forall>(n, texts) \<in> set blocks. texts \<noteq> [] \<and> emitted_feature (fst s) n)"

definition block_structs :: "(string \<times> string list) list \<Rightarrow> nat" where
  "block_structs blocks = length (concat (map snd blocks))"

text \<open>Between two features, and inside one: there nothing is collected unless it will be emitted.\<close>

definition between :: "vkex_options \<Rightarrow> (string \<times> string list) list \<Rightarrow> vkex_state gen_state \<Rightarrow> bool" where
  "between opts blocks s \<longleftrightarrow> written opts blocks s \<and> length (v_emittedStructs (snd s)) = block_structs blocks"

definition inside :: "vkex_options \<Rightarrow> (string \<times> string list) list \<Rightarrow> feature_info \<Rightarrow> vkex_state gen_state \<Rightarrow> bool" where
  "inside opts blocks f s \<longleftrightarrow> written opts blocks s \<and> f \<in> snd ` set (genFeatures (fst s)) \<and>
     v_featureName (snd s) = elem_get (doc (fst s)) (i_elem f) ''name'' \<and>
     emitFeatures (fst s) = f_emit f \<and> v_emit (snd s) = f_emit f \<and> (\<not> f_emit f \<longrightarrow> struct_texts (snd s) = []) \<and>
     length (v_emittedStructs (snd s)) = block_structs blocks + length (struct_texts (snd s))"

lemma inside_same: "inside opts blocks f s \<Longrightarrow> same_names (fst s) r \<Longrightarrow> inside opts blocks f (r, snd s)"
  using emitted_feature_same [of "fst s" r]
  by (simp add: inside_def written_def) (simp add: same_names_def)

lemma vkex_call_cases:
  assumes "call (vkex_gen o') c s = Inr s'"
  obtains st g' where "vkex_gen o' c (fst s) (snd s) = Inr (st, g')" "s' = ((fst s)\<lparr>doc := st\<rparr>, g')"
    "same_names (fst s) (fst s')"
proof -
  obtain st g' where c: "vkex_gen o' c (fst s) (snd s) = Inr (st, g')" "s' = ((fst s)\<lparr>doc := st\<rparr>, g')"
    using assms by (cases s) (auto simp: call_def elim!: rbind_InrE)
  with same_names_doc(2) [OF vkex_gen_store [OF c(1)]] that show thesis by simp
qed

interpretation inside_keeper: keeper "inside opts blocks f" "vkex_gen o'" for opts blocks f o'
proof
  fix c s assume c: "call_item c \<noteq> []" and e: "emitFeatures (fst s)" and s: "inside opts blocks f s"
  have "inside opts blocks f s'" if call: "call (vkex_gen o') c s = Inr s'" for s'
    using call
  proof (rule vkex_call_cases)
    fix st g' assume g: "vkex_gen o' c (fst s) (snd s) = Inr (st, g')" and s': "s' = ((fst s)\<lparr>doc := st\<rparr>, g')"
      and n: "same_names (fst s) (fst s')"
    have "vkex_ok (snd s)" using s by (simp add: inside_def written_def)
    note k = item_keeps [OF g c this]
    obtain new where "struct_texts g' = struct_texts (snd s) @ new"
      "length (v_emittedStructs g') = length (v_emittedStructs (snd s)) + length new" using k(6) by blast
    with k(1-5) s e have "inside opts blocks f (fst s, g')" by (auto simp: inside_def written_def)
    from inside_same [OF this, of "fst s'"] n s' show "inside opts blocks f s'" by simp
  qed
  then show "outcome {} (call (vkex_gen o') c s) (inside opts blocks f)"
    by (auto simp: outcome_def split: sum.splits)
qed (simp_all add: inside_same same_names_doc)

lemma begin_inside:
  assumes "between opts blocks s" and "f \<in> snd ` set (genFeatures (fst s))"
    and "call (vkex_gen o') (BeginFeature (i_elem f) (f_emit f)) ((fst s)\<lparr>emitFeatures := f_emit f\<rparr>, snd s) = Inr s'"
  shows "inside opts blocks f s'"
proof -
  have s': "s' = ((fst s)\<lparr>emitFeatures := f_emit f\<rparr>, beginFeature (doc (fst s)) (i_elem f) (f_emit f) (snd s))"
    using assms(3) by (auto simp: call_def vkex_gen_def)
  have t: "struct_texts (snd s') = []"
    by (simp add: s' beginFeature_def base_beginFeature_def struct_texts_def empty_sections_def ALL_SECTIONS_def TYPE_SECTIONS_def)
  have "vkex_ok (snd s')"
    using assms(1) t unfolding between_def written_def vkex_ok_def kind_count_def
    by (simp add: s' beginFeature_def base_beginFeature_def empty_sections_def ALL_SECTIONS_def TYPE_SECTIONS_def)
  moreover have "emitted_feature (fst s') n = emitted_feature (fst s) n" for n by (simp add: s' emitted_feature_def)
  ultimately show ?thesis
    using assms(1,2) t by (simp add: inside_def between_def written_def) (simp add: s' beginFeature_def base_beginFeature_def)
qed

lemma end_between:
  assumes "inside opts blocks f s" and "call (vkex_gen o') EndFeature s = Inr s'"
  shows "\<exists>bs. between opts (blocks @ bs) s' \<and> same_names (fst s) (fst s')"
proof -
  obtain g' where g: "endFeature (snd s) = Inr g'" "s' = (fst s, g')"
    using assms(2) by (cases s) (auto simp: call_def vkex_gen_def elim!: rbind_InrE)
  have ok: "vkex_ok (snd s)" and opts: "v_genOpts (snd s) = Some opts" using assms(1) by (simp_all add: inside_def written_def)
  obtain out where out: "g' = (snd s)\<lparr>v_outFile := v_outFile (snd s) @ out, v_featureName := None, v_featureExtraProtect := None\<rparr>"
    "if v_emit (snd s) \<and> struct_texts (snd s) \<noteq> [] then \<exists>n. v_featureName (snd s) = Some n \<and> out = block_text (n, struct_texts (snd s))
     else out = []"
    using endFeature_text [OF g(1) ok opts] by blast
  have ok': "vkex_ok g'" using ok by (simp add: out(1) vkex_ok_def struct_texts_def kind_count_def)
  show ?thesis
  proof (cases "v_emit (snd s) \<and> struct_texts (snd s) \<noteq> []")
    case True
    with out obtain n where n: "v_featureName (snd s) = Some n" "out = block_text (n, struct_texts (snd s))" by auto
    have "emitted_feature (fst s) n" using assms(1) n(1) True by (auto simp: inside_def emitted_feature_def)
    then have "between opts (blocks @ [(n, struct_texts (snd s))]) s'"
      using assms(1) ok' True by (auto simp: between_def inside_def written_def block_structs_def g(2) out(1) n)
    then show ?thesis using g(2) names_frame.rel_refl by auto
  next
    case False
    then have "out = []" using out(2) by auto
    moreover have "struct_texts (snd s) = []" using False assms(1) by (auto simp: inside_def)
    ultimately have "between opts blocks s'"
      using assms(1) ok' by (auto simp: between_def inside_def written_def g(2) out(1))
    then show ?thesis using g(2) names_frame.rel_refl by (metis append_Nil2 fst_conv)
  qed
qed

lemma interface_between:
  assumes "between opts blocks s" and "generate_interface (vkex_gen o') d name s = Inr s'"
  shows "\<exists>bs. between opts (blocks @ bs) s'"
proof -
  obtain f :: feature_info and s1 s2 where f: "feature_of (genFeatures (fst s)) name = Inr f"
    and b: "call (vkex_gen o') (BeginFeature (i_elem f) (f_emit f)) ((fst s)\<lparr>emitFeatures := f_emit f\<rparr>, snd s) = Inr s1"
    and g: "generateRequiredInterface (vkex_gen o') d (i_elem f) s1 = Inr s2" and e: "call (vkex_gen o') EndFeature s2 = Inr s'"
    using assms(2) unfolding generate_interface_def Let_def by (elim rbind_InrE)
  have "f \<in> snd ` set (genFeatures (fst s))"
    using f by (force simp: feature_of_def split: option.splits dest: map_of_SomeD)
  from begin_inside [OF assms(1) this b] have "inside opts blocks f s1" .
  from inside_keeper.interface_keeps [OF this] have "inside opts blocks f s2" by (rule outcome_value) (rule g)
  from end_between [OF this e] show ?thesis by blast
qed

lemma interfaces_between:
  "between opts blocks s \<Longrightarrow> for_each (generate_interface (vkex_gen o') d) names s = Inr s' \<Longrightarrow>
     \<exists>bs. between opts (blocks @ bs) s'"
proof (induction names arbitrary: s blocks)
  case Nil
  then show ?case by (auto intro: exI [of _ "[]"])
next
  case (Cons n names)
  obtain s1 where s1: "generate_interface (vkex_gen o') d n s = Inr s1"
    "for_each (generate_interface (vkex_gen o') d) names s1 = Inr s'" using Cons.prems(2) by (auto elim!: rbind_InrE)
  obtain bs where "between opts (blocks @ bs) s1" using interface_between [OF Cons.prems(1) s1(1)] by blast
  from Cons.IH [OF this s1(2)] show ?case by auto
qed

text \<open>Nothing is generated for SPIR-V, formats and synchronization.\<close>

definition idle :: "vkex_state gen_state \<Rightarrow> vkex_state gen_state res \<Rightarrow> bool" where
  "idle s m \<longleftrightarrow> (\<forall>s'. m = Inr s' \<longrightarrow> s' = s)"

lemma idle_call:
  "idle s (call (vkex_gen o') (GenSpirv i n) s)" "idle s (call (vkex_gen o') (GenFormat c n) s)"
  "idle s (call (vkex_gen o') (GenSyncStage c) s)" "idle s (call (vkex_gen o') (GenSyncAccess c) s)"
  "idle s (call (vkex_gen o') (GenSyncPipeline b) s)"
  by (cases s; simp add: idle_def call_def vkex_gen_def)+

lemma idle_loop: "(\<And>x s. idle s (f x s)) \<Longrightarrow> idle s (for_each f xs s)"
proof (induction xs arbitrary: s)
  case (Cons x xs)
  show ?case unfolding idle_def
  proof (intro allI impI)
    fix s' assume "for_each f (x # xs) s = Inr s'"
    then obtain t where "f x s = Inr t" "for_each f xs t = Inr s'" by (auto elim!: rbind_InrE)
    with Cons show "s' = s" unfolding idle_def by blast
  qed
qed (simp add: idle_def)

lemma idle_steps:
  "idle s (generateSpirv (vkex_gen o') (Some i) s)" "idle s (generateFormat (vkex_gen o') (Some c) s)"
  "idle s (generateSyncStage (vkex_gen o') c s)" "idle s (generateSyncAccess (vkex_gen o') c s)"
  "idle s (generateSyncPipeline (vkex_gen o') b s)"
  by (auto simp: generateSpirv_def generateFormat_def generateSyncStage_def generateSyncAccess_def
      generateSyncPipeline_def idle_call) (auto simp: idle_def)

lemma idle_bind: "idle s m \<Longrightarrow> (\<And>t. idle t (f t)) \<Longrightarrow> idle s (rbind m f)"
  unfolding idle_def by (auto elim!: rbind_InrE)

lemma extras_unchanged: "generate_extras (vkex_gen o') a b c s = Inr s' \<Longrightarrow> s' = s"
proof -
  have "idle s (generate_extras (vkex_gen o') a b c s)"
    unfolding generate_extras_def by (intro idle_bind idle_loop idle_steps)
  then show "generate_extras (vkex_gen o') a b c s = Inr s' \<Longrightarrow> s' = s" unfolding idle_def by blast
qed

lemma endFile_text:
  assumes "endFile g = Inr g'" and "v_genOpts g = Some opts"
  shows "v_outFile g' = v_outFile g @ file_tail opts" and "v_structTypeCounts g' = v_structTypeCounts g"
    and "filename opts = Some name \<Longrightarrow> map_of (v_files g') (directory opts, name) = Some (v_outFile g')"
proof -
  have print: "v_outFile (fold (\<lambda>(kind, n). print_line (f kind n)) xs g) = v_outFile g"
    "v_structTypeCounts (fold (\<lambda>(kind, n). print_line (f kind n)) xs g) = v_structTypeCounts g"
    "v_genOpts (fold (\<lambda>(kind, n). print_line (f kind n)) xs g) = v_genOpts g" for f g and xs :: "(string \<times> nat) list"
    by (induction xs arbitrary: g) (auto simp: print_line_def)
  have line: "v_structTypeCounts (write_line l g) = v_structTypeCounts g" "v_structTypeCounts (newline g) = v_structTypeCounts g"
    "v_genOpts (write_line l g) = v_genOpts g" "v_genOpts (newline g) = v_genOpts g" for l g
    by (simp_all add: write_line_def newline_def write_end_def)
  obtain h where h: "base_endFile h = Inr g'" "v_genOpts h = Some opts" "v_structTypeCounts h = v_structTypeCounts g"
    "v_outFile h = v_outFile g @ file_tail opts"
    using assms by (simp add: endFile_def Let_def print line file_tail_def write_line_simps split: if_splits)
  then show "v_outFile g' = v_outFile g @ file_tail opts" "v_structTypeCounts g' = v_structTypeCounts g"
    "filename opts = Some name \<Longrightarrow> map_of (v_files g') (directory opts, name) = Some (v_outFile g')"
    by (auto simp: base_endFile_def Let_def split: option.splits)
qed

text \<open>The file that a whole generation writes, and that is copied to the target, is a head with the include guard, one block for each feature
  that is emitted and has structures to show, in a matching pair of \<^verbatim>\<open>#ifdef\<close> and \<^verbatim>\<open>#endif\<close> with its name, and a
  tail that closes the namespace and the guard; no block is empty, and the blocks hold as many structures as
  are counted as straightforward or complex.\<close>

lemma vkex_file:
  assumes "apiGen parse (vkex_gen (Some opts)) d (r, VkexOutputGenerator o') = Inr (r', g')"
  shows "\<exists>blocks. v_outFile g' = file_head opts @ concat (map block_text blocks) @ file_tail opts \<and>
    (\<forall>(n, texts) \<in> set blocks. texts \<noteq> [] \<and>
       (\<exists>f \<in> snd ` set (genFeatures r'). f_emit f \<and> elem_get (doc r') (i_elem f) ''name'' = Some n)) \<and>
    length (concat (map snd blocks)) = kind_count g' Straightforward + kind_count g' Complex \<and>
    (\<forall>name. filename opts = Some name \<longrightarrow> map_of (v_files g') (directory opts, name) = Some (v_outFile g'))"
proof -
  let ?gen = "vkex_gen (Some opts)"
  obtain r1 names s1 s2 s3 where
    b: "call ?gen BeginFile (r1, VkexOutputGenerator o') = Inr s1" and
    g: "for_each (generate_interface ?gen d) names s1 = Inr s2" and
    x: "generate_extras ?gen (map snd (spirvextdict r1)) (map snd (spirvcapdict r1)) (map snd (formatsdict r1)) s2 = Inr s3" and
    e: "call ?gen EndFile s3 = Inr (r', g')"
    using assms unfolding apiGen_def by (elim rbind_InrE) simp
  obtain g1 where g1: "beginFile (Some opts) (VkexOutputGenerator o') = Inr g1" "s1 = (r1, g1)"
    using b by (auto simp: call_def vkex_gen_def elim!: rbind_InrE)
  have "between opts [] s1"
    using vkex_ok_init [of o'] beginFile_text(1) [OF g1(1)]
    by (simp add: between_def written_def g1(2) block_structs_def vkex_ok_def struct_texts_def kind_count_def)
      (simp add: VkexOutputGenerator_def)
  from interfaces_between [OF this g] obtain blocks where w: "between opts blocks s2" by auto
  obtain g3 where g3: "endFile (snd s2) = Inr g3" "r' = fst s2" "g' = g3"
    using e extras_unchanged [OF x] by (cases s2) (auto simp: call_def vkex_gen_def elim!: rbind_InrE)
  have opts: "v_genOpts (snd s2) = Some opts" using w by (simp add: between_def written_def)
  note t = endFile_text [OF g3(1) opts]
  have "v_outFile g' = file_head opts @ concat (map block_text blocks) @ file_tail opts"
    "kind_count g' k = kind_count (snd s2) k" for k
    using w g3 t(1,2) by (simp_all add: between_def written_def kind_count_def)
  moreover have "block_structs blocks = kind_count (snd s2) Straightforward + kind_count (snd s2) Complex"
    using w by (simp add: between_def written_def vkex_ok_def)
  moreover have "\<forall>(n, texts) \<in> set blocks. texts \<noteq> [] \<and> emitted_feature r' n"
    using w g3 by (simp add: between_def written_def)
  ultimately show ?thesis using t(3) g3(3) unfolding block_structs_def emitted_feature_def by auto
qed

section \<open>Order of the structures\<close>

text \<open>The structures that are emitted are among the recorded items, in their order.\<close>

definition emitted_in_trace :: "(vkex_state \<times> entry list) gen_state \<Rightarrow> bool" where
  "emitted_in_trace s \<longleftrightarrow> vkex_ok (fst (snd s)) \<and> subseq (map (Pair FType) (v_emittedStructs (fst (snd s)))) (trace s)"

interpretation trace_keeper: keeper emitted_in_trace "recorded (vkex_gen o')" for o'
proof
  fix c and s :: "(vkex_state \<times> entry list) gen_state"
  assume c: "call_item c \<noteq> []" and s: "emitted_in_trace s"
  have "emitted_in_trace s'" if call: "call (recorded (vkex_gen o')) c s = Inr s'" for s'
  proof -
    obtain st g' where g: "vkex_gen o' c (fst s) (fst (snd s)) = Inr (st, g')"
      "s' = ((fst s)\<lparr>doc := st\<rparr>, g', trace s @ call_item c)"
      using call by (cases s) (auto simp: call_def recorded_def elim!: rbind_InrE)
    have "vkex_ok (fst (snd s))" using s by (simp add: emitted_in_trace_def)
    note k = item_keeps [OF g(1) c this]
    from k(7) have "subseq (map (Pair FType) (v_emittedStructs g')) (trace s @ call_item c)"
    proof
      assume "v_emittedStructs g' = v_emittedStructs (fst (snd s))"
      with s show ?thesis by (simp add: emitted_in_trace_def list_emb_prefix)
    next
      assume "\<exists>n. call_item c = [(FType, n)] \<and> v_emittedStructs g' = v_emittedStructs (fst (snd s)) @ [n]"
      with s show ?thesis by (auto simp: emitted_in_trace_def list_emb_append_mono)
    qed
    with k(1) show ?thesis by (simp add: emitted_in_trace_def g(2))
  qed
  then show "outcome {} (call (recorded (vkex_gen o')) c s) emitted_in_trace"
    by (auto simp: outcome_def split: sum.splits)
qed (simp_all add: emitted_in_trace_def)

lemma ordered_subseq:
  assumes "subseq ys tr" and "distinct tr" and "ordered r tr" and "i < length ys"
    and "y \<in> set (gen_deps r (ys ! i))" and "y \<in> set ys" and "emittable r y"
  shows "y \<in> set (take i ys)"
proof -
  have ys: "ys = take i ys @ ys ! i # drop (Suc i) ys" using assms(4) by (rule id_take_nth_drop)
  with assms(1) obtain us vs where t: "tr = us @ vs" "subseq (take i ys) us" "subseq (ys ! i # drop (Suc i) ys) vs"
    by (metis list_emb_appendD)
  obtain vs0 vs1 where v: "vs = vs0 @ ys ! i # vs1" "subseq (drop (Suc i) ys) vs1"
    using t(3) by (auto dest: list_emb_ConsD)
  let ?k = "length (us @ vs0)"
  have k: "?k < length tr" "tr ! ?k = ys ! i" "take ?k tr = us @ vs0" by (simp_all add: t(1) v(1) nth_append)
  have "\<forall>y \<in> set (gen_deps r (tr ! ?k)). emittable r y \<longrightarrow> y \<in> set (take ?k tr)"
    using assms(3) k(1) unfolding ordered_def by blast
  then have y: "y \<in> set (us @ vs0)" using assms(5,7) unfolding k(2,3) by blast
  have "set (drop (Suc i) ys) \<subseteq> set vs1" using v(2) by (auto dest: list_emb_set)
  moreover have "set (us @ vs0) \<inter> insert (ys ! i) (set vs1) = {}" using assms(2) by (auto simp: t(1) v(1))
  ultimately have "y \<notin> set (ys ! i # drop (Suc i) ys)" using y by auto
  moreover have "set ys = set (take i ys) \<union> set (ys ! i # drop (Suc i) ys)" using arg_cong [OF ys, of set] by simp
  ultimately show ?thesis using assms(6) by blast
qed

text \<open>C22: within the interface of a feature the structures come out in an order in which they can be
  declared: none is emitted twice, and whenever one of them contains, requires or is an alias of
  another that is emitted, the other comes first. This needs the document to have no types in the
  comments that the generator removes, and acyclic dependencies.\<close>

theorem vkex_structs_ordered:
  assumes "quiet_comments (doc r)" and "emitFeatures r" and "requireDepends (gen_opts r)"
    and "acyclic (needs r)" and "\<forall>x. \<not> entry_declared r x" and "vkex_ok g" and "v_emittedStructs g = []"
    and "generateRequiredInterface (recorded (vkex_gen opts)) d interface (r, g, []) = Inr (r', g', tr)"
  shows "distinct (v_emittedStructs g') \<and>
    (\<forall>i < length (v_emittedStructs g'). \<forall>j < length (v_emittedStructs g').
       (FType, v_emittedStructs g' ! j) \<in> set (gen_deps r (FType, v_emittedStructs g' ! i)) \<longrightarrow> j < i)"
proof -
  let ?ys = "map (Pair FType) (v_emittedStructs g')"
  have "emission quiet_comments r {} (r, g, [])"
    using assms(1,5) by (simp add: emission_def items_frame.rel_refl ordered_def)
  from vkex_generator.interface_generates [OF assms(2-4) this, of opts d interface]
  have e: "emission quiet_comments r {} (r', g', tr)" by (simp add: generates_def assms(8))
  then have tr: "distinct tr" "ordered r tr" "\<forall>x \<in> set tr. emittable r x"
    unfolding emission_def fst_conv snd_conv by blast+
  have "emitted_in_trace (r, g, [])" using assms(6,7) by (simp add: emitted_in_trace_def)
  from trace_keeper.interface_keeps [OF this] have "emitted_in_trace (r', g', tr)"
    by (rule outcome_value) (rule assms(8))
  then have sub: "subseq ?ys tr" by (simp add: emitted_in_trace_def)
  then have "distinct ?ys" using tr(1) by (metis subseq_conv_nths distinct_nthsI)
  then have d: "distinct (v_emittedStructs g')" by (simp add: distinct_map)
  have sub_set: "set ?ys \<subseteq> set tr" using sub by (metis subseq_conv_nths set_nths_subset)
  have "j < i" if i: "i < length (v_emittedStructs g')" and j: "j < length (v_emittedStructs g')"
    and dep: "(FType, v_emittedStructs g' ! j) \<in> set (gen_deps r (FType, v_emittedStructs g' ! i))" for i j
  proof -
    have m: "?ys ! j \<in> set ?ys" using j by (intro nth_mem) simp
    then have "emittable r (?ys ! j)" using sub_set tr(3) by blast
    then have "?ys ! j \<in> set (take i ?ys)"
      using i j dep m by (intro ordered_subseq [OF sub tr(1,2)]) simp_all
    then obtain l where "l < i" "l < length (v_emittedStructs g')" "v_emittedStructs g' ! l = v_emittedStructs g' ! j"
      using i j by (auto simp: in_set_conv_nth)
    with d j show ?thesis by (auto simp: nth_eq_iff_index_eq)
  qed
  with d show ?thesis by blast
qed

section \<open>Examples\<close>

text \<open>A structure that contains another, which has a comment, with the options of the command line.\<close>

definition member_node :: "(string \<times> string) list \<Rightarrow> string \<Rightarrow> string \<Rightarrow> string \<Rightarrow> string \<Rightarrow> xtree" where
  "member_node ats pre ty tail name = XTree ''member'' ats (Some pre) None
     [XTree ''type'' [] (Some ty) (Some tail) [], XTree ''name'' [] (Some name) None []]"

definition vkex_document :: xtree where
  "vkex_document =
     XTree ''registry'' [] None None
       [XTree ''types'' [] None None
          [XTree ''type'' [(''category'', ''struct''), (''name'', ''VkOuter'')] None None
             [member_node [] [] ''VkInner'' '' '' ''inner'', member_node [] [] ''uint32_t'' '' '' ''count'',
              member_node [(''len'', ''count'')] ''const '' ''float'' ''* '' ''pItems''],
           XTree ''type'' [(''category'', ''struct''), (''name'', ''VkInner'')] None None
             [member_node [] [] ''uint32_t'' '' '' ''size'',
              member_node [(''len'', ''size'')] ''const '' ''void'' ''* '' ''pData'',
              XTree ''member'' [] (Some []) None
                [XTree ''type'' [] (Some ''int'') (Some '' '') [], XTree ''name'' [] (Some ''flag'') None [],
                 XTree ''comment'' [] (Some ''not shown'') None []]]],
        XTree ''feature'' [(''api'', ''vulkan''), (''name'', ''VK_VERSION_1_0''), (''number'', ''1.0'')] None None
          [XTree ''require'' [] None None [XTree ''type'' [(''name'', ''VkOuter'')] None None []]]]"

definition vkex_example_options :: vkex_options where
  "vkex_example_options = genTarget rx_str example_args"

definition vkex_run :: "vkex_state gen_state res" where
  "vkex_run = rbind (loadElementTree 9 vkex_document (Registry (Some (generator_options.truncate vkex_example_options)))) (\<lambda>r.
     apiGen (\<lambda>_. None) (vkex_gen (Some vkex_example_options)) 9 (r, VkexOutputGenerator None))"

lemma vkex_run_Inr:
  "case vkex_run of Inl e \<Rightarrow> False | Inr s \<Rightarrow> v_emittedStructs (snd s) = [Some ''VkInner'', Some ''VkOuter''] \<and>
     kind_count (snd s) Straightforward = 2 \<and> kind_count (snd s) Complex = 0"
  by code_simp

lemma vkex_file_example:
  "\<exists>r' g' blocks. vkex_run = Inr (r', g') \<and> length (concat (map snd blocks)) = 2 \<and>
     v_outFile g' = file_head vkex_example_options @ concat (map block_text blocks) @ file_tail vkex_example_options"
proof -
  obtain s where s: "vkex_run = Inr s" "kind_count (snd s) Straightforward = 2" "kind_count (snd s) Complex = 0"
    using res_caseD [OF vkex_run_Inr] by blast
  then obtain r where "apiGen (\<lambda>_. None) (vkex_gen (Some vkex_example_options)) 9 (r, VkexOutputGenerator None) = Inr (fst s, snd s)"
    unfolding vkex_run_def by (elim rbind_InrE) simp
  from vkex_file [OF this] s show ?thesis by (metis add.right_neutral prod.collapse)
qed

text \<open>A registry with two structures, the first with an array of the second.\<close>

definition elem_node :: "string \<Rightarrow> (string \<times> string) list \<Rightarrow> string option \<Rightarrow> string option \<Rightarrow> addr list \<Rightarrow> xnode" where
  "elem_node tag ats txt tail cs = \<lparr>etag = tag, eattrib = ats, etext = txt, etail = tail, echildren = cs\<rparr>"

definition structs_doc :: store where
  "structs_doc =
     [elem_node ''type'' [(''category'', ''struct''), (''name'', ''A'')] None None [1, 4],
      elem_node ''member'' [] (Some []) None [2, 3],
      elem_node ''type'' [] (Some ''uint32_t'') (Some '' '') [], elem_node ''name'' [] (Some ''n'') None [],
      elem_node ''member'' [(''len'', ''n'')] (Some ''const '') None [5, 6],
      elem_node ''type'' [] (Some ''B'') (Some ''* '') [], elem_node ''name'' [] (Some ''pB'') None [],
      elem_node ''type'' [(''category'', ''struct''), (''name'', ''B'')] None None [8, 11],
      elem_node ''member'' [] (Some []) None [9, 10],
      elem_node ''type'' [] (Some ''uint32_t'') (Some '' '') [], elem_node ''name'' [] (Some ''n'') None [],
      elem_node ''member'' [(''len'', ''n'')] (Some ''const '') None [12, 13],
      elem_node ''type'' [] (Some ''void'') (Some ''* '') [], elem_node ''name'' [] (Some ''pV'') None [],
      elem_node ''feature'' [] None None [15], elem_node ''require'' [] None None [16],
      elem_node ''type'' [(''name'', ''A'')] None None []]"

definition structs_example :: registry where
  "structs_example = (Registry None)\<lparr>doc := structs_doc,
     typedict := [(Name (Some ''A''), (TypeInfo 0)\<lparr>i_required := True\<rparr>), (Name (Some ''B''), (TypeInfo 7)\<lparr>i_required := True\<rparr>)],
     emitFeatures := True\<rparr>"

definition structs_gen :: vkex_state where
  "structs_gen = (VkexOutputGenerator (Some vkex_example_options))\<lparr>v_featureName := Some ''VK_X''\<rparr>"

definition structs_run :: "(vkex_state \<times> entry list) gen_state res" where
  "structs_run = generateRequiredInterface (recorded (vkex_gen None)) 3 14 (structs_example, structs_gen, [])"

lemma structs_run_Inr:
  "case structs_run of Inl e \<Rightarrow> False | Inr s \<Rightarrow> v_emittedStructs (fst (snd s)) = [Some ''B'', Some ''A'']"
  by code_simp

lemma structs_quiet: "quiet_comments structs_doc"
proof -
  have "list_all (\<lambda>n. etag n \<noteq> ''comment'') (no_node # structs_doc)" by code_simp
  moreover have "node structs_doc c \<in> set (no_node # structs_doc)" for c by (simp add: node_def)
  ultimately have "elem_tag structs_doc c \<noteq> ''comment''" for c unfolding list_all_iff by blast
  then show ?thesis unfolding quiet_comments_def by blast
qed

theorem vkex_structs_ordered_witness:
  "\<exists>s. structs_run = Inr s \<and> v_emittedStructs (fst (snd s)) = [Some ''B'', Some ''A''] \<and>
     (FType, Some ''B'') \<in> set (gen_deps structs_example (FType, Some ''A'')) \<and> distinct (v_emittedStructs (fst (snd s)))"
proof -
  have n: "needed structs_example x \<longleftrightarrow> x \<in> {(FType, Some ''A''), (FType, Some ''B'')}" for x
    by (cases "fst x"; cases x) (auto simp: needed_def info_entry_def reg_lookup_def lookupElementInfo_def
        lookupKey_def structs_example_def Registry_def TypeInfo_def BaseInfo_def)
  have d: "gen_deps structs_example (FType, Some ''A'') = [(FType, Some ''uint32_t''), (FType, Some ''B'')]"
    "followup structs_example (FType, Some ''A'') = []"
    "gen_deps structs_example (FType, Some ''B'') = [(FType, Some ''uint32_t''), (FType, Some ''void'')]"
    "followup structs_example (FType, Some ''B'') = []"
    by code_simp+
  have "acyclic (needs structs_example)"
    by (rule acyclicI_order [of _ "\<lambda>x. if x = (FType, Some ''A'') then 0 else if x = (FType, Some ''B'') then 1 else (2::nat)"])
      (use d in \<open>auto simp: needs_def n\<close>)
  moreover have "\<forall>x. \<not> entry_declared structs_example x"
    by (auto simp: entry_declared_def info_entry_def reg_lookup_def lookupElementInfo_def lookupKey_def
        structs_example_def Registry_def TypeInfo_def BaseInfo_def base_info.defs split: ftype.splits if_splits)
  moreover have "emitFeatures structs_example" "requireDepends (gen_opts structs_example)" by code_simp+
  moreover have "quiet_comments (doc structs_example)" using structs_quiet by (simp add: structs_example_def)
  moreover have "vkex_ok structs_gen" "v_emittedStructs structs_gen = []"
    using vkex_ok_init [of "Some vkex_example_options"]
    by (simp_all add: structs_gen_def vkex_ok_def struct_texts_def kind_count_def) (simp add: VkexOutputGenerator_def)
  moreover obtain s where s: "structs_run = Inr s" "v_emittedStructs (fst (snd s)) = [Some ''B'', Some ''A'']"
    using res_caseD [OF structs_run_Inr] by blast
  moreover from s(1) have "generateRequiredInterface (recorded (vkex_gen None)) 3 14 (structs_example, structs_gen, []) =
    Inr (fst s, fst (snd s), snd (snd s))" by (simp add: structs_run_def)
  ultimately have "distinct (v_emittedStructs (fst (snd s)))" by (meson vkex_structs_ordered)
  with s d show ?thesis by (intro exI [of _ s]) simp
qed

end
