(* ===== verification/PyText.thy ===== *)
theory PyText
  imports Numbers
begin

text \<open>
  The string methods of Python that the C declarations use beyond those of \<open>Prelude\<close>, and that
  numbers read back from what the generators print.
\<close>

section \<open>Methods\<close>

text \<open>\<open>s.ljust(n)\<close>, \<open>s.strip(chars)\<close>, and \<open>s.split()\<close> with the words that white space separates.\<close>

definition ljust :: "int \<Rightarrow> string \<Rightarrow> string" where
  "ljust n s = s @ replicate (nat n - length s) CHR '' ''"

definition strip_chars :: "string \<Rightarrow> string \<Rightarrow> string" where
  "strip_chars cs s = rev (dropWhile (\<lambda>c. c \<in> set cs) (rev (dropWhile (\<lambda>c. c \<in> set cs) s)))"

function words :: "string \<Rightarrow> string list" where
  "words s =
     (case dropWhile py_isspace s of
        [] \<Rightarrow> []
      | c # t \<Rightarrow> (c # takeWhile (\<lambda>x. \<not> py_isspace x) t) # words (dropWhile (\<lambda>x. \<not> py_isspace x) t))"
  by pat_completeness auto
termination
proof (relation "measure length")
  fix s :: string and c t
  assume "dropWhile py_isspace s = c # t"
  then have "length (c # t) \<le> length s" by (metis length_dropWhile_le)
  moreover have "length (dropWhile (\<lambda>x. \<not> py_isspace x) t) \<le> length t" by (rule length_dropWhile_le)
  ultimately show "(dropWhile (\<lambda>x. \<not> py_isspace x) t, s) \<in> measure length" by simp
qed simp

declare words.simps [simp del]

text \<open>\<open>' '.join(s.split())\<close>\<close>

definition squeeze :: "string \<Rightarrow> string" where
  "squeeze s = py_join '' '' (words s)"

text \<open>\<open>s.rsplit(sep, 1)[0]\<close>: what is before the last occurrence, if there is one.\<close>

fun before_last :: "string \<Rightarrow> string \<Rightarrow> string option" where
  "before_last sep [] = (if sep = [] then Some [] else None)"
| "before_last sep (c # s) =
     (case before_last sep s of
        Some t \<Rightarrow> Some (c # t)
      | None \<Rightarrow> if prefix sep (c # s) then Some [] else None)"

definition rsplit_first :: "string \<Rightarrow> string \<Rightarrow> string" where
  "rsplit_first sep s = (case before_last sep s of Some t \<Rightarrow> t | None \<Rightarrow> s)"

section \<open>Words\<close>

lemma words_simps [simp]:
  "words [] = []"
  "words (c # s) =
     (if py_isspace c then words s
      else (c # takeWhile (\<lambda>x. \<not> py_isspace x) s) # words (dropWhile (\<lambda>x. \<not> py_isspace x) s))"
  by (simp_all add: words.simps [of "[]"] words.simps [of "c # s"] words.simps [of s])

lemma words_in: "w \<in> set (words s) \<Longrightarrow> w \<noteq> [] \<and> (\<forall>c \<in> set w. \<not> py_isspace c)"
proof (induction s rule: length_induct)
  case (1 s)
  have len: "length (dropWhile P t) < length (c # t)" for P and c :: char and t
    using length_dropWhile_le [of P t] by simp
  show ?case
  proof (cases s)
    case (Cons c t)
    then have "py_isspace c \<and> w \<in> set (words t) \<or> \<not> py_isspace c \<and>
        (w = c # takeWhile (\<lambda>x. \<not> py_isspace x) t \<or> w \<in> set (words (dropWhile (\<lambda>x. \<not> py_isspace x) t)))"
      using "1.prems" by (simp split: if_splits)
    then show ?thesis using "1.IH" Cons len by (auto dest: set_takeWhileD)
  qed (use "1.prems" in simp)
qed

lemma words_word: "w \<noteq> [] \<Longrightarrow> \<forall>c \<in> set w. \<not> py_isspace c \<Longrightarrow> words w = [w]"
proof (cases w)
  case (Cons c v)
  assume "\<forall>c \<in> set w. \<not> py_isspace c"
  with Cons have "takeWhile (\<lambda>x. \<not> py_isspace x) v = v" "dropWhile (\<lambda>x. \<not> py_isspace x) v = []" by simp_all
  with Cons \<open>\<forall>c \<in> set w. \<not> py_isspace c\<close> show ?thesis by (simp only: words_simps) simp
qed simp

lemma words_append:
  assumes "w \<noteq> []" and "\<forall>c \<in> set w. \<not> py_isspace c" and "py_isspace b"
  shows "words (w @ b # s) = w # words s"
proof (cases w)
  case (Cons c v)
  with assms have "takeWhile (\<lambda>x. \<not> py_isspace x) (v @ b # s) = v" "dropWhile (\<lambda>x. \<not> py_isspace x) (v @ b # s) = b # s"
    by (simp_all add: takeWhile_append2 dropWhile_append2)
  then show ?thesis using Cons assms by simp
qed (use assms in simp)

lemma words_join:
  "\<forall>w \<in> set ws. w \<noteq> [] \<and> (\<forall>c \<in> set w. \<not> py_isspace c) \<Longrightarrow> words (py_join '' '' ws) = ws"
proof (induction ws)
  case (Cons w ws)
  show ?case
  proof (cases "ws = []")
    case True
    with Cons.prems show ?thesis by (simp add: words_word)
  next
    case False
    have "words (w @ CHR '' '' # py_join '' '' ws) = w # words (py_join '' '' ws)"
      using Cons.prems by (intro words_append) (simp_all add: py_isspace_def)
    with False Cons show ?thesis by (simp add: py_join_Cons)
  qed
qed simp

lemma words_squeeze [simp]: "words (squeeze s) = words s"
  unfolding squeeze_def by (intro words_join ballI words_in)

lemma squeeze_idem [simp]: "squeeze (squeeze s) = squeeze s"
  by (simp add: squeeze_def [of "squeeze s"]) (simp add: squeeze_def)

section \<open>Numbers read back\<close>

lemma show_base_chars: "1 < b \<Longrightarrow> b \<le> 16 \<Longrightarrow> c \<in> set (show_base b n) \<Longrightarrow> \<exists>v < b. c = digit_char v"
proof (induction b n rule: show_base.induct)
  case (1 b n)
  show ?case
  proof (cases "n < b \<or> b \<le> 1")
    case True
    then show ?thesis using "1.prems" by (subst (asm) show_base.simps) (auto split: if_splits)
  next
    case False
    then have "show_base b n = show_base b (n div b) @ [digit_char (n mod b)]" by (subst show_base.simps) simp
    then have "c \<in> set (show_base b (n div b)) \<or> c = digit_char (n mod b)" using "1.prems" by auto
    moreover have "n mod b < b" using "1.prems" by simp
    ultimately show ?thesis using False 1 by blast
  qed
qed

lemma digit_char_simps: "v < 16 \<Longrightarrow> \<not> py_isspace (digit_char v) \<and> digit_char v \<notin> {CHR ''-'', CHR ''+''}"
proof -
  assume v: "v < 16"
  have "digit_value c = None" if "py_isspace c \<or> c \<in> {CHR ''-'', CHR ''+''}" for c
    using that by (auto simp: py_isspace_def digit_value_def py_isdigit_def py_islower_def py_isupper_def)
  with digit_value_char [OF v] show ?thesis by fastforce
qed

lemma strip_id: "(\<And>c. c \<in> set s \<Longrightarrow> \<not> py_isspace c) \<Longrightarrow> strip s = s"
proof -
  assume "\<And>c. c \<in> set s \<Longrightarrow> \<not> py_isspace c"
  then have "dropWhile py_isspace s = s" "dropWhile py_isspace (rev s) = rev s"
    by (metis dropWhile_eq_self_iff hd_in_set, metis dropWhile_eq_self_iff hd_in_set set_rev)
  then show ?thesis by (simp add: strip_def lstrip_def rstrip_def)
qed

lemma show_base_zero: "hd (show_base 10 n) = CHR ''0'' \<Longrightarrow> n = 0"
proof (induction n rule: less_induct)
  case (less n)
  show ?case
  proof (cases "n < 10")
    case True
    with less.prems have "digit_char n = CHR ''0''" by (subst (asm) show_base.simps) simp
    then have "digit_value (digit_char n) = Some 0" by (simp add: digit_value_def py_isdigit_def)
    then show ?thesis using digit_value_char [of n] True by simp
  next
    case False
    then have "show_base 10 n = show_base 10 (n div 10) @ [digit_char (n mod 10)]" by (subst show_base.simps) simp
    with less.prems have "hd (show_base 10 (n div 10)) = CHR ''0''" by simp
    with less.IH [of "n div 10"] False show ?thesis by simp
  qed
qed

lemma read_prefixed_decimal: "read_prefixed (show_base 10 n) = Some n"
proof -
  have r: "read_digits 10 False 0 (show_base 10 n) = Some n" by (simp add: read_show_base)
  have p: "p \<notin> {CHR ''x'', CHR ''X'', CHR ''o'', CHR ''O'', CHR ''b'', CHR ''B''}" if "p \<in> set (show_base 10 n)" for p
  proof -
    have "\<exists>v < 10. p = digit_char v" using show_base_chars [of 10 p n] that by simp
    then obtain v where "v < 10" "p = digit_char v" by blast
    then have "digit_value p = Some v" by (simp add: digit_value_char)
    with \<open>v < 10\<close> show ?thesis by (auto simp: digit_value_def py_isdigit_def py_islower_def py_isupper_def)
  qed
  show ?thesis
  proof (cases "show_base 10 n")
    case (Cons c cs)
    show ?thesis
    proof (cases cs)
      case Nil
      with Cons r show ?thesis by (simp add: read_prefixed_def)
    next
      case (Cons q rest)
      with \<open>show_base 10 n = c # cs\<close> p [of q] r show_base_zero [of n] show ?thesis
        by (simp add: read_prefixed_def)
    qed
  qed simp
qed

lemma signed_plain: "s \<noteq> [] \<Longrightarrow> hd s \<notin> {CHR ''-'', CHR ''+''} \<Longrightarrow> rd s = Some n \<Longrightarrow> signed rd s = Inr (int n)"
  by (cases s) (auto simp: signed_def)

lemma py_int0_show_int: "py_int0 (show_int i) = Inr i"
proof -
  have c: "c \<in> set (show_base 10 n) \<Longrightarrow> \<not> py_isspace c \<and> c \<notin> {CHR ''-'', CHR ''+''}" for c n
    using show_base_chars [of 10 c n] digit_char_simps by fastforce
  have "hd (show_base 10 n) \<notin> {CHR ''-'', CHR ''+''}" for n
    using c [of "hd (show_base 10 n)" n] by (simp add: hd_in_set)
  then have plain: "signed read_prefixed (show_base 10 n) = Inr (int n)" for n
    by (intro signed_plain read_prefixed_decimal) simp_all
  have "strip (show_int i) = show_int i"
    by (rule strip_id) (auto simp: show_int_def py_isspace_def dest: c split: if_splits)
  with plain show ?thesis
    by (auto simp: py_int0_def show_int_def signed_def [of _ "CHR ''-'' # _"] read_prefixed_decimal)
qed

lemma py_int0_show_hex8: "py_int0 (show_hex8 n) = Inr (int n)"
proof -
  let ?h = "show_base 16 n"
  have "read_digits 16 ok 0 (replicate k CHR ''0'' @ ?h) = Some n" for ok k
    using read_digits_show [of 16 ok 0 n "[]"] read_digits_show [of 16 True 0 n "[]"] by (simp add: read_digits_zeros)
  then have r: "read_prefixed (show_hex8 n) = Some n"
    by (simp add: show_hex8_def read_prefixed_def Let_def)
  have "\<not> py_isspace c" if "c \<in> set (show_hex8 n)" for c
  proof -
    have "c \<in> {CHR ''0'', CHR ''x''} \<or> c \<in> set ?h" using that by (auto simp: show_hex8_def Let_def)
    moreover have "\<not> py_isspace c" if "c \<in> set ?h"
    proof -
      have "\<exists>v < 16. c = digit_char v" using show_base_chars [of 16 c n] that by simp
      then show ?thesis using digit_char_simps by blast
    qed
    moreover have "\<not> py_isspace CHR ''0''" "\<not> py_isspace CHR ''x''" by (simp_all add: py_isspace_def)
    ultimately show ?thesis by blast
  qed
  then have "strip (show_hex8 n) = show_hex8 n" by (rule strip_id)
  moreover have "signed read_prefixed (show_hex8 n) = Inr (int n)"
    using r by (intro signed_plain) (simp_all add: show_hex8_def Let_def)
  ultimately show ?thesis by (simp add: py_int0_def)
qed

end
