(* ===== verification/GenVkex.thy ===== *)
theory GenVkex
  imports RegFrame VkexFile PyText
begin

text \<open>
  The main program \<^verbatim>\<open>src/tools/vkex/genvkex.py\<close> from its parsed arguments and the parsed registry to the file
  \<^verbatim>\<open>vkex.hpp\<close>, and what a whole run guarantees: the components of the library put together. The
  flags \<^verbatim>\<open>-debug\<close> (an interactive debugger) and \<^verbatim>\<open>-dump\<close> (a second file) are not set.
\<close>

definition split_names :: "string list \<Rightarrow> string list" where
  "split_names args = concat (map words args)"

definition genvkex_args :: "cli_args \<Rightarrow> cli_args" where
  "genvkex_args args = args\<lparr>cli_feature := split_names (cli_feature args), cli_extension := split_names (cli_extension args)\<rparr>"

text \<open>The final state of the registry and of the generator, and the line that is printed.\<close>

definition genvkex ::
  "(string \<Rightarrow> rx) \<Rightarrow> (string \<Rightarrow> string list option) \<Rightarrow> nat \<Rightarrow> cli_args \<Rightarrow> xtree
     \<Rightarrow> (vkex_state gen_state \<times> string) res" where
  "genvkex rd parse d args tree =
     (let args = genvkex_args args;
          options = genTarget rd args;
          gen = VkexOutputGenerator None;
          reg = Registry (Some (generator_options.truncate options))
      in rbind (loadElementTree d tree reg) (\<lambda>reg.
         rbind (apiGen parse (vkex_gen (Some options)) d (reg, gen)) (\<lambda>s.
         Inr (s, ''* Generated '' @ py_str (filename options)))))"

text \<open>Generation changes nothing of the selection.\<close>

definition same_features :: "(pname, feature_info) dict \<Rightarrow> 'g gen_state \<Rightarrow> bool" where
  "same_features x s \<longleftrightarrow> genFeatures (fst s) = x"

lemma same_features_call: "same_features x s \<Longrightarrow> call gen c s = Inr s' \<Longrightarrow> same_features x s'"
  by (cases s) (auto simp: call_def same_features_def elim!: rbind_InrE)

interpretation features_keeper: keeper "same_features x" gen for x gen
proof
  fix c and s :: "'a gen_state" assume s: "same_features x s"
  show "outcome {} (call gen c s) (same_features x)"
    using same_features_call [OF s] by (cases "call gen c s") auto
next
  fix s :: "'a gen_state" and ft n assume "same_features x s"
  then show "same_features x (declare_entry ft n (fst s), snd s)"
    by (cases ft) (simp_all add: same_features_def declare_entry_def)
qed (auto simp: same_features_def only_doc_def)

lemma interface_features:
  assumes "same_features x s" and "generate_interface gen d name s = Inr s'" shows "same_features x s'"
proof -
  obtain f :: feature_info and s1 s2 where
    b: "call gen (BeginFeature (i_elem f) (f_emit f)) ((fst s)\<lparr>emitFeatures := f_emit f\<rparr>, snd s) = Inr s1"
    and g: "generateRequiredInterface gen d (i_elem f) s1 = Inr s2" and e: "call gen EndFeature s2 = Inr s'"
    using assms(2) unfolding generate_interface_def Let_def by (elim rbind_InrE)
  have "same_features x ((fst s)\<lparr>emitFeatures := f_emit f\<rparr>, snd s)" using assms(1) by (simp add: same_features_def)
  then have "same_features x s1" using b by (rule same_features_call)
  from features_keeper.interface_keeps [OF this] have "same_features x s2" by (rule outcome_value) (rule g)
  then show ?thesis using e by (rule same_features_call)
qed

text \<open>What a run of \<^verbatim>\<open>apiGen\<close> with the generator of \<^verbatim>\<open>vkex.hpp\<close> emits was asked for.\<close>

lemma apiGen_emits:
  assumes "apiGen parse (vkex_gen o') d (r, g) = Inr (r', g')" and "reg_ok r" and "feats_named r"
  shows "emits_asked (gen_opts r) r'"
proof -
  let ?gen = "vkex_gen o'"
  obtain ra names rb s1 s2 s3 where sel: "select_all r = Inr ra" and tag: "tag_passes parse d names ra = Inr rb"
    and b: "call ?gen BeginFile (rb, g) = Inr s1" and l: "for_each (generate_interface ?gen d) names s1 = Inr s2"
    and x: "generate_extras ?gen (map snd (spirvextdict rb)) (map snd (spirvcapdict rb)) (map snd (formatsdict rb)) s2 = Inr s3"
    and e: "call ?gen EndFile s3 = Inr (r', g')"
    using assms(1) unfolding apiGen_def by (elim rbind_InrE) simp
  have "same_features (genFeatures rb) (rb, g)" by (simp add: same_features_def)
  then have "same_features (genFeatures rb) s1" using b by (rule same_features_call)
  with l have "same_features (genFeatures rb) s2" by (rule for_each_inv) (rule interface_features)
  then have "same_features (genFeatures rb) s3" using extras_unchanged [OF x] by simp
  then have "same_features (genFeatures rb) (r', g')" using e by (rule same_features_call)
  then have "genFeatures r' = genFeatures ra" using tag_passes_keeps [OF tag] by (simp add: same_features_def)
  moreover have "doc_extends (doc ra) (doc r')"
  proof -
    have "reg_ok ra" using select_all_step [OF sel] assms(2) by (simp add: reg_step_def)
    moreover have "reg_step ra (fst (r', g'))"
      by (rule reg_frame.rel_trans [OF tag_passes_step [OF tag] reg_frame.rel_trans [OF
            vkex_client.call_step [OF b, unfolded fst_conv] reg_frame.rel_trans [OF
            vkex_client.loop_step [OF l vkex_client.generate_interface_step] reg_frame.rel_trans [OF
            vkex_client.generate_extras_step [OF x] vkex_client.call_step [OF e]]]]])
    ultimately show ?thesis by (simp add: reg_step_def)
  qed
  moreover have "emits_asked (gen_opts r) ra" by (rule select_all_emits [OF sel assms(3)])
  ultimately show ?thesis unfolding emits_asked_def doc_extends_def by fastforce
qed

section \<open>What a run of the program guarantees\<close>

text \<open>\<open>n\<close> is one of the names given, or none are given; \<^verbatim>\<open>$\<close> lets a final line feed through.\<close>

definition named_by :: "string list \<Rightarrow> string \<Rightarrow> bool" where
  "named_by names n \<longleftrightarrow> names = [] \<or> (\<exists>m \<in> set names. n = m \<or> n = m @ [CHR 0x0A])"

lemma re_match_named:
  "re_match (emptyRegex (makeREstring rd names (Some rx_all) False)) n \<longleftrightarrow> named_by names n"
proof (cases "names = []")
  case True
  then have "makeREstring rd names (Some rx_all) False = Some rx_all" by (simp add: makeREstring_def)
  then have "emptyRegex (makeREstring rd names (Some rx_all) False) = rx_all" by (simp add: emptyRegex_def rx_all_def)
  with True show ?thesis by (simp add: named_by_def)
next
  case False
  then have "emptyRegex (makeREstring rd names (Some rx_all) False) = Seq Begin (Seq (rx_alts (map rx_str names)) End)"
    by (simp add: makeREstring_def emptyRegex_def)
  with False show ?thesis by (simp only: re_match_names named_by_def) simp
qed

lemma asked_for_target:
  "asked_for (generator_options.truncate (genTarget rd args)) n \<Longrightarrow>
     named_by (cli_feature args) n \<or> named_by (cli_emitExtensions args) n \<and> \<not> re_match (removeExtensions (genTarget rd args)) n"
  by (simp add: asked_for_def genTarget_def VkexGeneratorOptions_def GeneratorOptions_def generator_options.defs
      vkex_options.defs Let_def re_match_named)

lemma genTarget_filename:
  "filename (genTarget rd args) = Some ''vkex.hpp''" "directory (genTarget rd args) = cli_directory args"
  by (simp_all add: genTarget_def VkexGeneratorOptions_def GeneratorOptions_def generator_options.defs
      vkex_options.defs Let_def default_args_def)


text \<open>The document of theory VkexFile, with the version asked for among two names of one argument.\<close>

definition genvkex_example :: cli_args where
  "genvkex_example = example_args\<lparr>cli_feature := [''VK_VERSION_1_1 VK_VERSION_1_0'']\<rparr>"

lemma genvkex_run:
  "case genvkex rx_str (\<lambda>_. None) 9 genvkex_example vkex_document of Inl e \<Rightarrow> False
   | Inr (s, line) \<Rightarrow> v_emittedStructs (snd s) = [Some ''VkInner'', Some ''VkOuter'']"
  by code_simp


end
