(* ===== verification/EnumValues.thy ===== *)
theory EnumValues
  imports VkexGen Depends PyText "HOL-Library.Word"
begin

text \<open>
  The values of enumerants and the C declarations of groups of enums and constants: the methods
  \<^verbatim>\<open>enumToValue\<close>, \<^verbatim>\<open>checkDuplicateEnums\<close>, \<^verbatim>\<open>buildEnumCDecl*\<close> and \<^verbatim>\<open>buildConstantCDecl\<close> of
  \<^verbatim>\<open>OutputGenerator\<close> and \<^verbatim>\<open>genProtectDirective\<close> (\<^verbatim>\<open>src/tools/vkex/generator.py\<close>). Python integers are
  \<open>int\<close>; that a value fits the C type it is given to is stated with words.
\<close>

section \<open>Guards\<close>

text \<open>\<open>parse\<close> is the parser of protect expressions and \<open>d\<close> the depth of the stack, as for \<open>protectLanguageC\<close>;
  every exception is caught.\<close>

definition genProtectDirective :: "(string \<Rightarrow> string list option) \<Rightarrow> nat \<Rightarrow> string option \<Rightarrow> string \<times> string" where
  "genProtectDirective parse d protect_str =
     (case protect_str of
        None \<Rightarrow> ([], [])
      | Some s \<Rightarrow>
          if s = [] then ([], [])
          else if \<exists>c \<in> set '',+()!''. c \<in> set s then
            (case protectLanguageC parse d s of
               Inl e \<Rightarrow> (''#ifdef '' @ s, ''#endif'')
             | Inr protect_condition \<Rightarrow> (''#if '' @ protect_condition, ''#endif''))
          else (''#ifdef '' @ s, ''#endif''))"

section \<open>Values\<close>

type_synonym enum_value = "int option \<times> string option"

definition extBase :: int where
  "extBase = 1000000000"

definition extBlockSize :: int where
  "extBlockSize = 1000"

text \<open>The options are asked for first.\<close>

definition need_options :: "'o generator_options_scheme option \<Rightarrow> 'b res \<Rightarrow> 'b res" where
  "need_options opts m =
     (case opts of None \<Rightarrow> missing_options | Some o' \<Rightarrow> if conventions o' = None then missing_conventions else m)"

definition value_of_value :: "string \<Rightarrow> bool \<Rightarrow> int \<Rightarrow> bool \<Rightarrow> enum_value res" where
  "value_of_value v needsNum bitwidth forceSuffix =
     rbind (if needsNum then rbind (py_int0 v) (\<lambda>n. Inr (Some n)) else Inr None) (\<lambda>numVal.
     Inr (numVal, Some (if forceSuffix then v @ (if bitwidth = 64 then ''ULL'' else ''U'') else v)))"

text \<open>A shift by a negative number of bits raises.\<close>

definition value_of_bitpos :: "string \<Rightarrow> int \<Rightarrow> bool \<Rightarrow> enum_value res" where
  "value_of_bitpos v bitwidth forceSuffix =
     rbind (py_int0 v) (\<lambda>bitpos.
     if bitpos < 0 then Inl ValueError
     else
       let numVal = push_bit (nat bitpos) 1; txt = show_hex8 numVal in
       Inr (Some (int numVal),
            Some (if bitwidth = 64 \<or> bitpos \<ge> 32 then txt @ ''ULL'' else if forceSuffix then txt @ ''U'' else txt)))"

definition extension_value :: "int \<Rightarrow> int \<Rightarrow> bool \<Rightarrow> int" where
  "extension_value extnumber offset enumNegative =
     (let numVal = extBase + (extnumber - 1) * extBlockSize + offset in if enumNegative then - numVal else numVal)"

definition value_of_offset :: "string \<Rightarrow> string option \<Rightarrow> bool \<Rightarrow> enum_value res" where
  "value_of_offset offset extnumber enumNegative =
     rbind (py_int0 offset) (\<lambda>offset.
     case extnumber of
       None \<Rightarrow> Inl TypeError
     | Some e \<Rightarrow> rbind (py_int0 e) (\<lambda>extnumber.
         let numVal = extension_value extnumber offset enumNegative in Inr (Some numVal, Some (show_int numVal))))"

text \<open>The value of an element of its own, and, with a parent, through the element it is an alias of:
  that one is looked at with the default width and without a parent.\<close>

definition own_value :: "store \<Rightarrow> addr \<Rightarrow> bool \<Rightarrow> int \<Rightarrow> bool \<Rightarrow> enum_value res \<Rightarrow> enum_value res" where
  "own_value st elem needsNum bitwidth forceSuffix otherwise =
     (case elem_get st elem ''value'' of
        Some v \<Rightarrow> value_of_value v needsNum bitwidth forceSuffix
      | None \<Rightarrow>
          (case elem_get st elem ''bitpos'' of
             Some v \<Rightarrow> value_of_bitpos v bitwidth forceSuffix
           | None \<Rightarrow>
               (case elem_get st elem ''offset'' of
                  Some v \<Rightarrow> value_of_offset v (elem_get st elem ''extnumber'') (elem_has st elem ''dir'')
                | None \<Rightarrow> otherwise)))"

definition plain_value :: "store \<Rightarrow> addr \<Rightarrow> bool \<Rightarrow> int \<Rightarrow> bool \<Rightarrow> enum_value res" where
  "plain_value st elem needsNum bitwidth forceSuffix =
     own_value st elem needsNum bitwidth forceSuffix (Inr (None, elem_get st elem ''alias''))"

definition enumToValue ::
  "'o generator_options_scheme option \<Rightarrow> store \<Rightarrow> addr \<Rightarrow> bool \<Rightarrow> int \<Rightarrow> bool \<Rightarrow> addr option \<Rightarrow> enum_value res" where
  "enumToValue opts st elem needsNum bitwidth forceSuffix parent =
     need_options opts
       (own_value st elem needsNum bitwidth forceSuffix
          (case elem_get st elem ''alias'' of
             None \<Rightarrow> Inr (None, None)
           | Some alias_of \<Rightarrow>
               (case parent of
                  None \<Rightarrow> Inr (None, Some alias_of)
                | Some p \<Rightarrow>
                    (case first (filter (\<lambda>sib. elem_get st sib ''name'' = Some alias_of) (findall st p ''enum'')) of
                       None \<Rightarrow> Inl (RuntimeError ''Could not find the aliased enum value'')
                     | Some sib \<Rightarrow> plain_value st sib needsNum 32 False))))"

section \<open>Duplicates\<close>

text \<open>The elements that were seen, by name and by value, and the list without duplicates.\<close>

record dup_state =
  nameMap :: "(pname, addr \<times> enum_value) dict"
  valueMap :: "(int, addr \<times> enum_value) dict"
  stripped_enums :: "addr list"
  dup_warnings :: "string list"

definition same_value :: "enum_value \<Rightarrow> enum_value \<Rightarrow> bool" where
  "same_value v v2 \<longleftrightarrow> snd v2 = snd v \<or> (fst v \<noteq> None \<and> fst v = fst v2)"

definition duplicate_warning :: "pname \<Rightarrow> enum_value \<Rightarrow> enum_value \<Rightarrow> string res" where
  "duplicate_warning name v v2 =
     (case (name, snd v, snd v2) of
        (Some n, Some s, Some s2) \<Rightarrow>
          Inr (py_join '' '' [''WARNING:'', ''checkDuplicateEnums: Duplicate enum ('' @ n @ '') found with different values:'' @ s @ '' and '' @ s2])
      | _ \<Rightarrow> Inl TypeError)"

definition same_value_error :: "pname \<Rightarrow> pname \<Rightarrow> enum_value \<Rightarrow> 'a res" where
  "same_value_error name name2 v =
     log_error [''Two enums found with the same value: '' @ py_str name @ '' = '' @ py_str name2 @ '' = '' @ py_str (snd v) @ ''. ''
       @ ''If this is deliberate, tagging one as an `alias` of the other will fix this error.'']"

definition check_enum :: "'o generator_options_scheme option \<Rightarrow> store \<Rightarrow> addr \<Rightarrow> dup_state \<Rightarrow> dup_state res" where
  "check_enum opts st elem s =
     (let name = elem_get st elem ''name''; als = elem_get st elem ''alias'' in
      rbind (enumToValue opts st elem True 32 False None) (\<lambda>v.
      case map_of (nameMap s) name of
        Some (_, v2) \<Rightarrow>
          if same_value v v2 then Inr s
          else rbind (duplicate_warning name v v2) (\<lambda>w. Inr (s\<lparr>dup_warnings := dup_warnings s @ [w]\<rparr>))
      | None \<Rightarrow>
          rbind (case (case fst v of None \<Rightarrow> None | Some n \<Rightarrow> map_of (valueMap s) n) of
                   None \<Rightarrow> Inr ()
                 | Some (e2, _) \<Rightarrow> if als \<noteq> elem_get st e2 ''name'' then same_value_error name (elem_get st e2 ''name'') v else Inr ()) (\<lambda>_.
          Inr (s\<lparr>nameMap := AList.update name (elem, v) (nameMap s),
                 valueMap := (case (als, fst v) of (None, Some n) \<Rightarrow> AList.update n (elem, v) (valueMap s) | _ \<Rightarrow> valueMap s),
                 stripped_enums := stripped_enums s @ [elem]\<rparr>))))"

definition checkDuplicateEnums :: "'o generator_options_scheme option \<Rightarrow> store \<Rightarrow> addr list \<Rightarrow> (addr list \<times> string list) res" where
  "checkDuplicateEnums opts st enums =
     rbind (for_each (check_enum opts st) enums \<lparr>nameMap = [], valueMap = [], stripped_enums = [], dup_warnings = []\<rparr>) (\<lambda>s.
     Inr (stripped_enums s, dup_warnings s))"

section \<open>Declarations\<close>

text \<open>The base class answers both questions with no; \<^verbatim>\<open>genRequirements\<close> is empty.\<close>

definition gen_misracstyle :: bool where
  "gen_misracstyle = False"

definition gen_misracppstyle :: bool where
  "gen_misracppstyle = False"

text \<open>
  What \<^verbatim>\<open>self.misracstyle()\<close> and \<^verbatim>\<open>self.misracppstyle()\<close> answer: \<^verbatim>\<open>VkexOutputGenerator\<close> overrides them
  with the options.
\<close>

record misra_style =
  style_c :: bool
  style_cpp :: bool

definition base_style :: misra_style where
  "base_style = \<lparr>style_c = gen_misracstyle, style_cpp = gen_misracppstyle\<rparr>"

definition vkex_style :: "vkex_options \<Rightarrow> misra_style" where
  "vkex_style g = \<lparr>style_c = misracstyle (vkex g), style_cpp = misracppstyle (vkex g)\<rparr>"

definition genRequirements :: "pname \<Rightarrow> string" where
  "genRequirements name = []"

definition isEnumRequired :: "store \<Rightarrow> addr \<Rightarrow> bool" where
  "isEnumRequired st elem = elem_has st elem ''required''"

definition deprecationComment :: "store \<Rightarrow> addr \<Rightarrow> nat \<Rightarrow> string res" where
  "deprecationComment st elem indent =
     (case elem_get st elem ''deprecated'' of
        None \<Rightarrow> Inr []
      | Some reason \<Rightarrow>
          let padding = replicate indent CHR '' '' in
          rbind (if elem_tag st elem \<in> {''member'', ''param''}
                 then (case first (findall_below st elem ''name'') of None \<Rightarrow> Inl AttributeError | Some n \<Rightarrow> Inr (elem_text st n))
                 else Inr (elem_get st elem ''name'')) (\<lambda>name.
          if reason = ''aliased'' then Inr (padding @ ''// '' @ py_str name @ '' is a legacy alias'' @ [CHR 0x0A])
          else if reason = ''unused'' then Inr (padding @ ''// '' @ py_str name @ '' is legacy and not used'' @ [CHR 0x0A])
          else if reason = ''true'' then Inr (padding @ ''// '' @ py_str name @ '' is legacy, but no reason was given in the API XML'' @ [CHR 0x0A])
          else log_error [py_str name @ '' has an unknown legacy attribute value '' @ [CHR 0x27] @ reason @ [CHR 0x27]]))"

definition constFlagBits :: "conventions_object \<Rightarrow> bool" where
  "constFlagBits c = False"

definition generate_max_enum_in_docs :: "conventions_object \<Rightarrow> bool" where
  "generate_max_enum_in_docs c = False"

text \<open>The guard of an element: what opens it, and what closes it, if there is any.\<close>

definition guard_of :: "(string \<Rightarrow> string list option) \<Rightarrow> nat \<Rightarrow> store \<Rightarrow> addr \<Rightarrow> (string \<times> string) option" where
  "guard_of parse d st elem =
     (case elem_get st elem ''protect'' of None \<Rightarrow> None | Some p \<Rightarrow> Some (genProtectDirective parse d (Some p)))"

text \<open>
  The value of an alias is looked for in the whole registry, from alias to alias. Every step is to
  an element, so after as many steps as there are elements the loop has come round and never ends.
\<close>

definition find_alias :: "registry \<Rightarrow> string option \<Rightarrow> addr option res" where
  "find_alias r strVal =
     (case tree_root r of
        None \<Rightarrow> Inl AttributeError
      | Some t \<Rightarrow> Inr (first (filter (\<lambda>e. elem_get (doc r) e ''name'' = Some (py_str strVal)) (findall2 (doc r) t ''enums'' ''enum''))))"

fun chase_alias ::
  "'o generator_options_scheme option \<Rightarrow> registry \<Rightarrow> int \<Rightarrow> pname \<Rightarrow> nat \<Rightarrow> enum_value \<Rightarrow> enum_value res" where
  "chase_alias opts r bitwidth name fuel (Some n, strVal) = Inr (Some n, strVal)"
| "chase_alias opts r bitwidth name 0 (None, strVal) = Inl Diverges"
| "chase_alias opts r bitwidth name (Suc fuel) (None, strVal) =
     rbind (find_alias r strVal) (\<lambda>found.
     case found of
       None \<Rightarrow> log_error [''No such alias '' @ py_str strVal @ '' for enum '' @ py_str name]
     | Some als \<Rightarrow>
         rbind (enumToValue opts (doc r) als True bitwidth True None) (\<lambda>v.
         chase_alias opts r bitwidth name fuel v))"

definition max_flag :: int where
  "max_flag = 2 ^ 64 - 1"

definition flag_range_error :: "pname \<Rightarrow> enum_value \<Rightarrow> 'a res" where
  "flag_range_error name v =
     log_error [''Allowable range for flag types in C is ['', show_int 0, '','', show_int max_flag, ''], but'', py_str name,
       ''flag has a value outside of this ('', py_str (snd v), '')'' @ [CHR 0x0A]]"

text \<open>The declarations, and the text of those without a number.\<close>

definition declare_flag ::
  "misra_style \<Rightarrow> (string \<Rightarrow> string list option) \<Rightarrow> nat \<Rightarrow> 'o generator_options_scheme option \<Rightarrow> registry \<Rightarrow> pname \<Rightarrow> int \<Rightarrow> bool \<Rightarrow> addr
     \<Rightarrow> string \<times> string \<Rightarrow> (string \<times> string) res" where
  "declare_flag sty parse d opts r flagTypeName bitwidth usedefine elem s = (case s of (body, aliasText) \<Rightarrow>
     (let st = doc r; name = elem_get st elem ''name'' in
      rbind (enumToValue opts st elem True bitwidth True None) (\<lambda>v.
      if (case fst v of None \<Rightarrow> False | Some n \<Rightarrow> n > max_flag \<or> n < 0) then flag_range_error name v
      else if \<not> isEnumRequired st elem then Inr s
      else
        let protect = guard_of parse d st elem;
            decl = genRequirements name @ (case protect of None \<Rightarrow> [] | Some (b, _) \<Rightarrow> b @ [CHR 0x0A]) in
        rbind (deprecationComment st elem 0) (\<lambda>comment.
        rbind (if usedefine then Inr (v, ''#define '' @ py_str name @ '' '' @ py_str (snd v) @ [CHR 0x0A])
               else if style_cpp sty
               then Inr (v, ''static constexpr '' @ py_str flagTypeName @ '' '' @ py_str name @ '' {'' @ py_str (snd v) @ ''};'' @ [CHR 0x0A])
               else rbind (chase_alias opts r bitwidth name (Suc (length st)) v) (\<lambda>v.
                 Inr (v, ''static const '' @ py_str flagTypeName @ '' '' @ py_str name @ '' = '' @ py_str (snd v) @ '';'' @ [CHR 0x0A]))) (\<lambda>(v, line).
        let decl = decl @ comment @ line @ (case protect of None \<Rightarrow> [] | Some (_, e) \<Rightarrow> e @ [CHR 0x0A])
        in Inr (if fst v \<noteq> None then (body @ decl, aliasText) else (body, aliasText @ decl)))))))"

definition buildEnumCDecl_BitmaskOrDefine ::
  "misra_style \<Rightarrow> (string \<Rightarrow> string list option) \<Rightarrow> nat \<Rightarrow> 'o generator_options_scheme option \<Rightarrow> registry \<Rightarrow> addr \<Rightarrow> int \<Rightarrow> bool
     \<Rightarrow> (string \<times> string) res" where
  "buildEnumCDecl_BitmaskOrDefine sty parse d opts r groupElem bitwidth usedefine =
     (let flagTypeName = elem_get (doc r) groupElem ''name'';
          body = ''// Flag bits for '' @ py_str flagTypeName @ [CHR 0x0A]
            @ (if bitwidth = 64 then ''typedef VkFlags64 '' else ''typedef VkFlags '') @ py_str flagTypeName @ '';'' @ [CHR 0x0A] in
      rbind (checkDuplicateEnums opts (doc r) (findall (doc r) groupElem ''enum'')) (\<lambda>(enums, _).
      rbind (for_each (declare_flag sty parse d opts r flagTypeName bitwidth usedefine) enums (body, [])) (\<lambda>(body, aliasText).
      Inr (''bitmask'', body @ aliasText))))"

section \<open>Enumerated types\<close>

text \<open>
  \<^verbatim>\<open>re.sub(r'([0-9]+|[a-z_])([A-Z0-9])', r'\1_\2', s)\<close>: a run of digits is taken as far as a
  character for the second group remains, if need be the last digit.
\<close>

definition upper_or_digit :: "char \<Rightarrow> bool" where
  "upper_or_digit c \<longleftrightarrow> py_isupper c \<or> py_isdigit c"

definition expand_match :: "string \<Rightarrow> (string \<times> char \<times> string) option" where
  "expand_match s =
     (let ds = takeWhile py_isdigit s; rest = dropWhile py_isdigit s in
      if ds \<noteq> [] then
        (case rest of
           c # t \<Rightarrow> if py_isupper c then Some (ds, c, t)
                     else if length ds > 1 then Some (butlast ds, last ds, rest) else None
         | [] \<Rightarrow> if length ds > 1 then Some (butlast ds, last ds, []) else None)
      else
        (case s of
           a # c # t \<Rightarrow> if (py_islower a \<or> a = CHR ''_'') \<and> upper_or_digit c then Some ([a], c, t) else None
         | _ \<Rightarrow> None))"

lemma expand_match_length: "expand_match s = Some (a, c, t) \<Longrightarrow> length t < length s"
proof -
  have "length (dropWhile py_isdigit s) \<le> length s" by (rule length_dropWhile_le)
  moreover have "takeWhile py_isdigit s \<noteq> [] \<Longrightarrow> length (dropWhile py_isdigit s) < length s"
    by (metis add_less_cancel_right append_Nil length_append length_greater_0_conv takeWhile_dropWhile_id less_add_same_cancel2)
  ultimately show "expand_match s = Some (a, c, t) \<Longrightarrow> length t < length s"
    by (auto simp: expand_match_def Let_def le_imp_less_Suc le_SucI [OF length_dropWhile_le] split: list.splits if_splits)
qed

function expand_words :: "string \<Rightarrow> string" where
  "expand_words s =
     (case expand_match s of
        Some (a, c, t) \<Rightarrow> a @ ''_'' @ [c] @ expand_words t
      | None \<Rightarrow> (case s of [] \<Rightarrow> [] | c # t \<Rightarrow> c # expand_words t))"
  by pat_completeness auto
termination
  by (relation "measure length") (auto dest: expand_match_length)

declare expand_words.simps [simp del]

lemma expand_words_code [code]:
  "expand_words [] = []"
  "expand_words (c # t) = (case expand_match (c # t) of
     Some (a, x, u) \<Rightarrow> a @ ''_'' @ [x] @ expand_words u | None \<Rightarrow> c # expand_words t)"
proof -
  show "expand_words [] = []" by (simp add: expand_words.simps [of "[]"] expand_match_def)
  show "expand_words (c # t) = (case expand_match (c # t) of
     Some (a, x, u) \<Rightarrow> a @ ''_'' @ [x] @ expand_words u | None \<Rightarrow> c # expand_words t)"
    by (subst expand_words.simps) (simp split: option.splits)
qed

text \<open>\<^verbatim>\<open>re.search(r'[A-Z][A-Z]+$', s)\<close>: the run of capitals at the end, before a final line feed.\<close>

definition vendor_suffix :: "string \<Rightarrow> string option" where
  "vendor_suffix s =
     (let core = (if s \<noteq> [] \<and> last s = CHR 0x0A then butlast s else s);
          run = rev (takeWhile py_isupper (rev core))
      in if length run \<ge> 2 then Some run else None)"

definition expand_name :: "string \<Rightarrow> string \<times> string" where
  "expand_name groupName =
     (let expandName = py_upper (expand_words groupName) in
      case vendor_suffix groupName of
        None \<Rightarrow> (expandName, [])
      | Some v \<Rightarrow> (rsplit_first (''_'' @ v) expandName, ''_'' @ v))"

record enum_range =
  minName :: pname
  maxName :: pname
  minValue :: "int option"
  maxValue :: "int option"

definition track_range :: "pname \<Rightarrow> int \<Rightarrow> enum_range \<Rightarrow> enum_range" where
  "track_range name n t =
     (if minName t = None then \<lparr>minName = name, maxName = name, minValue = Some n, maxValue = Some n\<rparr>
      else if (case minValue t of None \<Rightarrow> True | Some m \<Rightarrow> n < m) then t\<lparr>minName := name, minValue := Some n\<rparr>
      else if (case maxValue t of None \<Rightarrow> True | Some m \<Rightarrow> n > m) then t\<lparr>maxName := name, maxValue := Some n\<rparr>
      else t)"

definition max_enum :: int where
  "max_enum = 2 ^ 31 - 1"

definition enum_range_error :: "pname \<Rightarrow> enum_value \<Rightarrow> 'a res" where
  "enum_range_error name v =
     log_error [''Allowable range for C enum types is ['', show_int (- max_enum - 1), '','', show_int max_enum, ''], but'', py_str name,
       ''has a value outside of this ('', py_str (snd v), '')'' @ [CHR 0x0A]]"

type_synonym enum_text = "string list \<times> string list \<times> enum_range"

definition enumerator ::
  "(string \<Rightarrow> string list option) \<Rightarrow> nat \<Rightarrow> store \<Rightarrow> addr \<Rightarrow> string option \<Rightarrow> string res" where
  "enumerator parse d st elem strVal =
     (let name = elem_get st elem ''name''; protect = guard_of parse d st elem in
      rbind (deprecationComment st elem 2) (\<lambda>comment.
      Inr ((case protect of None \<Rightarrow> [] | Some (b, _) \<Rightarrow> b @ [CHR 0x0A]) @ genRequirements name @ comment
           @ ''    '' @ py_str name @ '' = '' @ py_str strVal @ '',''
           @ (case protect of None \<Rightarrow> [] | Some (_, e) \<Rightarrow> CHR 0x0A # e))))"

definition declare_enumerator ::
  "(string \<Rightarrow> string list option) \<Rightarrow> nat \<Rightarrow> 'o generator_options_scheme option \<Rightarrow> store \<Rightarrow> bool \<Rightarrow> addr \<Rightarrow> enum_text \<Rightarrow> enum_text res" where
  "declare_enumerator parse d opts st isEnum elem s = (case s of (body, aliasText, rng) \<Rightarrow>
     (let name = elem_get st elem ''name'' in
      rbind (enumToValue opts st elem True 32 False None) (\<lambda>v.
      rbind (if isEnumRequired st elem
             then rbind (enumerator parse d st elem (snd v)) (\<lambda>decl.
                  Inr (if fst v \<noteq> None then (body @ [decl], aliasText) else (body, aliasText @ [decl])))
             else Inr (body, aliasText)) (\<lambda>(body, aliasText).
      case fst v of
        None \<Rightarrow> Inr (body, aliasText, rng)
      | Some n \<Rightarrow>
          if n > max_enum \<or> n < - max_enum - 1 then enum_range_error name v
          else Inr (body, aliasText, if isEnum \<and> elem_get st elem ''extends'' = None then track_range name n rng else rng)))))"

definition buildEnumCDecl_Enum ::
  "(string \<Rightarrow> string list option) \<Rightarrow> nat \<Rightarrow> 'o generator_options_scheme \<Rightarrow> store \<Rightarrow> bool \<Rightarrow> addr \<Rightarrow> string \<Rightarrow> (string \<times> string) res" where
  "buildEnumCDecl_Enum parse d opts st expand groupElem groupName =
     (let (expandPrefix, expandSuffix) = expand_name groupName;
          body = [''typedef enum '' @ groupName @ '' {''];
          isEnum = (\<not> py_in ''FLAG_BITS'' expandPrefix) in
      rbind (checkDuplicateEnums (Some opts) st (findall st groupElem ''enum'')) (\<lambda>(enums, _).
      rbind (for_each (declare_enumerator parse d (Some opts) st isEnum) enums
               (body, [], \<lparr>minName = None, maxName = None, minValue = None, maxValue = None\<rparr>)) (\<lambda>(body, aliasText, rng).
      let body = body @ aliasText;
          body = (if isEnum \<and> expand then body @
             [''    '' @ expandPrefix @ ''_BEGIN_RANGE'' @ expandSuffix @ '' = '' @ py_str (minName rng) @ '','',
              ''    '' @ expandPrefix @ ''_END_RANGE'' @ expandSuffix @ '' = '' @ py_str (maxName rng) @ '','',
              ''    '' @ expandPrefix @ ''_RANGE_SIZE'' @ expandSuffix @ '' = ('' @ py_str (maxName rng) @ '' - '' @ py_str (minName rng) @ '' + 1),'']
             else body);
          body = (if codeGenerator opts \<or> generate_max_enum_in_docs VulkanConventions
             then body @ [''    '' @ expandPrefix @ ''_MAX_ENUM'' @ expandSuffix @ '' = 0x7FFFFFFF''] else body)
      in Inr (if elem_get st groupElem ''type'' = Some ''bitmask'' then ''bitmask'' else ''group'',
              py_join [CHR 0x0A] (body @ [''} '' @ groupName @ '';''])))))"

definition group_bitwidth :: "store \<Rightarrow> addr \<Rightarrow> string \<Rightarrow> int res" where
  "group_bitwidth st groupElem groupName =
     (let default_width = (if constFlagBits VulkanConventions \<and> elem_get st groupElem ''type'' = Some ''bitmask'' then 64 else 32) in
      case elem_get st groupElem ''bitwidth'' of
        None \<Rightarrow> Inr default_width
      | Some w \<Rightarrow>
          if w = [] then Inr default_width
          else (case py_int w of
                  Inr n \<Rightarrow> Inr n
                | Inl e \<Rightarrow> log_error [''Invalid value for bitwidth attribute ('', w, '') for '', groupName, '' - must be an integer value'' @ [CHR 0x0A]]))"

definition width_error :: "store \<Rightarrow> addr \<Rightarrow> string \<Rightarrow> string \<Rightarrow> string \<Rightarrow> 'a res" where
  "width_error st groupElem what groupName bound =
     log_error [''Invalid value for bitwidth attribute ('', py_str (elem_get st groupElem ''bitwidth''), '') for '' @ what, groupName,
       '' - must be less than or equal to '' @ bound @ [CHR 0x0A]]"

definition buildEnumCDecl ::
  "misra_style \<Rightarrow> (string \<Rightarrow> string list option) \<Rightarrow> nat \<Rightarrow> 'o generator_options_scheme option \<Rightarrow> registry \<Rightarrow> bool \<Rightarrow> group_info \<Rightarrow> string
     \<Rightarrow> (string \<times> string) res" where
  "buildEnumCDecl sty parse d opts r expand groupinfo groupName =
     need_options opts
       (let st = doc r; groupElem = i_elem groupinfo; bitmask = (elem_get st groupElem ''type'' = Some ''bitmask'') in
        rbind (group_bitwidth st groupElem groupName) (\<lambda>bitwidth.
        let usebitmask = bitmask \<and> (bitwidth > 32 \<or> style_cpp sty); usedefine = bitmask \<and> style_c sty in
        if usedefine \<or> usebitmask then
          if bitwidth > 64 then width_error st groupElem ''bitmask type '' groupName ''64''
          else buildEnumCDecl_BitmaskOrDefine sty parse d opts r groupElem bitwidth usedefine
        else if bitwidth > 32 then width_error st groupElem ''enum type '' groupName ''32''
        else buildEnumCDecl_Enum parse d (the opts) st expand groupElem groupName))"

section \<open>Constants\<close>

text \<open>Without a value the text is missing, and \<^verbatim>\<open>None\<close> cannot be searched.\<close>

definition constant_define :: "string \<Rightarrow> string \<Rightarrow> string" where
  "constant_define name strVal = ''#define '' @ ljust 33 name @ '' '' @ strVal"

definition buildConstantCDecl :: "misra_style \<Rightarrow> 'o generator_options_scheme option \<Rightarrow> store \<Rightarrow> enum_info \<Rightarrow> string \<Rightarrow> pname \<Rightarrow> string res" where
  "buildConstantCDecl sty opts st enuminfo name als =
     rbind (enumToValue opts st (i_elem enuminfo) False 32 False None) (\<lambda>(_, strVal).
     if truthy (elem_get st (i_elem enuminfo) ''type'') \<and> \<not> truthy als then
       (case strVal of
          None \<Rightarrow> Inl TypeError
        | Some v \<Rightarrow>
            let typeStr = the (elem_get st (i_elem enuminfo) ''type'');
                invert = CHR ''~'' \<in> set v; paren = CHR ''('' \<in> set v; number = strip_chars ''()~UL'' v in
            if style_cpp sty then
              let number = (if typeStr \<noteq> ''float'' then number @ ''U'' else number);
                  txt = (if invert then ''~'' else []) @ ''static_cast<'' @ typeStr @ ''>('' @ number @ '')''
              in Inr (''static constexpr '' @ ljust 9 typeStr @ ljust 33 name @ '' {'' @ txt @ ''};'')
            else
              let number = (if typeStr \<noteq> ''float'' then (if typeStr = ''uint64_t'' then number @ ''ULL'' else number @ ''U'') else number);
                  txt = (if invert then ''~'' else []) @ number;
                  txt = (if paren then ''('' @ txt @ '')'' else txt)
              in Inr (constant_define name txt))
     else Inr (constant_define name (py_str strVal)))"

end
