(* ===== verification/Chains.thy ===== *)
theory Chains
  imports Main
begin

text \<open>
  Following a partial function: the shape of every loop that goes from one name or element to the
  next until there is none. On a finite set, as many steps as it has elements decide whether
  the loop ends.
\<close>

fun follow :: "('a \<Rightarrow> 'a option) \<Rightarrow> nat \<Rightarrow> 'a \<Rightarrow> 'a option" where
  "follow g 0 a = Some a"
| "follow g (Suc k) a = (case g a of None \<Rightarrow> None | Some b \<Rightarrow> follow g k b)"

lemma follow_add: "follow g (i + j) a = (case follow g i a of None \<Rightarrow> None | Some b \<Rightarrow> follow g j b)"
  by (induction i arbitrary: a) (simp_all split: option.splits)

lemma follow_less: "follow g j a \<noteq> None \<Longrightarrow> i \<le> j \<Longrightarrow> follow g i a \<noteq> None"
  using follow_add [of g i "j - i" a] by (auto split: option.splits)

lemma follow_in: "(\<And>a b. g a = Some b \<Longrightarrow> b \<in> S) \<Longrightarrow> a \<in> S \<Longrightarrow> follow g i a = Some b \<Longrightarrow> b \<in> S"
  by (induction i arbitrary: a) (auto split: option.splits)

lemma follow_forever:
  assumes S: "finite S" "\<And>a b. g a = Some b \<Longrightarrow> b \<in> S" and a: "a \<in> S" and n: "follow g (card S) a \<noteq> None"
  shows "follow g k a \<noteq> None"
proof -
  let ?x = "\<lambda>i. the (follow g i a)"
  have "?x ` {0..card S} \<subseteq> S"
  proof
    fix b assume "b \<in> ?x ` {0..card S}"
    then obtain i where "i \<le> card S" "b = ?x i" by auto
    with follow_less [OF n, of i] have "follow g i a = Some b" by auto
    with follow_in [of g S a i b] S(2) a show "b \<in> S" by blast
  qed
  then have "card (?x ` {0..card S}) \<le> card S" using S(1) by (rule card_mono [rotated])
  then have "card (?x ` {0..card S}) < card {0..card S}" by simp
  then have "\<not> inj_on ?x {0..card S}" by (rule pigeonhole)
  then obtain p q where "p \<le> card S" "q \<le> card S" "p \<noteq> q" "?x p = ?x q" by (auto simp: inj_on_def)
  then obtain i j where ij: "i < j" "j \<le> card S" "?x i = ?x j" by (metis linorder_neqE_nat)
  with follow_less [OF n, of i] follow_less [OF n, of j] have eq: "follow g i a = follow g j a" by auto
  show ?thesis
  proof (induction k rule: less_induct)
    case (less k)
    show ?case
    proof (cases "k \<le> card S")
      case True
      then show ?thesis by (rule follow_less [OF n])
    next
      case False
      then have "follow g k a = (case follow g i a of None \<Rightarrow> None | Some b \<Rightarrow> follow g (k - j) b)"
        using follow_add [of g j "k - j" a] ij(2) eq by simp
      also have "\<dots> = follow g (i + (k - j)) a" by (simp add: follow_add)
      finally show ?thesis using less.IH [of "i + (k - j)"] ij False by simp
    qed
  qed
qed

end
