(* ===== verification/EnumFacts.thy ===== *)
theory EnumFacts
  imports EnumValues Chains
begin

text \<open>
  What is guaranteed of the values of enumerants: their text reads back as the value, the values of
  extensions are distinct and fit the C type, the declarations have no duplicates, and the search
  for the value of an alias gives up only when it never ends.
\<close>

section \<open>Guards\<close>



section \<open>Round trip\<close>

text \<open>A text that denotes the value, with the suffix of an unsigned C literal or none.\<close>

definition denotes :: "string \<Rightarrow> int \<Rightarrow> bool" where
  "denotes s n \<longleftrightarrow> (\<exists>t suf. s = t @ suf \<and> suf \<in> {[], ''U'', ''ULL''} \<and> py_int0 t = Inr n)"

lemma denotesI: "py_int0 t = Inr n \<Longrightarrow> suf \<in> {[], ''U'', ''ULL''} \<Longrightarrow> denotes (t @ suf) n"
  unfolding denotes_def by blast

lemma denotes_plain: "py_int0 t = Inr n \<Longrightarrow> denotes t n"
  using denotesI [of t n "[]"] by simp

lemma own_value_denotes:
  assumes "own_value st e needsNum w f other = Inr (Some n, Some s)" and "\<And>n s. other = Inr (Some n, Some s) \<Longrightarrow> denotes s n"
  shows "denotes s n"
proof -
  consider (val) v where "elem_get st e ''value'' = Some v"
    | (bitpos) v where "elem_get st e ''value'' = None" "elem_get st e ''bitpos'' = Some v"
    | (offset) v where "elem_get st e ''value'' = None" "elem_get st e ''bitpos'' = None" "elem_get st e ''offset'' = Some v"
    | (rest) "elem_get st e ''value'' = None" "elem_get st e ''bitpos'' = None" "elem_get st e ''offset'' = None"
    by fastforce
  then show ?thesis
  proof cases
    case val
    with assms(1) show ?thesis
      by (auto simp: own_value_def value_of_value_def denotes_plain denotesI split: if_splits elim!: rbind_InrE)
  next
    case bitpos
    with assms(1) show ?thesis
      by (auto simp: own_value_def value_of_bitpos_def Let_def denotes_plain denotesI py_int0_show_hex8
          split: if_splits elim!: rbind_InrE)
  next
    case offset
    with assms(1) show ?thesis
      by (auto simp: own_value_def value_of_offset_def Let_def denotes_plain py_int0_show_int
          split: option.splits elim!: rbind_InrE)
  qed (use assms in \<open>simp add: own_value_def\<close>)
qed

text \<open>C23: the text of an enumerant and its number agree: whenever \<^verbatim>\<open>enumToValue\<close> gives both, from a value, a
  bit position, an offset in an extension block or an alias, the text is a literal that
  \<^verbatim>\<open>int(text, 0)\<close> reads back as the number, followed at most by the suffix of an unsigned type.\<close>

theorem enumToValue_roundtrip:
  assumes "enumToValue opts st e needsNum w f p = Inr (Some n, Some s)"
  shows "\<exists>t suf. s = t @ suf \<and> suf \<in> {[], ''U'', ''ULL''} \<and> py_int0 t = Inr n"
proof -
  have "denotes s n"
    using assms by (auto simp: enumToValue_def need_options_def missing_options_def missing_conventions_def plain_value_def
        split: option.splits if_splits elim!: own_value_denotes)
  then show ?thesis by (simp add: denotes_def)
qed

definition enum_example :: store where
  "enum_example = [\<lparr>etag = ''enum'', eattrib = [(''name'', ''A''), (''bitpos'', ''4'')], etext = None, etail = None, echildren = []\<rparr>]"

definition plain_options :: generator_options where
  "plain_options = GeneratorOptions (default_args\<lparr>a_conventions := Some VulkanConventions\<rparr>)"

lemma enum_example_value:
  "enumToValue (Some plain_options) enum_example 0 True 64 False None = Inr (Some 16, Some ''0x00000010ULL'')"
  by code_simp

theorem enumToValue_roundtrip_witness:
  "\<exists>t suf. ''0x00000010ULL'' = t @ suf \<and> suf \<in> {[], ''U'', ''ULL''} \<and> py_int0 t = Inr 16"
  by (rule enumToValue_roundtrip [OF enum_example_value])

section \<open>Extension blocks\<close>

text \<open>The number is that of a machine integer.\<close>

lemma fits_int32: "- (2 ^ 31) \<le> n \<Longrightarrow> n < 2 ^ 31 \<Longrightarrow> sint (word_of_int n :: 32 word) = n"
  by transfer (simp add: signed_take_bit_int_eq_self)

lemma fits_uint64: "0 \<le> n \<Longrightarrow> n < 2 ^ 64 \<Longrightarrow> uint (word_of_int n :: 64 word) = n"
  by transfer (simp add: take_bit_int_eq_self)

lemma extension_value_abs:
  "1 \<le> x \<Longrightarrow> 0 \<le> i \<Longrightarrow> \<bar>extension_value x i neg\<bar> = 1000000000 + (x - 1) * 1000 + i"
  by (simp add: extension_value_def Let_def extBase_def extBlockSize_def)

text \<open>C24: the values of extensions do not clash: with extension numbers from 1 to 1147483 and offsets below the
  block size, the number, the offset and the sign can be read off the value, so two values are equal only
  for the same enumerant; every value fits a signed 32-bit integer and is beyond the values below
  \<^verbatim>\<open>extBase\<close> that the core uses.\<close>

theorem extension_value_distinct:
  assumes "1 \<le> x" "x \<le> 1147483" "0 \<le> i" "i < 1000" and "1 \<le> y" "y \<le> 1147483" "0 \<le> j" "j < 1000"
  shows "(extension_value x i neg = extension_value y j neg' \<longleftrightarrow> x = y \<and> i = j \<and> neg = neg') \<and>
    sint (word_of_int (extension_value x i neg) :: 32 word) = extension_value x i neg \<and>
    \<bar>extension_value x i neg\<bar> \<ge> extBase"
proof (intro conjI)
  have a: "\<bar>extension_value x i neg\<bar> = 1000000000 + ((x - 1) * 1000 + i)"
    "\<bar>extension_value y j neg'\<bar> = 1000000000 + ((y - 1) * 1000 + j)"
    using extension_value_abs assms by simp_all
  show "extension_value x i neg = extension_value y j neg' \<longleftrightarrow> x = y \<and> i = j \<and> neg = neg'"
  proof
    assume e: "extension_value x i neg = extension_value y j neg'"
    with a have s: "(x - 1) * 1000 + i = (y - 1) * 1000 + j" by linarith
    have "x < y + 1" using s assms(3,4,7,8) by simp
    moreover have "y < x + 1" using s assms(3,4,7,8) by simp
    ultimately have "x = y" by linarith
    moreover from this s have "i = j" by simp
    ultimately have "x = y" "i = j" by simp_all
    moreover have "neg = neg'"
      using e assms \<open>x = y\<close> \<open>i = j\<close> by (auto simp: extension_value_def Let_def extBase_def extBlockSize_def split: if_splits)
    ultimately show "x = y \<and> i = j \<and> neg = neg'" by blast
  qed simp
  have b: "0 \<le> (x - 1) * 1000 + i" "(x - 1) * 1000 + i \<le> 1147482999" using assms(1-4) by simp_all
  show "extBase \<le> \<bar>extension_value x i neg\<bar>" using a(1) b by (simp add: extBase_def)
  have "- (2 ^ 31) \<le> extension_value x i neg" using a(1) b by simp
  moreover have "extension_value x i neg < 2 ^ 31" using a(1) b by simp
  ultimately show "sint (word_of_int (extension_value x i neg) :: 32 word) = extension_value x i neg"
    by (rule fits_int32)
qed

theorem extension_value_distinct_witness:
  "extension_value 2 0 False \<noteq> extension_value 1 999 False \<and>
   sint (word_of_int (extension_value 1147483 999 True) :: 32 word) = -2147482999"
  using extension_value_distinct [of 2 0 1 999 False False] extension_value_distinct [of 1147483 999 1 0 True False]
  by (simp add: extension_value_def extBase_def extBlockSize_def)

section \<open>Duplicates\<close>

text \<open>The number of an enumerant on its own.\<close>

definition enum_number :: "'o generator_options_scheme option \<Rightarrow> store \<Rightarrow> addr \<Rightarrow> int option" where
  "enum_number opts st e = (case enumToValue opts st e True 32 False None of Inr v \<Rightarrow> fst v | Inl _ \<Rightarrow> None)"

text \<open>An enumerant that stands for itself: it has a name and is not an alias.\<close>

definition proper :: "store \<Rightarrow> addr \<Rightarrow> bool" where
  "proper st e \<longleftrightarrow> elem_get st e ''name'' \<noteq> None \<and> elem_get st e ''alias'' = None"

text \<open>What holds of the dictionaries after the elements \<open>done\<close>.\<close>

definition dup_ok :: "'o generator_options_scheme option \<Rightarrow> store \<Rightarrow> addr list \<Rightarrow> dup_state \<Rightarrow> bool" where
  "dup_ok opts st seen s \<longleftrightarrow> subseq (stripped_enums s) seen \<and>
     distinct (map (\<lambda>e. elem_get st e ''name'') (stripped_enums s)) \<and>
     dom (map_of (nameMap s)) = (\<lambda>e. elem_get st e ''name'') ` set (stripped_enums s) \<and>
     (\<lambda>e. elem_get st e ''name'') ` set seen = (\<lambda>e. elem_get st e ''name'') ` set (stripped_enums s) \<and>
     (\<forall>e \<in> set (stripped_enums s). \<forall>n. proper st e \<longrightarrow> enum_number opts st e = Some n \<longrightarrow>
        (\<exists>v. map_of (valueMap s) n = Some (e, v)))"

lemma check_enum_ok:
  assumes "check_enum opts st e s = Inr s'" and "dup_ok opts st seen s"
  shows "dup_ok opts st (seen @ [e]) s'"
proof -
  let ?name = "\<lambda>e. elem_get st e ''name''"
  obtain v where v: "enumToValue opts st e True 32 False None = Inr v"
    using assms(1) by (auto simp: check_enum_def Let_def elim!: rbind_InrE)
  then have num: "enum_number opts st e = fst v" by (simp add: enum_number_def)
  show ?thesis
  proof (cases "map_of (nameMap s) (?name e)")
    case (Some p)
    then have "?name e \<in> dom (map_of (nameMap s))" by blast
    then have old: "?name e \<in> ?name ` set (stripped_enums s)" using assms(2) by (simp add: dup_ok_def)
    have same: "stripped_enums s' = stripped_enums s" "nameMap s' = nameMap s" "valueMap s' = valueMap s"
      using assms(1) Some v by (cases p; auto simp: check_enum_def Let_def split: if_splits elim!: rbind_InrE)+
    have "subseq (stripped_enums s) (seen @ [e])" using assms(2) by (simp add: dup_ok_def list_emb_prefix)
    with assms(2) old same show ?thesis unfolding dup_ok_def by (simp add: insert_absorb)
  next
    case None
    let ?old = "case fst v of None \<Rightarrow> None | Some n \<Rightarrow> map_of (valueMap s) n"
    have ok: "case ?old of None \<Rightarrow> True | Some (e2, _) \<Rightarrow> elem_get st e ''alias'' = ?name e2"
      and s': "s' = s\<lparr>nameMap := AList.update (?name e) (e, v) (nameMap s),
        valueMap := (case (elem_get st e ''alias'', fst v) of (None, Some n) \<Rightarrow> AList.update n (e, v) (valueMap s) | _ \<Rightarrow> valueMap s),
        stripped_enums := stripped_enums s @ [e]\<rparr>"
      using assms(1) None v
      by (auto simp: check_enum_def Let_def same_value_error_def log_error_def split: option.splits if_splits elim!: rbind_InrE)
    have new: "?name e \<notin> ?name ` set (stripped_enums s)"
    proof -
      have "?name e \<notin> dom (map_of (nameMap s))" using None by blast
      then show ?thesis using assms(2) by (simp add: dup_ok_def)
    qed
    have val: "\<exists>w. map_of (valueMap s') n = Some (a, w)"
      if a: "a \<in> set (stripped_enums s')" and p: "proper st a" and n: "enum_number opts st a = Some n" for a n
    proof (cases "a = e")
      case True
      with p n num show ?thesis by (simp add: s' proper_def)
    next
      case False
      then have "a \<in> set (stripped_enums s)" using a by (simp add: s')
      moreover have "\<forall>e \<in> set (stripped_enums s). \<forall>n. proper st e \<longrightarrow> enum_number opts st e = Some n \<longrightarrow>
          (\<exists>v. map_of (valueMap s) n = Some (e, v))" using assms(2) unfolding dup_ok_def by (elim conjE)
      ultimately obtain w where w: "map_of (valueMap s) n = Some (a, w)" using p n by blast
      have "\<not> (elem_get st e ''alias'' = None \<and> fst v = Some n)"
        using ok w p by (auto simp: proper_def)
      with w show ?thesis by (auto simp: s' split: option.splits)
    qed
    have "subseq (stripped_enums s @ [e]) (seen @ [e])" using assms(2) by (simp add: dup_ok_def)
    moreover have "dom (map_of (nameMap s')) = insert (?name e) (dom (map_of (nameMap s)))" by (simp add: s')
    ultimately show ?thesis using assms(2) new val unfolding dup_ok_def by (simp add: s')
  qed
qed

lemma check_enums_ok:
  "for_each (check_enum opts st) es s = Inr s' \<Longrightarrow> dup_ok opts st seen s \<Longrightarrow> dup_ok opts st (seen @ es) s'"
proof (induction es arbitrary: s seen)
  case (Cons e es)
  then obtain t where "check_enum opts st e s = Inr t" "for_each (check_enum opts st) es t = Inr s'"
    by (auto elim!: rbind_InrE)
  with Cons.IH [of t "seen @ [e]"] check_enum_ok [of opts st e s t seen] Cons.prems(2) show ?case by simp
qed simp

lemma checkDuplicateEnums_spec:
  assumes "checkDuplicateEnums opts st es = Inr (xs, ws)"
  shows "subseq xs es \<and> distinct (map (\<lambda>e. elem_get st e ''name'') xs) \<and>
    (\<lambda>e. elem_get st e ''name'') ` set xs = (\<lambda>e. elem_get st e ''name'') ` set es \<and>
    (\<forall>a \<in> set xs. \<forall>b \<in> set xs. proper st a \<and> proper st b \<and> enum_number opts st a \<noteq> None \<and>
       enum_number opts st a = enum_number opts st b \<longrightarrow> a = b)"
proof -
  obtain s where s: "for_each (check_enum opts st) es \<lparr>nameMap = [], valueMap = [], stripped_enums = [], dup_warnings = []\<rparr> = Inr s"
    "xs = stripped_enums s" using assms by (auto simp: checkDuplicateEnums_def elim!: rbind_InrE)
  have "dup_ok opts st [] \<lparr>nameMap = [], valueMap = [], stripped_enums = [], dup_warnings = []\<rparr>" by (simp add: dup_ok_def)
  from check_enums_ok [OF s(1) this] have ok: "dup_ok opts st es s" by simp
  have "a = b" if "a \<in> set xs" "b \<in> set xs" "proper st a" "proper st b" "enum_number opts st a = Some n" "enum_number opts st b = Some n"
    for a b n
  proof -
    have "\<forall>e \<in> set xs. \<forall>n. proper st e \<longrightarrow> enum_number opts st e = Some n \<longrightarrow> (\<exists>v. map_of (valueMap s) n = Some (e, v))"
      using ok unfolding dup_ok_def s(2) by (elim conjE)
    then have "\<exists>v. map_of (valueMap s) n = Some (a, v)" "\<exists>v. map_of (valueMap s) n = Some (b, v)" using that by blast+
    then show ?thesis by auto
  qed
  with ok show ?thesis unfolding dup_ok_def s(2) by (metis not_Some_eq)
qed


definition enum_node :: "(string \<times> string) list \<Rightarrow> addr list \<Rightarrow> xnode" where
  "enum_node ats cs = \<lparr>etag = ''enum'', eattrib = ats, etext = None, etail = None, echildren = cs\<rparr>"

text \<open>A group with a duplicate name, an alias, and the group element itself.\<close>

definition group_example :: store where
  "group_example = [(enum_node [(''name'', ''VkG'')] [1, 2, 3, 4])\<lparr>etag := ''enums''\<rparr>,
     enum_node [(''name'', ''VK_A''), (''value'', ''1''), (''required'', ''true'')] [],
     enum_node [(''name'', ''VK_A''), (''value'', ''0x1'')] [],
     enum_node [(''name'', ''VK_B''), (''alias'', ''VK_A''), (''required'', ''true'')] [],
     enum_node [(''name'', ''VK_C''), (''bitpos'', ''3''), (''required'', ''true'')] []]"

lemma group_example_checked: "checkDuplicateEnums (Some plain_options) group_example [1, 2, 3, 4] = Inr ([1, 3, 4], [])"
  by code_simp


section \<open>Ranges\<close>

lemma for_each_runs: "for_each f xs s = Inr s' \<Longrightarrow> x \<in> set xs \<Longrightarrow> \<exists>t t'. f x t = Inr t'"
  by (induction xs arbitrary: s) (auto elim!: rbind_InrE)

text \<open>The number does not depend on the width and the suffix.\<close>

lemma number_width: "enumToValue opts st e True w f None = Inr v \<Longrightarrow> enum_number opts st e = fst v"
  by (auto simp: enum_number_def enumToValue_def need_options_def missing_options_def missing_conventions_def own_value_def
      value_of_value_def value_of_bitpos_def value_of_offset_def Let_def split: option.splits if_splits elim!: rbind_InrE)

definition fits_word :: "'o generator_options_scheme option \<Rightarrow> store \<Rightarrow> bool \<Rightarrow> addr \<Rightarrow> bool" where
  "fits_word opts st flags e = (case enum_number opts st e of None \<Rightarrow> True
     | Some n \<Rightarrow> if flags then uint (word_of_int n :: 64 word) = n else sint (word_of_int n :: 32 word) = n)"

text \<open>Which groups are declared as sets of flag bits: the others are C enumerations.\<close>

definition declared_as_flags :: "misra_style \<Rightarrow> store \<Rightarrow> addr \<Rightarrow> int \<Rightarrow> bool" where
  "declared_as_flags sty st g w \<longleftrightarrow> elem_get st g ''type'' = Some ''bitmask'' \<and> (w > 32 \<or> style_cpp sty \<or> style_c sty)"

lemma declare_enumerator_fits:
  assumes "declare_enumerator parse d opts st isEnum e s = Inr s'" shows "fits_word opts st False e"
proof -
  obtain v where v: "enumToValue opts st e True 32 False None = Inr v"
    using assms(1) by (cases s) (auto simp: declare_enumerator_def Let_def elim!: rbind_InrE)
  have "\<not> (n > max_enum \<or> n < - max_enum - 1)" if "fst v = Some n" for n
    using assms(1) v that by (cases s) (auto simp: declare_enumerator_def Let_def enum_range_error_def log_error_def split: if_splits elim!: rbind_InrE)
  then have "fst v = Some n \<Longrightarrow> sint (word_of_int n :: 32 word) = n" for n
    by (intro fits_int32) (simp_all add: max_enum_def)
  with number_width [OF v] show ?thesis by (simp add: fits_word_def split: option.splits)
qed

lemma declare_flag_fits:
  assumes "declare_flag sty parse d opts r flag w use e s = Inr s'" shows "fits_word opts (doc r) True e"
proof -
  obtain v where v: "enumToValue opts (doc r) e True w True None = Inr v"
    using assms(1) by (cases s) (auto simp: declare_flag_def Let_def elim!: rbind_InrE)
  have "\<not> (n > max_flag \<or> n < 0)" if "fst v = Some n" for n
    using assms(1) v that by (cases s) (auto simp: declare_flag_def Let_def flag_range_error_def log_error_def split: if_splits elim!: rbind_InrE)
  then have "fst v = Some n \<Longrightarrow> uint (word_of_int n :: 64 word) = n" for n
    by (intro fits_uint64) (simp_all add: max_flag_def)
  with number_width [OF v] show ?thesis by (simp add: fits_word_def split: option.splits)
qed


definition enum_registry :: registry where
  "enum_registry = (Registry (Some plain_options))\<lparr>doc := group_example, tree_root := Some 0\<rparr>"

definition group_info_example :: group_info where
  "group_info_example = GroupInfo 0"

lemma group_declared:
  "case buildEnumCDecl base_style (\<lambda>_. None) 5 (Some plain_options) enum_registry False group_info_example ''VkG'' of Inl e \<Rightarrow> False | Inr (sec, txt) \<Rightarrow>
     sec = ''group'' \<and> txt = ''typedef enum VkG {'' @ [CHR 0x0A] @ ''    VK_A = 1,'' @ [CHR 0x0A] @ ''    VK_C = 0x00000008,'' @ [CHR 0x0A] @
       ''    VK_B = VK_A,'' @ [CHR 0x0A] @ ''} VkG;''"
  by code_simp


section \<open>Aliases\<close>

text \<open>The next alias that has no number of its own.\<close>

definition next_alias :: "'o generator_options_scheme option \<Rightarrow> registry \<Rightarrow> int \<Rightarrow> addr \<Rightarrow> addr option" where
  "next_alias opts r w a =
     (case enumToValue opts (doc r) a True w True None of
        Inr (None, s) \<Rightarrow>
          (case find_alias r s of
             Inr (Some b) \<Rightarrow> (case enumToValue opts (doc r) b True w True None of Inr (None, _) \<Rightarrow> Some b | _ \<Rightarrow> None)
           | _ \<Rightarrow> None)
      | _ \<Rightarrow> None)"

lemma find_alias_in: "find_alias r s = Inr (Some b) \<Longrightarrow> b < length (doc r)"
proof -
  assume "find_alias r s = Inr (Some b)"
  then have "elem_get (doc r) b ''name'' = Some (py_str s)"
    by (auto simp: find_alias_def first_def filter_eq_Cons_iff split: option.splits list.splits)
  then show ?thesis using node_out by fastforce
qed

lemma no_divergence [simp]:
  "Numbers.signed rd t \<noteq> Inl Diverges" "py_int0 t \<noteq> Inl Diverges" "value_of_value t needsNum w f \<noteq> Inl Diverges"
  "value_of_bitpos t w f \<noteq> Inl Diverges" "value_of_offset t x neg \<noteq> Inl Diverges"
proof -
  show s: "Numbers.signed rd t \<noteq> Inl Diverges" for rd t by (simp add: Numbers.signed_def split: option.splits)
  then show i: "py_int0 t \<noteq> Inl Diverges" for t by (simp add: py_int0_def)
  show "value_of_value t needsNum w f \<noteq> Inl Diverges" by (simp add: value_of_value_def rbind_eq_Inl i)
  show "value_of_bitpos t w f \<noteq> Inl Diverges" by (simp add: value_of_bitpos_def rbind_eq_Inl i Let_def)
  show "value_of_offset t x neg \<noteq> Inl Diverges" by (simp add: value_of_offset_def rbind_eq_Inl i Let_def split: option.splits)
qed

lemma value_no_divergence [simp]: "enumToValue opts st a n w f None \<noteq> Inl Diverges"
proof -
  have o: "own_value st a n w f m \<noteq> Inl Diverges" if "m \<noteq> Inl Diverges" for m
    using that by (simp add: own_value_def split: option.splits)
  then show ?thesis
    by (auto simp: enumToValue_def need_options_def missing_options_def missing_conventions_def split: option.split)
qed

lemma chase_follow:
  assumes "enumToValue opts (doc r) a True w True None = Inr (None, s)"
  shows "chase_alias opts r w name k (None, s) = Inl Diverges \<longleftrightarrow> follow (next_alias opts r w) k a \<noteq> None"
  using assms
proof (induction k arbitrary: a s)
  case (Suc k)
  show ?case
  proof (cases "find_alias r s")
    case (Inl e)
    then show ?thesis using Suc.prems
      by (auto simp: next_alias_def find_alias_def split: option.splits)
  next
    case (Inr found)
    show ?thesis
    proof (cases found)
      case None
      then show ?thesis using Suc.prems Inr by (simp add: next_alias_def log_error_def)
    next
      case (Some b)
      show ?thesis
      proof (cases "enumToValue opts (doc r) b True w True None")
        case (Inl e)
        then have "e \<noteq> Diverges" using value_no_divergence by metis
        with Inl show ?thesis using Suc.prems Inr Some by (simp add: next_alias_def)
      next
        case (Inr v)
        then show ?thesis using Suc \<open>find_alias r s = Inr found\<close> Some
          by (cases v; cases "fst v") (auto simp: next_alias_def)
      qed
    qed
  qed
qed simp

lemma chase_mono:
  "chase_alias opts r w name k v \<noteq> Inl Diverges \<Longrightarrow> k \<le> l \<Longrightarrow> chase_alias opts r w name l v = chase_alias opts r w name k v"
proof (induction k arbitrary: l v)
  case 0
  obtain n t where v: "v = (n, t)" by (cases v)
  with 0 show ?case by (cases n) simp_all
next
  case (Suc k)
  from Suc.prems(2) obtain m where l: "l = Suc m" "k \<le> m" by (cases l) auto
  show ?case
  proof (cases "fst v")
    case None
    then obtain s where v: "v = (None, s)" by (cases v) simp
    show ?thesis
    proof (cases "find_alias r s")
      case (Inr found)
      show ?thesis
      proof (cases found)
        case (Some b)
        show ?thesis
          using Suc.prems(1) Suc.IH [OF _ l(2)] Inr Some by (cases "enumToValue opts (doc r) b True w True None") (simp_all add: v l(1))
      qed (simp add: v l(1) Inr log_error_def)
    qed (simp add: v l(1))
  next
    case (Some n)
    then show ?thesis using l by (cases v) simp
  qed
qed

text \<open>C28: looking for the value of an alias ends unless the aliases go round in a circle: a bound of one more
  step than the document has elements decides, since with any other number of steps the search gives the
  same answer or is not finished; if it is not finished then, it never will be.\<close>

theorem chase_alias_decides:
  "chase_alias opts r w name k v \<in> {Inl Diverges, chase_alias opts r w name (Suc (length (doc r))) v}"
proof (cases "chase_alias opts r w name (Suc (length (doc r))) v = Inl Diverges")
  case False
  show ?thesis
  proof (cases "k \<le> Suc (length (doc r))")
    case True
    then show ?thesis using chase_mono [of opts r w name k v "Suc (length (doc r))"]
      by (cases "chase_alias opts r w name k v = Inl Diverges") simp_all
  next
    case False
    then show ?thesis using chase_mono [OF \<open>chase_alias opts r w name (Suc (length (doc r))) v \<noteq> Inl Diverges\<close>, of k] by simp
  qed
next
  case True
  have "chase_alias opts r w name k v = Inl Diverges"
  proof (cases "k \<le> Suc (length (doc r))")
    case le: True
    show ?thesis
    proof (rule ccontr)
      assume "chase_alias opts r w name k v \<noteq> Inl Diverges"
      from chase_mono [OF this le] True this show False by simp
    qed
  next
    case False
    then obtain l where l: "k = Suc l" by (cases k) auto
    obtain s where v: "v = (None, s)" using True by (cases v; cases "fst v") auto
    obtain b u where b: "find_alias r s = Inr (Some b)" "enumToValue opts (doc r) b True w True None = Inr u"
      "chase_alias opts r w name (length (doc r)) u = Inl Diverges"
      using True
      by (auto simp: v rbind_eq_Inl log_error_def find_alias_def split: option.splits)
    then obtain t where u: "u = (None, t)" by (cases u; cases "fst u") auto
    have "follow (next_alias opts r w) (length (doc r)) b \<noteq> None" using chase_follow b u by blast
    moreover have "next_alias opts r w a = Some c \<Longrightarrow> c < length (doc r)" for a c
      by (auto simp: next_alias_def dest: find_alias_in split: sum.splits option.splits prod.splits)
    ultimately have "follow (next_alias opts r w) l b \<noteq> None"
      using follow_forever [of "{0..<length (doc r)}" "next_alias opts r w" b l] find_alias_in [OF b(1)] by simp
    then have "chase_alias opts r w name l u = Inl Diverges"
      unfolding u using chase_follow [OF b(2) [unfolded u]] by blast
    then show ?thesis using b by (simp add: l v)
  qed
  then show ?thesis by simp
qed

end
