(* ===== verification/Conventions.thy ===== *)
theory Conventions
  imports EnumFacts
begin

text \<open>
  The naming conventions: the class \<^verbatim>\<open>ConventionsBase\<close> (\<^verbatim>\<open>src/tools/vkex/spec_tools/conventions.py\<close>) as
  \<^verbatim>\<open>VulkanConventions\<close> (\<^verbatim>\<open>src/tools/vkex/vkconventions.py\<close>) completes it. A property is a
  constant and a method a function; that the object, which keeps two prefixes, gives these constants
  is shown in theory ConvObject. Overridden methods of the base class are left out.
\<close>

section \<open>Lists in prose\<close>

datatype ProseListFormats = AND | EACH_AND | OR | ANY_OR

definition from_string :: "string \<Rightarrow> ProseListFormats res" where
  "from_string s =
     (if s = ''or'' then Inr OR else if s = ''and'' then Inr AND
      else Inl (RuntimeError (''Unrecognized string connective: '' @ s)))"

definition connective :: "ProseListFormats \<Rightarrow> string" where
  "connective fmt = (if fmt \<in> {OR, ANY_OR} then ''or'' else ''and'')"

definition quantifier :: "ProseListFormats \<Rightarrow> nat \<Rightarrow> string" where
  "quantifier fmt n =
     (if fmt = ANY_OR \<and> n > 1 then ''any of ''
      else if fmt = EACH_AND \<and> n > 2 then ''each of ''
      else if fmt = EACH_AND \<and> n = 2 then ''both of ''
      else [])"

text \<open>The format may be given by its name.\<close>

datatype fmt_arg = Fmt ProseListFormats | FmtName string

definition prose_parts :: "string list \<Rightarrow> ProseListFormats \<Rightarrow> string list" where
  "prose_parts elements fmt =
     (if length elements > 1 then butlast elements @ [connective fmt @ '' '' @ last elements] else elements)"

definition implMakeProseList :: "string list \<Rightarrow> fmt_arg \<Rightarrow> bool \<Rightarrow> bool \<Rightarrow> bool \<Rightarrow> string res" where
  "implMakeProseList elements fmt with_verb comma_for_two_elts serial_comma =
     (if \<not> serial_comma then Inl AssertionError
      else
        rbind (case fmt of Fmt f \<Rightarrow> Inr f | FmtName s \<Rightarrow> from_string s) (\<lambda>fmt.
        let my_elts = prose_parts elements fmt;
            prose = (if \<not> comma_for_two_elts \<and> length my_elts \<le> 2 then py_join '' '' my_elts else py_join '', '' my_elts);
            verb = (if \<not> with_verb then [] else if length my_elts > 1 then '' are'' else '' is'')
        in Inr (quantifier fmt (length my_elts) @ prose @ verb)))"

definition makeProseList :: "string list \<Rightarrow> fmt_arg \<Rightarrow> bool \<Rightarrow> bool \<Rightarrow> bool \<Rightarrow> string res" where
  "makeProseList = implMakeProseList"

section \<open>Names\<close>

definition api_prefix :: string where
  "api_prefix = ''VK_''"

definition api_version_prefix :: string where
  "api_version_prefix = api_prefix @ ''VERSION_''"

definition KHR_prefix :: string where
  "KHR_prefix = api_prefix @ ''KHR_''"

definition EXT_prefix :: string where
  "EXT_prefix = api_prefix @ ''EXT_''"

definition command_prefix :: string where
  "command_prefix = py_lower (filter (\<lambda>c. c \<noteq> CHR ''_'') api_prefix)"

definition type_prefix :: string where
  "type_prefix = py_upper (take 1 command_prefix) @ drop 1 command_prefix"

definition structtype_member_name :: string where
  "structtype_member_name = ''sType''"

definition nextpointer_member_name :: string where
  "nextpointer_member_name = ''pNext''"

definition member_used_for_unique_vuid :: string where
  "member_used_for_unique_vuid = structtype_member_name"

definition is_structure_type_member :: "pname \<Rightarrow> pname \<Rightarrow> bool" where
  "is_structure_type_member paramtype paramname \<longleftrightarrow> paramtype = Some ''VkStructureType'' \<and> paramname = Some structtype_member_name"

definition is_nextpointer_member :: "pname \<Rightarrow> pname \<Rightarrow> bool" where
  "is_nextpointer_member paramtype paramname \<longleftrightarrow> paramtype = Some ''void'' \<and> paramname = Some nextpointer_member_name"

definition is_externsync_command :: "pname \<Rightarrow> bool" where
  "is_externsync_command protoname = (case protoname of None \<Rightarrow> False | Some n \<Rightarrow> py_in ''vkCmd'' n)"

definition is_api_name :: "string \<Rightarrow> bool" where
  "is_api_name name \<longleftrightarrow> py_lower (take 2 name) = ''vk'' \<or> take 6 name = ''PFN_vk''"

definition conv_api_name :: "pname \<Rightarrow> pname" where
  "conv_api_name spectype = (if spectype = Some ''api'' \<or> spectype = None then Some ''Vulkan'' else None)"

section \<open>Markup\<close>

definition null_markup :: string where
  "null_markup = ''`NULL`''"

definition zero_markup :: string where
  "zero_markup = ''`0`''"

definition formatExtension :: "string \<Rightarrow> string" where
  "formatExtension name = ''`apiext:'' @ name @ ''`''"

definition struct_macro :: string where
  "struct_macro = ''slink:''"

definition external_macro :: string where
  "external_macro = ''code:''"

definition makeStructName :: "string \<Rightarrow> string" where
  "makeStructName name = struct_macro @ name"

definition makeExternalTypeName :: "string \<Rightarrow> string" where
  "makeExternalTypeName name = external_macro @ name"

definition valid_pointer_prefix :: string where
  "valid_pointer_prefix = ''valid''"

definition warning_comment :: string where
  "warning_comment = ''// WARNING: DO NOT MODIFY! This file is automatically generated from the vk.xml registry''"

definition file_suffix :: string where
  "file_suffix = ''.adoc''"

definition extension_file_path :: "string \<Rightarrow> string" where
  "extension_file_path name = name @ file_suffix"

definition extension_include_string :: "string \<Rightarrow> string" where
  "extension_include_string name = ''include::{appendices}/'' @ extension_file_path name @ ''[]''"

definition extension_index_prefixes :: "string list" where
  "extension_index_prefixes = [''VK_KHR'', ''VK_EXT'', ''VK'']"

section \<open>Validity\<close>

definition CATEGORIES_REQUIRING_VALIDATION :: "string set" where
  "CATEGORIES_REQUIRING_VALIDATION = {''handle'', ''enum'', ''bitmask''}"

definition category_requires_validation :: "pname \<Rightarrow> bool" where
  "category_requires_validation category \<longleftrightarrow> category \<in> Some ` CATEGORIES_REQUIRING_VALIDATION"

definition TYPES_KNOWN_ALWAYS_VALID :: "string set" where
  "TYPES_KNOWN_ALWAYS_VALID = {''char'', ''float'', ''int8_t'', ''uint8_t'', ''int16_t'', ''uint16_t'', ''int32_t'', ''uint32_t'',
     ''int64_t'', ''uint64_t'', ''size_t'', ''intptr_t'', ''uintptr_t'', ''int''}"

definition type_always_valid :: "pname \<Rightarrow> bool" where
  "type_always_valid typename \<longleftrightarrow> typename \<in> Some ` TYPES_KNOWN_ALWAYS_VALID"

definition should_insert_may_alias_macro :: bool where
  "should_insert_may_alias_macro = False"

definition is_voidpointer_alias :: "string \<Rightarrow> string \<Rightarrow> string \<Rightarrow> bool" where
  "is_voidpointer_alias tag txt tail \<longleftrightarrow> tag = ''type'' \<and> txt = ''void'' \<and> prefix ''*'' tail"

definition make_voidpointer_alias :: "string \<Rightarrow> string" where
  "make_voidpointer_alias tail = tail"

definition valid_flag_bit :: "int \<Rightarrow> bool" where
  "valid_flag_bit bitpos \<longleftrightarrow> bitpos \<ge> 0 \<and> bitpos < 31"

section \<open>Structure types\<close>

text \<open>
  \<^verbatim>\<open>SPECIAL_WORDS\<close> is a set, and the regular expression lists its words in the order in which the set is
  iterated, which differs from run to run: the order is a parameter \<open>ws\<close> of what follows. The other
  alternatives are a number, a capitalised word, and capitals not followed by a lower case letter.
\<close>

definition SPECIAL_WORDS :: "string list" where
  "SPECIAL_WORDS = [''16Bit'', ''2D'', ''3D'', ''8Bit'', ''AABB'', ''ASTC'', ''D3D12'', ''Float16'', ''ImagePipe'', ''Int64'', ''Int8'',
     ''MacOS'', ''RGBA10X6'', ''Uint8'', ''Win32'']"

definition special_at :: "string list \<Rightarrow> string \<Rightarrow> string option" where
  "special_at ws s = first (filter (\<lambda>w. prefix w s) ws)"

definition capitals :: "string \<Rightarrow> nat" where
  "capitals s =
     (let run = takeWhile py_isupper s in
      case dropWhile py_isupper s of
        [] \<Rightarrow> length run
      | c # _ \<Rightarrow> if py_islower c then length run - 1 else length run)"

definition match_word :: "string list \<Rightarrow> string \<Rightarrow> nat" where
  "match_word ws s =
     (case special_at ws s of
        Some w \<Rightarrow> length w
      | None \<Rightarrow>
          let ds = takeWhile py_isdigit s in
          if ds \<noteq> [] then length ds
          else (case s of
                  [] \<Rightarrow> 0
                | c # t \<Rightarrow>
                    if \<not> py_isupper c then 0
                    else let ls = takeWhile py_islower t in
                      if ls \<noteq> [] then Suc (length ls) else capitals s))"

text \<open>\<^verbatim>\<open>findall\<close>: where nothing matches a character is passed over.\<close>

function structure_words :: "string list \<Rightarrow> string \<Rightarrow> string list" where
  "structure_words ws s =
     (if s = [] then []
      else let n = match_word ws s in
        if n = 0 then structure_words ws (tl s) else take n s # structure_words ws (drop n s))"
  by pat_completeness auto
termination
  by (relation "measure (length \<circ> snd)") auto

declare structure_words.simps [simp del]

text \<open>\<^verbatim>\<open>re.sub\<close> for a pattern given by the length of its match and the replacement.\<close>

function re_sub :: "(string \<Rightarrow> (nat \<times> string) option) \<Rightarrow> string \<Rightarrow> string" where
  "re_sub m s =
     (if s = [] then []
      else case m s of
        None \<Rightarrow> hd s # re_sub m (tl s)
      | Some (n, out) \<Rightarrow> out @ re_sub m (drop (max 1 n) s))"
  by pat_completeness auto
termination
  by (relation "measure (length \<circ> snd)") auto

declare re_sub.simps [simp del]

definition literal :: "string \<Rightarrow> string \<Rightarrow> string \<Rightarrow> (nat \<times> string) option" where
  "literal pat out s = (if prefix pat s then Some (length pat, out) else None)"

definition sub_codec :: "string \<Rightarrow> (nat \<times> string) option" where
  "sub_codec s = (case literal ''_H_264_'' ''_H264_'' s of None \<Rightarrow> literal ''_H_265_'' ''_H265_'' s | r \<Rightarrow> r)"

definition sub_version :: "string \<Rightarrow> (nat \<times> string) option" where
  "sub_version s =
     (if prefix ''_VULKAN_'' s
      then (case drop 8 s of
              a # b # c # _ \<Rightarrow> if py_isdigit a \<and> py_isdigit b \<and> c = CHR ''_'' then Some (11, ''_VULKAN_'' @ [a, CHR ''_'', b, CHR ''_'']) else None
            | _ \<Rightarrow> None)
      else None)"

definition generate_structure_type_from_name :: "string list \<Rightarrow> string \<Rightarrow> string" where
  "generate_structure_type_from_name ws structname =
     (let name = py_join ''_'' (map (\<lambda>word. if word = ''Vk'' then ''VK_STRUCTURE_TYPE'' else py_upper word) (structure_words ws structname))
      in re_sub (literal ''_VULKAN_SC_10'' ''_VULKAN_SC_1_0'')
           (re_sub (literal ''_DIRECT_FB_'' ''_DIRECTFB_'') (re_sub sub_version (re_sub sub_codec name))))"

section \<open>The order of the special words\<close>

lemma special_prefix_free:
  "\<forall>v \<in> set SPECIAL_WORDS. \<forall>w \<in> set SPECIAL_WORDS. prefix v w \<longrightarrow> v = w"
  by code_simp

lemma special_at_set:
  assumes "set ws = set SPECIAL_WORDS" shows "special_at ws s = special_at SPECIAL_WORDS s"
proof -
  have one: "special_at us s = Some w" if "set us = set SPECIAL_WORDS" "w \<in> set SPECIAL_WORDS" "prefix w s" for us w
  proof -
    have "w \<in> set (filter (\<lambda>w. prefix w s) us)" using that by simp
    then obtain v vs where v: "filter (\<lambda>w. prefix w s) us = v # vs" by (cases "filter (\<lambda>w. prefix w s) us") auto
    then have "v \<in> set (filter (\<lambda>w. prefix w s) us)" by simp
    then have "v \<in> set SPECIAL_WORDS" "prefix v s" using that(1) by simp_all
    with that special_prefix_free prefix_same_cases [of v s w] have "v = w" by blast
    with v show ?thesis by (simp add: special_at_def first_def)
  qed
  show ?thesis
  proof (cases "\<exists>w \<in> set SPECIAL_WORDS. prefix w s")
    case True
    then show ?thesis using one assms by (metis (no_types))
  next
    case False
    then have "filter (\<lambda>w. prefix w s) ws = []" "filter (\<lambda>w. prefix w s) SPECIAL_WORDS = []"
      using assms by (auto simp: filter_empty_conv)
    then show ?thesis by (simp add: special_at_def)
  qed
qed

text \<open>C30: the name of a structure type does not depend on the order in which the set of special words is
  iterated when the regular expression is built: no special word is the beginning of another, so any
  order gives the same result.\<close>

theorem structure_type_order_irrelevant:
  assumes "set ws = set SPECIAL_WORDS"
  shows "generate_structure_type_from_name ws s = generate_structure_type_from_name SPECIAL_WORDS s"
proof -
  have "match_word ws t = match_word SPECIAL_WORDS t" for t by (simp add: match_word_def special_at_set [OF assms])
  then have "structure_words ws t = structure_words SPECIAL_WORDS t" for t
    by (induction ws t rule: structure_words.induct)
      (subst (1 2) structure_words.simps, simp add: Let_def)
  then show ?thesis by (simp add: generate_structure_type_from_name_def)
qed

theorem structure_type_order_irrelevant_witness:
  "generate_structure_type_from_name (rev SPECIAL_WORDS) ''VkPhysicalDevice16BitStorageFeatures'' =
     ''VK_STRUCTURE_TYPE_PHYSICAL_DEVICE_16BIT_STORAGE_FEATURES''"
proof -
  have "generate_structure_type_from_name SPECIAL_WORDS ''VkPhysicalDevice16BitStorageFeatures'' =
     ''VK_STRUCTURE_TYPE_PHYSICAL_DEVICE_16BIT_STORAGE_FEATURES''" by code_simp
  then show ?thesis using structure_type_order_irrelevant [of "rev SPECIAL_WORDS"] by simp
qed

section \<open>Flag bits\<close>

text \<open>The bit positions that the conventions allow are exactly those whose value is a positive signed
  32-bit integer: the value that \<^verbatim>\<open>enumToValue\<close> computes for an allowed bit passes the range check of C
  enumerations, and the first bit that is not allowed has a value that does not.\<close>

theorem valid_flag_bit_fits:
  assumes "0 \<le> b"
  shows "\<exists>n txt. value_of_bitpos (show_int b) 32 False = Inr (Some n, txt) \<and> n = 2 ^ nat b \<and>
    (valid_flag_bit b \<longleftrightarrow> n \<le> max_enum) \<and> (valid_flag_bit b \<longrightarrow> sint (word_of_int n :: 32 word) = n)"
proof -
  have "value_of_bitpos (show_int b) 32 False = Inr (Some (2 ^ nat b), if b \<ge> 32 then Some (show_hex8 (2 ^ nat b) @ ''ULL'')
      else Some (show_hex8 (2 ^ nat b)))"
    using assms by (simp add: value_of_bitpos_def py_int0_show_int Let_def push_bit_eq_mult)
  moreover have "valid_flag_bit b \<longleftrightarrow> (2 :: int) ^ nat b \<le> max_enum"
  proof
    assume "valid_flag_bit b"
    then have "nat b \<le> 30" by (auto simp: valid_flag_bit_def nat_le_iff)
    then have "(2 :: int) ^ nat b \<le> 2 ^ 30" by (intro power_increasing) simp_all
    then show "(2 :: int) ^ nat b \<le> max_enum" by (simp add: max_enum_def)
  next
    assume "(2 :: int) ^ nat b \<le> max_enum"
    then have "(2 :: int) ^ nat b < 2 ^ 31" by (simp add: max_enum_def)
    then have "nat b < 31" by (rule power_less_imp_less_exp [of "2 :: int", rotated]) simp
    then show "valid_flag_bit b" using assms by (simp add: valid_flag_bit_def)
  qed
  moreover have "sint (word_of_int (2 ^ nat b) :: 32 word) = 2 ^ nat b" if "(2 :: int) ^ nat b \<le> max_enum"
    using that by (intro fits_int32) (auto simp: max_enum_def intro: order_trans [of _ 0])
  ultimately show ?thesis by auto
qed

theorem valid_flag_bit_fits_witness:
  "\<exists>n txt. value_of_bitpos (show_int 30) 32 False = Inr (Some n, txt) \<and> n = 1073741824 \<and> valid_flag_bit 30 \<and> \<not> valid_flag_bit 31"
  using valid_flag_bit_fits [of 30] by (auto simp: valid_flag_bit_def)

end
