(* ===== verification/CDecls.thy ===== *)
theory CDecls
  imports Conventions
begin

text \<open>
  C declarations of members, parameters and commands, the ancestors of a handle and the structures
  that are always valid: the rest of the methods that \<^verbatim>\<open>OutputGenerator\<close> offers to its subclasses
  (\<^verbatim>\<open>src/tools/vkex/generator.py\<close>), with the searches of \<^verbatim>\<open>src/tools/vkex/spec_tools/util.py\<close> that they use.
  The methods are called after \<^verbatim>\<open>beginFile\<close>, which sets \<^verbatim>\<open>should_insert_may_alias_macro\<close>.
\<close>

section \<open>Searches\<close>

definition getElemName :: "store \<Rightarrow> addr \<Rightarrow> pname \<Rightarrow> pname" where
  "getElemName st elem dflt =
     (case find_elem st elem ''name'' of
        Some n \<Rightarrow> elem_text st n
      | None \<Rightarrow> if elem_has st elem ''name'' then elem_get st elem ''name'' else dflt)"

definition getElemType :: "store \<Rightarrow> addr \<Rightarrow> pname \<Rightarrow> pname" where
  "getElemType st elem dflt =
     (case find_elem st elem ''type'' of
        Some n \<Rightarrow> elem_text st n
      | None \<Rightarrow> if elem_has st elem ''type'' then elem_get st elem ''type'' else dflt)"

fun findFirstWithPredicate :: "'a list \<Rightarrow> ('a \<Rightarrow> bool) \<Rightarrow> 'a option" where
  "findFirstWithPredicate [] pred = None"
| "findFirstWithPredicate (elt # collection) pred = (if pred elt then Some elt else findFirstWithPredicate collection pred)"

definition findNamedElem :: "store \<Rightarrow> addr list \<Rightarrow> pname \<Rightarrow> addr option" where
  "findNamedElem st elems name = findFirstWithPredicate elems (\<lambda>elem. getElemName st elem None = name)"

definition findTypedElem :: "store \<Rightarrow> addr list \<Rightarrow> pname \<Rightarrow> addr option" where
  "findTypedElem st elems typename = findFirstWithPredicate elems (\<lambda>elem. getElemType st elem None = typename)"

text \<open>Objects with a \<^verbatim>\<open>name\<close> attribute, given by the function that reads it.\<close>

definition findNamedObject :: "('a \<Rightarrow> pname) \<Rightarrow> 'a list \<Rightarrow> pname \<Rightarrow> 'a option" where
  "findNamedObject name_of collection name = findFirstWithPredicate collection (\<lambda>elt. name_of elt = name)"

section \<open>Members and parameters\<close>

definition needs_options :: "'o option \<Rightarrow> ('o \<Rightarrow> 'b res) \<Rightarrow> 'b res" where
  "needs_options opts m = (case opts of None \<Rightarrow> missing_options | Some g \<Rightarrow> m g)"

definition makeProtoName :: "vkex_options option \<Rightarrow> string \<Rightarrow> string \<Rightarrow> string res" where
  "makeProtoName opts name tail = needs_options opts (\<lambda>g. Inr (apientry (vkex g) @ name @ tail))"

definition makeTypedefName :: "vkex_options option \<Rightarrow> string \<Rightarrow> string \<Rightarrow> bool \<Rightarrow> string res" where
  "makeTypedefName opts name tail isfuncpointer =
     needs_options opts (\<lambda>g.
       Inr (''('' @ apientryp (vkex g) @ (if isfuncpointer then [] else ''PFN_'') @ name @ tail @ '')''))"

text \<open>\<open>s.replace('const ', '')\<close>\<close>

definition erase_const :: "string \<Rightarrow> string" where
  "erase_const = re_sub (literal ''const '' [])"

definition indent4 :: string where
  "indent4 = ''    ''"

text \<open>The text and the tail of a child; a tail that is a pointer to \<open>void\<close> may be given a macro.\<close>

definition child_text :: "store \<Rightarrow> addr \<Rightarrow> string" where
  "child_text st elem = noneStr (elem_text st elem)"

definition child_tail :: "store \<Rightarrow> addr \<Rightarrow> string" where
  "child_tail st elem =
     (let tail = noneStr (elem_tail st elem) in
      if should_insert_may_alias_macro \<and> is_voidpointer_alias (elem_tag st elem) (child_text st elem) tail
      then make_voidpointer_alias tail else tail)"

text \<open>One round of the loop: the declaration so far and the text before the first child.\<close>

definition param_step :: "misra_style \<Rightarrow> store \<Rightarrow> int \<Rightarrow> addr \<Rightarrow> string \<times> string \<Rightarrow> string \<times> string" where
  "param_step sty st aligncol elem s = (case s of (paramdecl, pre) \<Rightarrow>
     (let txt = child_text st elem; tail = child_tail st elem;
          paramdecl = (if elem_tag st elem = ''name'' \<and> aligncol > 0
                       then ljust (aligncol - 1) (rstrip paramdecl) @ '' '' else paramdecl)
      in (if style_cpp sty \<and> py_in ''const '' pre
          then paramdecl @ erase_const pre @ txt @ '' const'' @ tail
          else paramdecl @ pre @ txt @ tail, [])))"

definition makeCParamDecl :: "misra_style \<Rightarrow> 'o generator_options_scheme option \<Rightarrow> store \<Rightarrow> addr \<Rightarrow> int \<Rightarrow> string res" where
  "makeCParamDecl sty opts st param aligncol =
     need_options opts
       (case fold (param_step sty st aligncol) (elem_children st param) (indent4, noneStr (elem_text st param)) of (paramdecl, pre) \<Rightarrow>
        let paramdecl = paramdecl @ pre in
        Inr (if aligncol = 0 then indent4 @ squeeze paramdecl else paramdecl))"

definition length_step :: "store \<Rightarrow> addr \<Rightarrow> nat \<times> string \<Rightarrow> nat \<times> string" where
  "length_step st elem s = (case s of (newLen, paramdecl) \<Rightarrow>
     (if elem_tag st elem = ''name'' then length (rstrip paramdecl) else newLen,
      paramdecl @ child_text st elem @ child_tail st elem))"

definition getCParamTypeLength :: "'o generator_options_scheme option \<Rightarrow> store \<Rightarrow> addr \<Rightarrow> nat res" where
  "getCParamTypeLength opts st param =
     need_options opts
       (Inr (fst (fold (length_step st) (elem_children st param) (0, indent4 @ noneStr (elem_text st param)))))"

fun map_each :: "('a \<Rightarrow> 'b res) \<Rightarrow> 'a list \<Rightarrow> 'b list res" where
  "map_each f [] = Inr []"
| "map_each f (x # xs) = rbind (f x) (\<lambda>y. rbind (map_each f xs) (\<lambda>ys. Inr (y # ys)))"

text \<open>The greatest of no lengths raises.\<close>

definition getMaxCParamTypeLength :: "'o generator_options_scheme option \<Rightarrow> store \<Rightarrow> 'a base_info_scheme \<Rightarrow> nat res" where
  "getMaxCParamTypeLength opts st i =
     rbind (map_each (getCParamTypeLength opts st) (getMembers st i)) (\<lambda>lengths.
     if lengths = [] then Inl ValueError else Inr (Max (set lengths)))"

section \<open>Commands and function pointers\<close>

text \<open>\<open>list(p.itertext())\<close>: empty pieces are left out.\<close>

definition piece :: "string option \<Rightarrow> string list" where
  "piece t = (if truthy t then [noneStr t] else [])"

function itertexts :: "store \<Rightarrow> addr \<Rightarrow> string list" where
  "itertexts st a = piece (elem_text st a) @ concat (map (\<lambda>c. itertexts st c @ piece (elem_tail st c)) (down st a))"
  by pat_completeness auto
termination
  by (relation "measure (\<lambda>(st, a). length st - a)") (auto dest: down_less)

declare itertexts.simps [simp del]

text \<open>The first piece is kept back until there is a second.\<close>

definition misra_param :: "string list \<Rightarrow> string" where
  "misra_param ts =
     (case ts of
        [] \<Rightarrow> []
      | pre # ts \<Rightarrow>
          fst (fold (\<lambda>t (param, pre).
                 (if py_in ''const '' pre then param @ erase_const pre @ t @ '' const '' else param @ pre @ t, []))
               ts ([], pre)))"

definition proto_step :: "vkex_options \<Rightarrow> store \<Rightarrow> bool \<Rightarrow> addr \<Rightarrow> string \<times> string \<Rightarrow> (string \<times> string) res" where
  "proto_step g st isfuncpointer elem s = (case s of (pdecl, tdecl) \<Rightarrow>
     (let txt = noneStr (elem_text st elem); tail = noneStr (elem_tail st elem) in
      if elem_tag st elem = ''name''
      then rbind (makeProtoName (Some g) txt tail) (\<lambda>p.
           rbind (makeTypedefName (Some g) txt tail isfuncpointer) (\<lambda>t. Inr (pdecl @ p, tdecl @ t)))
      else Inr (pdecl @ txt @ tail, tdecl @ txt @ tail)))"

text \<open>The prototype, absent for a function pointer, and the typedef.\<close>

definition makeCDecls :: "misra_style \<Rightarrow> vkex_options option \<Rightarrow> store \<Rightarrow> addr \<Rightarrow> (pname \<times> string) res" where
  "makeCDecls sty opts st cmd =
     needs_options opts (\<lambda>g.
       let isfuncpointer = (elem_tag st cmd = ''type''); params = findall st cmd ''param'' in
       case find_elem st cmd ''proto'' of
         None \<Rightarrow> Inl AttributeError
       | Some proto \<Rightarrow>
           let lead = noneStr (elem_text st proto) in
           rbind (for_each (proto_step g st isfuncpointer) (elem_children st proto)
             (apicall (vkex g) @ lead, ''typedef '' @ lead)) (\<lambda>(pdecl, tdecl).
           let pdecl = (if alignFuncParam (vkex g) = 0 then squeeze pdecl else pdecl);
               tdecl = (if alignFuncParam (vkex g) = 0 then squeeze tdecl else tdecl) in
           rbind (if params \<noteq> []
                  then rbind (map_each (\<lambda>p. makeCParamDecl sty opts st p (alignFuncParam (vkex g))) params) (\<lambda>ds.
                       Inr (''('' @ [CHR 0x0A] @ py_join ('','' @ [CHR 0x0A]) ds @ '');''))
                  else Inr ''(void);'') (\<lambda>indentdecl.
           let paramdecl =
             (if params \<noteq> []
              then ''('' @ py_join '', '' (map (\<lambda>p. if style_cpp sty then misra_param (itertexts st p) else concat (itertexts st p)) params)
              else ''(void'') @ '');''
           in Inr (if isfuncpointer then (None, tdecl @ indentdecl) else (Some (pdecl @ indentdecl), tdecl @ paramdecl)))))"

section \<open>Handles\<close>

definition needs_registry :: "registry option \<Rightarrow> (registry \<Rightarrow> 'b res) \<Rightarrow> 'b res" where
  "needs_registry ro m = (case ro of None \<Rightarrow> Inl (RuntimeError ''Missing Registry object self.registry'') | Some r \<Rightarrow> m r)"

definition type_attribute :: "registry \<Rightarrow> string \<Rightarrow> pname \<Rightarrow> pname" where
  "type_attribute r key typename =
     (case map_of (typedict r) (Name typename) of None \<Rightarrow> None | Some info \<Rightarrow> elem_get (doc r) (i_elem info) key)"

definition getHandleParent :: "registry option \<Rightarrow> pname \<Rightarrow> pname res" where
  "getHandleParent ro typename = needs_registry ro (\<lambda>r. Inr (type_attribute r ''parent'' typename))"

text \<open>
  The generator \<^verbatim>\<open>iterateHandleAncestors\<close> drained: every ancestor but the last has an entry in
  the dictionary, so after one more step than there are entries it has come round.
\<close>

fun handle_chain :: "registry option \<Rightarrow> nat \<Rightarrow> pname \<Rightarrow> string list res" where
  "handle_chain ro fuel None = Inr []"
| "handle_chain ro 0 (Some current) = Inl Diverges"
| "handle_chain ro (Suc fuel) (Some current) =
     rbind (getHandleParent ro (Some current)) (\<lambda>p.
     rbind (handle_chain ro fuel p) (\<lambda>rest. Inr (current # rest)))"

definition iterateHandleAncestors :: "registry option \<Rightarrow> nat \<Rightarrow> pname \<Rightarrow> string list res" where
  "iterateHandleAncestors ro fuel typename = rbind (getHandleParent ro typename) (handle_chain ro fuel)"

definition getHandleAncestors :: "registry option \<Rightarrow> pname \<Rightarrow> string list res" where
  "getHandleAncestors ro typename =
     iterateHandleAncestors ro (case ro of None \<Rightarrow> 0 | Some r \<Rightarrow> Suc (length (typedict r))) typename"

definition getTypeCategory :: "registry option \<Rightarrow> pname \<Rightarrow> pname res" where
  "getTypeCategory ro typename = needs_registry ro (\<lambda>r. Inr (type_attribute r ''category'' typename))"

section \<open>Structures that are always valid\<close>

definition paramIsArray :: "store \<Rightarrow> addr \<Rightarrow> bool" where
  "paramIsArray st param = elem_has st param ''len''"

definition paramIsPointer :: "store \<Rightarrow> addr \<Rightarrow> bool res" where
  "paramIsPointer st param =
     (case find_elem st param ''type'' of
        None \<Rightarrow> Inl AttributeError
      | Some t \<Rightarrow> Inr (case elem_tail st t of None \<Rightarrow> False | Some tail \<Rightarrow> CHR ''*'' \<in> set tail))"

fun all_members :: "(addr \<Rightarrow> bool res) \<Rightarrow> addr list \<Rightarrow> bool res" where
  "all_members f [] = Inr True"
| "all_members f (m # ms) = rbind (f m) (\<lambda>ok. if ok then all_members f ms else Inr False)"

text \<open>One round of the loop over the members; \<open>recur\<close> is the recursive call.\<close>

definition member_valid :: "registry \<Rightarrow> (pname \<Rightarrow> bool res) \<Rightarrow> addr \<Rightarrow> bool res" where
  "member_valid r recur m =
     (let st = doc r; member_name = getElemName st m None in
      if member_name = Some structtype_member_name \<or> member_name = Some nextpointer_member_name then Inr False
      else if truthy (elem_get st m ''noautovalidity'') then Inr False
      else
        let member_type = getElemType st m None in
        rbind (if member_type = Some ''void'' \<or> member_type = Some ''char'' \<or> paramIsArray st m then Inr True else paramIsPointer st m) (\<lambda>refers.
        if refers then Inr False
        else if type_always_valid member_type then Inr True
        else
          rbind (getTypeCategory (Some r) member_type) (\<lambda>member_category.
          if category_requires_validation member_category then Inr False
          else if member_category = Some ''struct'' \<or> member_category = Some ''union'' then recur member_type
          else Inr True)))"

text \<open>\<open>d\<close> is the number of frames the stack has left.\<close>

fun isStructAlwaysValid :: "registry option \<Rightarrow> nat \<Rightarrow> pname \<Rightarrow> bool res" where
  "isStructAlwaysValid ro 0 structname = Inl RecursionError"
| "isStructAlwaysValid ro (Suc d) structname =
     needs_registry ro (\<lambda>r.
       if type_always_valid structname then Inr True
       else
         rbind (getTypeCategory ro structname) (\<lambda>category.
         if category_requires_validation category then Inr False
         else
           (case map_of (typedict r) (Name structname) of
              None \<Rightarrow> log_error [''isStructAlwaysValid('' @ py_str structname @ '') - structure not found in typedict'']
            | Some info \<Rightarrow> all_members (member_valid r (isStructAlwaysValid ro d)) (getMembers (doc r) info))))"

end
