(* ===== verification/CDeclFacts.thy ===== *)
theory CDeclFacts
  imports CDecls Chains
begin

text \<open>
  What the C declarations, the ancestors of handles and \<^verbatim>\<open>isStructAlwaysValid\<close> promise.
\<close>

section \<open>Ancestors of a handle\<close>

definition handle_parent :: "registry \<Rightarrow> string \<Rightarrow> string option" where
  "handle_parent r t = type_attribute r ''parent'' (Some t)"

lemma handle_chain_diverges:
  "handle_chain (Some r) k (Some c) = Inl Diverges \<longleftrightarrow> follow (handle_parent r) k c \<noteq> None"
proof (induction k arbitrary: c)
  case (Suc k)
  show ?case
  proof (cases "handle_parent r c")
    case (Some b)
    then show ?thesis using Suc [of b]
      by (simp add: getHandleParent_def needs_registry_def handle_parent_def rbind_eq_Inl)
  qed (simp add: getHandleParent_def needs_registry_def handle_parent_def)
qed simp

lemma handle_chain_error: "handle_chain (Some r) k p = Inl e \<Longrightarrow> e = Diverges"
proof (induction k arbitrary: p)
  case 0
  then show ?case by (cases p) simp_all
next
  case (Suc k)
  then show ?case by (cases p) (auto simp: getHandleParent_def needs_registry_def rbind_eq_Inl)
qed

lemma handle_chain_value:
  "handle_chain (Some r) k (Some c) = Inr ps \<Longrightarrow>
     map (\<lambda>i. follow (handle_parent r) i c) [0..<length ps] = map Some ps \<and> follow (handle_parent r) (length ps) c = None"
proof (induction k arbitrary: c ps)
  case (Suc k)
  show ?case
  proof (cases "handle_parent r c")
    case None
    with Suc.prems show ?thesis
      by (simp add: getHandleParent_def needs_registry_def handle_parent_def) auto
  next
    case (Some b)
    with Suc.prems obtain qs where qs: "handle_chain (Some r) k (Some b) = Inr qs" "ps = c # qs"
      by (auto simp: getHandleParent_def needs_registry_def handle_parent_def elim!: rbind_InrE)
    from Suc.IH [OF qs(1)] Some show ?thesis
      by (simp add: qs(2) upt_conv_Cons map_Suc_upt [symmetric] comp_def del: upt_Suc)
  qed
qed simp

lemma follow_distinct:
  assumes "map (\<lambda>i. follow g i c) [0..<length ps] = map Some ps" "follow g (length ps) c = None"
  shows "distinct ps"
proof -
  have at: "follow g i c = Some (ps ! i)" if "i < length ps" for i
    using assms(1) that by (metis (no_types, lifting) add_0 diff_zero length_map length_upt nth_map nth_upt)
  have "ps ! i \<noteq> ps ! j" if "i < j" "j < length ps" for i j
  proof
    let ?m = "length ps - j"
    assume "ps ! i = ps ! j"
    then have "follow g i c = follow g j c" using at that by simp
    then have "follow g (i + ?m) c = follow g (j + ?m) c" by (simp add: follow_add)
    moreover have "j + ?m = length ps" "i + ?m < length ps" using that by linarith+
    ultimately show False using assms(2) at [of "i + ?m"] by simp
  qed
  then show ?thesis unfolding distinct_conv_nth by (metis linorder_neqE_nat)
qed

text \<open>The parents named in the dictionary are no more than its entries.\<close>

lemma parents_card:
  "finite {b. \<exists>a. handle_parent r a = Some b} \<and> card {b. \<exists>a. handle_parent r a = Some b} \<le> length (typedict r)"
proof -
  let ?f = "\<lambda>e. the (elem_get (doc r) (i_elem (snd e)) ''parent'')"
  have sub: "{b. \<exists>a. handle_parent r a = Some b} \<subseteq> ?f ` set (typedict r)"
    by (force simp: handle_parent_def type_attribute_def split: option.splits dest: map_of_SomeD)
  then have "card {b. \<exists>a. handle_parent r a = Some b} \<le> card (set (typedict r))"
    by (meson List.finite_set card_image_le card_mono finite_imageI order_trans)
  with finite_subset [OF sub] card_length [of "typedict r"] show ?thesis by simp
qed

text \<open>C31: asking for the ancestors of a handle gives its parent, the parent of that, and so on to one that has
  none, each once; or it does not end, and then the parents go round in a circle: the bound of the
  model is never what stops it.\<close>

theorem getHandleAncestors_correct:
  "case getHandleAncestors (Some r) (Some t) of
     Inr ps \<Rightarrow> distinct ps \<and> map (\<lambda>i. follow (handle_parent r) (Suc i) t) [0..<length ps] = map Some ps
       \<and> follow (handle_parent r) (Suc (length ps)) t = None
   | Inl e \<Rightarrow> e = Diverges \<and> (\<forall>k. follow (handle_parent r) k t \<noteq> None)"
proof (cases "handle_parent r t")
  case None
  then show ?thesis
    by (simp add: getHandleAncestors_def iterateHandleAncestors_def getHandleParent_def needs_registry_def handle_parent_def)
next
  case (Some p)
  let ?n = "Suc (length (typedict r))"
  have eq: "getHandleAncestors (Some r) (Some t) = handle_chain (Some r) ?n (Some p)"
    using Some
    by (simp add: getHandleAncestors_def iterateHandleAncestors_def getHandleParent_def needs_registry_def handle_parent_def
        del: handle_chain.simps)
  show ?thesis
  proof (cases "handle_chain (Some r) ?n (Some p)")
    case (Inr ps)
    note v = handle_chain_value [OF Inr]
    then have "distinct ps" by (elim conjE) (rule follow_distinct)
    with v show ?thesis by (simp add: eq Inr Some del: upt_Suc handle_chain.simps)
  next
    case (Inl e)
    let ?S = "{b. \<exists>a. handle_parent r a = Some b}"
    from handle_chain_error [OF Inl] have e: "e = Diverges" .
    with Inl have "follow (handle_parent r) ?n p \<noteq> None" using handle_chain_diverges by blast
    then have "follow (handle_parent r) (card ?S) p \<noteq> None"
      using parents_card [of r] by (elim follow_less) simp
    then have all: "follow (handle_parent r) k p \<noteq> None" for k
      using follow_forever [of ?S "handle_parent r" p k] parents_card [of r] Some by blast
    have "follow (handle_parent r) k t \<noteq> None" for k
      using all by (cases k) (simp_all add: Some)
    with e show ?thesis by (simp add: eq Inl del: handle_chain.simps)
  qed
qed

section \<open>Structures that are always valid\<close>

definition member_type :: "registry \<Rightarrow> addr \<Rightarrow> pname" where
  "member_type r m = getElemType (doc r) m None"

definition harmless :: "registry \<Rightarrow> addr \<Rightarrow> bool" where
  "harmless r m \<longleftrightarrow>
     getElemName (doc r) m None \<notin> {Some ''sType'', Some ''pNext''} \<and> \<not> truthy (elem_get (doc r) m ''noautovalidity'') \<and>
     member_type r m \<notin> {Some ''void'', Some ''char''} \<and> \<not> paramIsArray (doc r) m \<and> paramIsPointer (doc r) m = Inr False \<and>
     (type_always_valid (member_type r m) \<or> \<not> category_requires_validation (type_attribute r ''category'' (member_type r m)))"

definition holds_structure :: "registry \<Rightarrow> addr \<Rightarrow> bool" where
  "holds_structure r m \<longleftrightarrow>
     \<not> type_always_valid (member_type r m) \<and> type_attribute r ''category'' (member_type r m) \<in> {Some ''struct'', Some ''union''}"

definition members_of :: "registry \<Rightarrow> pname \<Rightarrow> addr list option" where
  "members_of r s = map_option (getMembers (doc r)) (map_of (typedict r) (Name s))"

definition contains :: "registry \<Rightarrow> pname \<Rightarrow> pname \<Rightarrow> bool" where
  "contains r s t \<longleftrightarrow> (\<exists>ms m. members_of r s = Some ms \<and> m \<in> set ms \<and> holds_structure r m \<and> t = member_type r m)"

definition struct_harmless :: "registry \<Rightarrow> pname \<Rightarrow> bool" where
  "struct_harmless r s \<longleftrightarrow>
     \<not> category_requires_validation (type_attribute r ''category'' s) \<and> (\<exists>ms. members_of r s = Some ms \<and> (\<forall>m \<in> set ms. harmless r m))"

text \<open>Why there may be no answer: the depth, a type without an entry, a member without a \<^verbatim>\<open>type\<close>.\<close>

fun no_answer :: "registry \<Rightarrow> nat \<Rightarrow> pname \<Rightarrow> py_error \<Rightarrow> bool" where
  "no_answer r d s RecursionError \<longleftrightarrow> (\<exists>t. (contains r ^^ d) s t)"
| "no_answer r d s AttributeError \<longleftrightarrow>
     (\<exists>t ms m. (contains r)\<^sup>*\<^sup>* s t \<and> members_of r t = Some ms \<and> m \<in> set ms \<and> find_elem (doc r) m ''type'' = None)"
| "no_answer r d s (UserWarning w) \<longleftrightarrow> (\<exists>t. (contains r)\<^sup>*\<^sup>* s t \<and> members_of r t = None)"
| "no_answer r d s _ \<longleftrightarrow> False"

lemma all_members_results:
  "all_members f ms = Inr True \<longleftrightarrow> (\<forall>m \<in> set ms. f m = Inr True)"
  "all_members f ms = Inr False \<Longrightarrow> \<exists>m \<in> set ms. f m = Inr False"
  "all_members f ms = Inl e \<Longrightarrow> \<exists>m \<in> set ms. f m = Inl e"
  by (induction ms) (auto simp: rbind_eq_Inr rbind_eq_Inl split: if_splits)

lemma member_valid_results:
  "member_valid r recur m = Inr True \<longleftrightarrow> harmless r m \<and> (\<not> holds_structure r m \<or> recur (member_type r m) = Inr True)"
  "member_valid r recur m = Inr False \<Longrightarrow> \<not> harmless r m \<or> holds_structure r m \<and> recur (member_type r m) = Inr False"
  "member_valid r recur m = Inl e \<Longrightarrow>
     e = AttributeError \<and> find_elem (doc r) m ''type'' = None \<or> holds_structure r m \<and> recur (member_type r m) = Inl e"
proof -
  have p: "paramIsPointer (doc r) m = Inl e' \<longleftrightarrow> e' = AttributeError \<and> find_elem (doc r) m ''type'' = None" for e'
    by (auto simp: paramIsPointer_def split: option.splits)
  note defs = member_valid_def harmless_def holds_structure_def member_type_def Let_def structtype_member_name_def
    nextpointer_member_name_def getTypeCategory_def needs_registry_def
  show "member_valid r recur m = Inr True \<longleftrightarrow> harmless r m \<and> (\<not> holds_structure r m \<or> recur (member_type r m) = Inr True)"
    by (cases "paramIsPointer (doc r) m") (auto simp: defs category_requires_validation_def CATEGORIES_REQUIRING_VALIDATION_def)
  show "member_valid r recur m = Inr False \<Longrightarrow> \<not> harmless r m \<or> holds_structure r m \<and> recur (member_type r m) = Inr False"
    by (cases "paramIsPointer (doc r) m") (auto simp: defs split: if_splits)
  show "member_valid r recur m = Inl e \<Longrightarrow>
     e = AttributeError \<and> find_elem (doc r) m ''type'' = None \<or> holds_structure r m \<and> recur (member_type r m) = Inl e"
    by (cases "paramIsPointer (doc r) m") (auto simp: defs dest: p [THEN iffD1] split: if_splits)
qed

lemma no_answer_step: "contains r s t \<Longrightarrow> no_answer r d t e \<Longrightarrow> no_answer r (Suc d) s e"
  by (cases e) (auto simp del: relpowp.simps intro: relpowp_Suc_I2 converse_rtranclp_into_rtranclp)

text \<open>The verdict of the loop over the members, given those of the recursive calls.\<close>

lemma members_error:
  assumes "all_members (member_valid r recur) ms = Inl e" "members_of r s = Some ms"
    and "\<And>t. recur t = Inl e \<Longrightarrow> no_answer r d t e"
  shows "no_answer r (Suc d) s e"
proof -
  obtain m where m: "m \<in> set ms" "member_valid r recur m = Inl e" using all_members_results(3) [OF assms(1)] by blast
  from member_valid_results(3) [OF m(2)] show ?thesis
  proof
    assume "e = AttributeError \<and> find_elem (doc r) m ''type'' = None"
    with m(1) assms(2) show ?thesis by auto
  next
    assume h: "holds_structure r m \<and> recur (member_type r m) = Inl e"
    with m(1) assms(2) have "contains r s (member_type r m)" by (auto simp: contains_def)
    with no_answer_step assms(3) h show ?thesis by blast
  qed
qed

lemma members_good:
  assumes "all_members (member_valid r recur) ms = Inr True" "members_of r s = Some ms"
    and "\<not> category_requires_validation (type_attribute r ''category'' s)"
    and "\<And>t. recur t = Inr True \<Longrightarrow> \<not> type_always_valid t \<Longrightarrow> \<forall>u. (contains r)\<^sup>*\<^sup>* t u \<longrightarrow> struct_harmless r u"
    and "(contains r)\<^sup>*\<^sup>* s t"
  shows "struct_harmless r t"
proof -
  have good: "harmless r m" "\<not> holds_structure r m \<or> recur (member_type r m) = Inr True" if "m \<in> set ms" for m
    using assms(1) that by (simp_all add: all_members_results(1) member_valid_results(1))
  from assms(5) show ?thesis
  proof (cases rule: converse_rtranclpE)
    case base
    with assms(2,3) good(1) show ?thesis by (auto simp: struct_harmless_def)
  next
    case (step u)
    then obtain m where "m \<in> set ms" "holds_structure r m" "u = member_type r m" using assms(2) by (auto simp: contains_def)
    with good(2) [of m] assms(4) [of u] step(2) show ?thesis by (auto simp: holds_structure_def)
  qed
qed

lemma members_bad:
  assumes "all_members (member_valid r recur) ms = Inr False" "members_of r s = Some ms"
    and "\<And>t. recur t = Inr False \<Longrightarrow> \<exists>u. (contains r)\<^sup>*\<^sup>* t u \<and> \<not> struct_harmless r u"
  shows "\<exists>u. (contains r)\<^sup>*\<^sup>* s u \<and> \<not> struct_harmless r u"
proof -
  obtain m where m: "m \<in> set ms" "member_valid r recur m = Inr False" using all_members_results(2) [OF assms(1)] by blast
  from member_valid_results(2) [OF m(2)] show ?thesis
  proof
    assume "\<not> harmless r m"
    with m(1) assms(2) have "\<not> struct_harmless r s" by (auto simp: struct_harmless_def)
    then show ?thesis by blast
  next
    assume h: "holds_structure r m \<and> recur (member_type r m) = Inr False"
    with m(1) assms(2) have "contains r s (member_type r m)" by (auto simp: contains_def)
    with h assms(3) [of "member_type r m"] show ?thesis by (blast intro: converse_rtranclp_into_rtranclp)
  qed
qed

text \<open>C32: a structure is declared always valid exactly if its type is known to be, or neither it nor any
  structure or union it contains, at any depth, has a member that needs a check: a structure type or
  a chain pointer, an array, a pointer, or a value of a category that requires validation. Otherwise
  there is no answer for one of three reasons, a chain of containment as long as the stack among them.\<close>

theorem isStructAlwaysValid_correct:
  "case isStructAlwaysValid (Some r) d s of
     Inr b \<Rightarrow> b = (type_always_valid s \<or> (\<forall>t. (contains r)\<^sup>*\<^sup>* s t \<longrightarrow> struct_harmless r t))
   | Inl e \<Rightarrow> no_answer r d s e"
proof (induction d arbitrary: s)
  case (Suc d)
  let ?rec = "isStructAlwaysValid (Some r) d"
  have IH: "b = (type_always_valid t \<or> (\<forall>u. (contains r)\<^sup>*\<^sup>* t u \<longrightarrow> struct_harmless r u))" if "?rec t = Inr b" for t b
    using Suc [of t] that by simp
  have IHe: "no_answer r d t e" if "?rec t = Inl e" for t e using Suc [of t] that by simp
  note defs = needs_registry_def getTypeCategory_def
  show ?case
  proof (cases "type_always_valid s \<or> category_requires_validation (type_attribute r ''category'' s)")
    case True
    then show ?thesis by (auto simp: defs struct_harmless_def)
  next
    case c: False
    show ?thesis
    proof (cases "members_of r s")
      case None
      with c show ?thesis by (auto simp: defs log_error_def members_of_def)
    next
      case (Some ms)
      with c have eq: "isStructAlwaysValid (Some r) (Suc d) s = all_members (member_valid r ?rec) ms"
        by (auto simp: defs members_of_def)
      show ?thesis
      proof (cases "all_members (member_valid r ?rec) ms")
        case (Inl e)
        from members_error [OF Inl Some IHe] show ?thesis unfolding eq Inl by simp
      next
        case (Inr b)
        show ?thesis
        proof (cases b)
          case True
          with Inr have good: "all_members (member_valid r ?rec) ms = Inr True" by simp
          have "struct_harmless r t" if "(contains r)\<^sup>*\<^sup>* s t" for t
            using members_good [OF good Some _ _ that] IH c by blast
          with True show ?thesis unfolding eq Inr by simp
        next
          case False
          with Inr have bad: "all_members (member_valid r ?rec) ms = Inr False" by simp
          have "\<exists>u. (contains r)\<^sup>*\<^sup>* s u \<and> \<not> struct_harmless r u"
            by (rule members_bad [OF bad Some]) (use IH in blast)
          with False c show ?thesis unfolding eq Inr by auto
        qed
      qed
    qed
  qed
qed simp

definition xml :: "string \<Rightarrow> (string \<times> string) list \<Rightarrow> string option \<Rightarrow> string option \<Rightarrow> addr list \<Rightarrow> xnode" where
  "xml t attrs txt tail cs = \<lparr>etag = t, eattrib = attrs, etext = txt, etail = tail, echildren = cs\<rparr>"

definition struct_example :: registry where
  "struct_example = (Registry None)\<lparr>
     doc := [
       xml ''type'' [(''category'', ''struct'')] None None [2],
       xml ''type'' [(''category'', ''struct'')] None None [5],
       xml ''member'' [] None None [3, 4], xml ''type'' [] (Some ''B'') (Some '' '') [], xml ''name'' [] (Some ''b'') None [],
       xml ''member'' [] (Some ''const '') None [6, 7], xml ''type'' [] (Some ''uint32_t'') (Some ''   '') [],
       xml ''name'' [] (Some ''x'') (Some ''[4]'') []],
     typedict := [(Name (Some ''A''), TypeInfo 0), (Name (Some ''B''), TypeInfo 1)]\<rparr>"

theorem isStructAlwaysValid_correct_witness:
  "isStructAlwaysValid (Some struct_example) 3 (Some ''A'') = Inr True \<and> struct_harmless struct_example (Some ''B'')"
proof -
  let ?r = struct_example
  have v: "isStructAlwaysValid (Some ?r) 3 (Some ''A'') = Inr True" by code_simp
  have a: "\<not> type_always_valid (Some ''A'')" "members_of ?r (Some ''A'') = Some [2]" "holds_structure ?r 2"
    "Some ''B'' = member_type ?r 2" by code_simp+
  then have "contains ?r (Some ''A'') (Some ''B'')" by (auto simp: contains_def)
  with isStructAlwaysValid_correct [of ?r 3 "Some ''A''"] v a(1)
  have "struct_harmless ?r (Some ''B'')" by auto
  with v show ?thesis by simp
qed

section \<open>Declarations of members and parameters\<close>

definition solid :: "string \<Rightarrow> string" where
  "solid s = filter (\<lambda>c. \<not> py_isspace c) s"

lemma solid_append [simp]: "solid (s @ t) = solid s @ solid t"
  by (simp add: solid_def)

lemma solid_Nil [simp]: "solid [] = []"
  by (simp add: solid_def)

lemma solid_blank: "\<forall>c \<in> set s. py_isspace c \<Longrightarrow> solid s = []"
  by (simp add: solid_def)

lemma solid_spaces [simp]: "solid (replicate n CHR '' '') = []" "solid indent4 = []" "solid (CHR '' '' # s) = solid s"
  by (simp_all add: solid_def py_isspace_def indent4_def)

lemma solid_dropWhile: "solid (dropWhile py_isspace s) = solid s"
  by (induction s) (simp_all add: solid_def)

lemma solid_rev: "solid (rev s) = rev (solid s)"
  by (simp add: solid_def rev_filter)

lemma solid_rstrip [simp]: "solid (rstrip s) = solid s"
  by (simp add: rstrip_def solid_rev solid_dropWhile)

lemma solid_ljust [simp]: "solid (ljust n s) = solid s"
  by (simp add: ljust_def)

lemma solid_join_words: "solid (py_join '' '' ws) = solid (concat ws)"
proof (induction ws)
  case (Cons w ws)
  then show ?case by (cases ws) simp_all
qed simp

lemma solid_words: "solid (concat (words s)) = solid s"
proof (induction s rule: words.induct)
  case (1 s)
  show ?case
  proof (cases "dropWhile py_isspace s")
    case Nil
    then have "\<forall>c \<in> set s. py_isspace c" by simp
    moreover have "words s = []" by (subst words.simps) (simp only: Nil list.case)
    ultimately show ?thesis by (simp add: solid_blank)
  next
    case (Cons c t)
    have w: "words s = (c # takeWhile (\<lambda>x. \<not> py_isspace x) t) # words (dropWhile (\<lambda>x. \<not> py_isspace x) t)"
      by (subst words.simps) (simp add: Cons)
    have "solid s = solid (c # t)" using solid_dropWhile [of s] Cons by simp
    also have "\<dots> = solid ((c # takeWhile (\<lambda>x. \<not> py_isspace x) t) @ dropWhile (\<lambda>x. \<not> py_isspace x) t)" by simp
    also have "\<dots> = solid (concat (words s))" by (simp only: w concat.simps solid_append 1 [OF Cons])
    finally show ?thesis by simp
  qed
qed

lemma solid_squeeze [simp]: "solid (squeeze s) = solid s"
  by (simp add: squeeze_def solid_join_words solid_words)

text \<open>What is in the children of an element, without what is inside theirs.\<close>

definition inner_text :: "store \<Rightarrow> addr list \<Rightarrow> string" where
  "inner_text st es = concat (map (\<lambda>c. noneStr (elem_text st c) @ noneStr (elem_tail st c)) es)"

lemma inner_text_simps [simp]:
  "inner_text st [] = []"
  "inner_text st (c # es) = noneStr (elem_text st c) @ noneStr (elem_tail st c) @ inner_text st es"
  by (simp_all add: inner_text_def)

text \<open>Where a leading \<open>const\<close> is not moved behind the type, as the MISRA C++ style does it.\<close>

definition in_place :: "misra_style \<Rightarrow> string \<Rightarrow> bool" where
  "in_place sty pre \<longleftrightarrow> \<not> (style_cpp sty \<and> py_in ''const '' pre)"

lemma in_place_Nil [simp]: "in_place sty []"
  by (simp add: in_place_def)

lemma param_step_plain:
  "in_place sty pre \<Longrightarrow> param_step sty st col e (decl, pre) =
     ((if elem_tag st e = ''name'' \<and> col > 0 then ljust (col - 1) (rstrip decl) @ '' '' else decl)
        @ pre @ noneStr (elem_text st e) @ noneStr (elem_tail st e), [])"
  by (auto simp: param_step_def in_place_def child_text_def child_tail_def should_insert_may_alias_macro_def Let_def)

lemma param_fold_solid:
  "fold (param_step sty st col) es (decl, pre) = (decl', pre') \<Longrightarrow> in_place sty pre \<Longrightarrow>
     solid (decl' @ pre') = solid (decl @ pre) @ solid (inner_text st es)"
  by (induction es arbitrary: decl pre) (simp_all add: param_step_plain split: if_splits)

lemma param_fold_nameless:
  "\<forall>e \<in> set es. elem_tag st e \<noteq> ''name'' \<Longrightarrow> in_place sty pre \<Longrightarrow>
     fold (param_step sty st col) es (decl, pre) = (if es = [] then (decl, pre) else (decl @ pre @ inner_text st es, []))"
  by (induction es arbitrary: decl pre) (simp_all add: param_step_plain)

lemma length_fold_nameless:
  "\<forall>e \<in> set es. elem_tag st e \<noteq> ''name'' \<Longrightarrow> fold (length_step st) es (n, decl) = (n, decl @ inner_text st es)"
  by (induction es arbitrary: decl)
    (simp_all add: length_step_def child_text_def child_tail_def should_insert_may_alias_macro_def)

text \<open>C33: the declaration of a member or parameter is the text of the element with only white space changed,
  unless a \<open>const\<close> is moved, and its name begins at the column asked for, or one past the type if the type is too long, the length
  of the type being what \<^verbatim>\<open>getCParamTypeLength\<close> gives.\<close>

theorem makeCParamDecl_layout:
  assumes "makeCParamDecl sty opts st param col = Inr s" and "col > 0"
    and "elem_children st param = before @ n # after" "before \<noteq> []" "elem_tag st n = ''name''"
    and "\<forall>e \<in> set before \<union> set after. elem_tag st e \<noteq> ''name''"
    and place: "in_place sty (noneStr (elem_text st param))"
  shows "solid s = solid (noneStr (elem_text st param) @ inner_text st (elem_children st param)) \<and>
    (\<exists>len left rest. getCParamTypeLength opts st param = Inr len \<and> s = left @ noneStr (elem_text st n) @ rest \<and>
       int (length left) = max col (int len + 1))"
proof -
  let ?t = "noneStr (elem_text st param)"
  let ?head = "indent4 @ ?t @ inner_text st before"
  obtain g v where g: "opts = Some g" "conventions g = Some v"
    using assms(1) by (auto simp: makeCParamDecl_def need_options_def missing_options_def missing_conventions_def split: option.splits if_splits)
  obtain decl pre where f: "fold (param_step sty st col) (elem_children st param) (indent4, ?t) = (decl, pre)"
    using prod.exhaust by blast
  with assms(1,2) g have s: "s = decl @ pre" by (simp add: makeCParamDecl_def need_options_def)
  have "solid s = solid (?t @ inner_text st (elem_children st param))" using param_fold_solid [OF f place] by (simp add: s)
  moreover have "getCParamTypeLength opts st param = Inr (length (rstrip ?head))"
    using assms(3,5,6) g
    by (simp add: getCParamTypeLength_def need_options_def length_fold_nameless)
      (simp add: length_step_def length_fold_nameless)
  moreover have "s = (ljust (col - 1) (rstrip ?head) @ '' '') @ noneStr (elem_text st n) @ noneStr (elem_tail st n) @ inner_text st after"
    using f assms(2-6) place by (auto simp: s param_fold_nameless param_step_plain split: if_splits)
  moreover have "int (length (ljust (col - 1) (rstrip ?head) @ '' '')) = max col (int (length (rstrip ?head)) + 1)"
    using assms(2) by (simp add: ljust_def)
  ultimately show ?thesis by blast
qed

theorem makeCParamDecl_layout_witness:
  "makeCParamDecl base_style (Some plain_options) (doc struct_example) 5 24 = Inr ''    const uint32_t      x[4]'' \<and>
   getCParamTypeLength (Some plain_options) (doc struct_example) 5 = Inr 18"
proof -
  let ?o = "Some plain_options" and ?st = "doc struct_example"
  have m: "makeCParamDecl base_style ?o ?st 5 24 = Inr ''    const uint32_t      x[4]''" by code_simp
  have "elem_children ?st 5 = [6] @ 7 # []" "elem_tag ?st 7 = ''name''" "elem_tag ?st 6 \<noteq> ''name''" by code_simp+
  with makeCParamDecl_layout [OF m _ this(1) _ this(2)] have
    "\<exists>len. getCParamTypeLength ?o ?st 5 = Inr len" by (auto simp: in_place_def base_style_def gen_misracppstyle_def)
  moreover have "getCParamTypeLength ?o ?st 5 = Inr 18" by code_simp
  ultimately show ?thesis using m by simp
qed

end
