(* ===== verification/ConvObject.thy ===== *)
theory ConvObject
  imports Conventions
begin

text \<open>
  The conventions as an object of a class: the attributes that \<^verbatim>\<open>ConventionsBase\<close>
  (\<^verbatim>\<open>src/tools/vkex/spec_tools/conventions.py\<close>) declares, those that \<^verbatim>\<open>VulkanConventions\<close>
  (\<^verbatim>\<open>src/tools/vkex/vkconventions.py\<close>) overrides, the check for abstract members when an object is made, and the
  two prefixes that are computed when they are first read and kept in the object. The lemmas show that
  the object hides this: what is read does not depend on what was read before.
\<close>

section \<open>The settings\<close>

definition should_skip_checking_codes :: bool where
  "should_skip_checking_codes = True"

definition base_should_skip_checking_codes :: bool where
  "base_should_skip_checking_codes = False"

definition generate_index_terms :: bool where
  "generate_index_terms = False"

definition generate_enum_table :: bool where
  "generate_enum_table = False"

definition provisional_extension_warning :: bool where
  "provisional_extension_warning = True"

definition generated_include_path :: string where
  "generated_include_path = ''{generated}''"

definition include_extension_appendix_in_refpage :: bool where
  "include_extension_appendix_in_refpage = True"

definition duplicate_aliased_structs :: bool where
  "duplicate_aliased_structs = False"

definition protectProtoComment :: bool where
  "protectProtoComment = False"

definition base_extra_refpage_headers :: string where
  "base_extra_refpage_headers = []"

definition base_extra_refpage_body :: string where
  "base_extra_refpage_body = []"

definition extra_refpage_headers :: string where
  "extra_refpage_headers = ''include::{config}/attribs.adoc[]''"

definition extra_refpage_body :: string where
  "extra_refpage_body = ''include::{generated}/specattribs.adoc[]''"

definition required_errors :: "string list" where
  "required_errors = []"

definition write_contacts :: bool where
  "write_contacts = True"

definition write_refpage_include :: bool where
  "write_refpage_include = True"

definition registry_path :: string where
  "registry_path = ''xml/vk.xml''"

definition specification_path :: string where
  "specification_path = ''{generated}/meta''"

definition special_use_section_anchor :: string where
  "special_use_section_anchor = ''extendingvulkan-compatibility-specialuse''"

definition unified_flag_refpages :: bool where
  "unified_flag_refpages = False"

definition spec_no_reflow_dirs :: "string list" where
  "spec_no_reflow_dirs = [''scripts'', ''style'']"

text \<open>Methods that no class overrides, or that only the subclass has.\<close>

definition writeFeature :: "pname \<Rightarrow> pname \<Rightarrow> bool" where
  "writeFeature featureExtraProtect file = True"

definition requires_error_validation :: "addr \<Rightarrow> bool" where
  "requires_error_validation return_type = False"

definition base_valid_flag_bit :: "int \<Rightarrow> bool" where
  "base_valid_flag_bit bitpos = True"

definition base_formatExtension :: "string \<Rightarrow> string" where
  "base_formatExtension name = ''`<<'' @ name @ ''>>`''"

definition specURL :: "pname \<Rightarrow> string" where
  "specURL spectype = ''https://registry.khronos.org/vulkan/specs/1.3-extensions/html/vkspec.html''"

section \<open>The classes\<close>

datatype conv_value = VStr string | VBool bool | VList "string list" | VTuple "string list" | VNone | VMethod string

text \<open>
  A property has a constant value, returns an attribute of the object (with a text after it), or computes
  a prefix; an abstract one raises. A method is read as a bound method. \<open>cwd\<close> is the working directory.
\<close>

datatype conv_member = Const conv_value | SelfPlus string string | SelfAttr string | CommandPrefix | TypePrefix
  | Method | Abstract | AbstractMethod

definition base_markup_members :: "(string \<times> conv_member) list" where
  "base_markup_members =
     [(''formatExtension'', Method), (''null'', Abstract), (''makeProseList'', Method),
      (''struct_macro'', Const (VStr ''slink:'')), (''external_macro'', Const (VStr external_macro)),
      (''structtype_member_name'', Abstract), (''nextpointer_member_name'', Abstract), (''xml_api_name'', Abstract),
      (''generate_structure_type_from_name'', AbstractMethod), (''makeStructName'', Method),
      (''makeExternalTypeName'', Method), (''_implMakeProseList'', Method)]"

definition base_prefix_members :: "(string \<times> conv_member) list" where
  "base_prefix_members =
     [(''file_suffix'', Abstract), (''api_name'', AbstractMethod), (''should_insert_may_alias_macro'', Method),
      (''command_prefix'', CommandPrefix), (''type_prefix'', TypePrefix), (''api_prefix'', Abstract),
      (''api_version_prefix'', SelfPlus ''api_prefix'' ''VERSION_''), (''KHR_prefix'', SelfPlus ''api_prefix'' ''KHR_''),
      (''EXT_prefix'', SelfPlus ''api_prefix'' ''EXT_'')]"

definition base_page_members :: "(string \<times> conv_member) list" where
  "base_page_members =
     [(''writeFeature'', Method), (''requires_error_validation'', Method), (''required_errors'', Const (VList required_errors)),
      (''is_voidpointer_alias'', Method), (''make_voidpointer_alias'', Method), (''category_requires_validation'', Method),
      (''type_always_valid'', Method), (''should_skip_checking_codes'', Const (VBool base_should_skip_checking_codes)),
      (''generate_index_terms'', Const (VBool generate_index_terms)), (''generate_enum_table'', Const (VBool generate_enum_table)),
      (''generate_max_enum_in_docs'', Const (VBool (generate_max_enum_in_docs VulkanConventions))),
      (''extension_file_path'', AbstractMethod), (''extension_include_string'', Method),
      (''provisional_extension_warning'', Const (VBool provisional_extension_warning)),
      (''generated_include_path'', Const (VStr generated_include_path)),
      (''include_extension_appendix_in_refpage'', Const (VBool include_extension_appendix_in_refpage)),
      (''valid_flag_bit'', Method), (''duplicate_aliased_structs'', Const (VBool duplicate_aliased_structs)),
      (''protectProtoComment'', Const (VBool protectProtoComment)),
      (''extra_refpage_headers'', Const (VStr base_extra_refpage_headers)),
      (''extra_refpage_body'', Const (VStr base_extra_refpage_body)), (''is_api_version_name'', Method)]"

definition ConventionsBase_members :: "(string \<times> conv_member) list" where
  "ConventionsBase_members = base_markup_members @ base_prefix_members @ base_page_members"

definition vulkan_name_members :: "(string \<times> conv_member) list" where
  "vulkan_name_members =
     [(''null'', Const (VStr null_markup)), (''formatExtension'', Method), (''struct_macro'', Const (VStr struct_macro)),
      (''constFlagBits'', Const (VBool (constFlagBits VulkanConventions))),
      (''structtype_member_name'', Const (VStr structtype_member_name)),
      (''nextpointer_member_name'', Const (VStr nextpointer_member_name)),
      (''valid_pointer_prefix'', Const (VStr valid_pointer_prefix)), (''is_structure_type_member'', Method),
      (''is_nextpointer_member'', Method), (''generate_structure_type_from_name'', Method),
      (''warning_comment'', Const (VStr warning_comment)), (''file_suffix'', Const (VStr file_suffix)),
      (''api_name'', Method), (''api_prefix'', Const (VStr api_prefix))]"

definition vulkan_page_members :: "string \<Rightarrow> (string \<times> conv_member) list" where
  "vulkan_page_members cwd =
     [(''write_contacts'', Const (VBool write_contacts)), (''write_refpage_include'', Const (VBool write_refpage_include)),
      (''member_used_for_unique_vuid'', SelfAttr ''structtype_member_name''), (''is_externsync_command'', Method),
      (''is_api_name'', Method), (''specURL'', Method), (''xml_api_name'', Const (VStr (xml_api_name VulkanConventions))),
      (''registry_path'', Const (VStr registry_path)), (''specification_path'', Const (VStr specification_path)),
      (''special_use_section_anchor'', Const (VStr special_use_section_anchor)),
      (''extension_index_prefixes'', Const (VList extension_index_prefixes)),
      (''unified_flag_refpages'', Const (VBool unified_flag_refpages)), (''spec_reflow_path'', Const (VStr cwd)),
      (''spec_no_reflow_dirs'', Const (VTuple spec_no_reflow_dirs)), (''zero'', Const (VStr zero_markup)),
      (''category_requires_validation'', Method), (''should_skip_checking_codes'', Const (VBool should_skip_checking_codes)),
      (''extension_file_path'', Method), (''valid_flag_bit'', Method),
      (''extra_refpage_headers'', Const (VStr extra_refpage_headers)), (''extra_refpage_body'', Const (VStr extra_refpage_body))]"

definition class_member :: "string \<Rightarrow> string \<Rightarrow> conv_member option" where
  "class_member cwd name =
     (case map_of (vulkan_name_members @ vulkan_page_members cwd) name of
        Some m \<Rightarrow> Some m
      | None \<Rightarrow> map_of ConventionsBase_members name)"

section \<open>The object\<close>

record conv_object =
  kept_command_prefix :: "string option"
  kept_type_prefix :: "string option"

definition is_abstract :: "conv_member option \<Rightarrow> bool" where
  "is_abstract m \<longleftrightarrow> m = Some Abstract \<or> m = Some AbstractMethod"

text \<open>An object of a class with abstract members cannot be made.\<close>

definition new_conventions :: "string \<Rightarrow> conv_object res" where
  "new_conventions cwd =
     (if \<exists>n \<in> set (map fst ConventionsBase_members). is_abstract (class_member cwd n) then Inl TypeError
      else Inr \<lparr>kept_command_prefix = None, kept_type_prefix = None\<rparr>)"

definition as_string :: "conv_value \<Rightarrow> string res" where
  "as_string v = (case v of VStr s \<Rightarrow> Inr s | _ \<Rightarrow> Inl TypeError)"

definition kept :: "string option \<Rightarrow> conv_value" where
  "kept s = (case s of None \<Rightarrow> VNone | Some t \<Rightarrow> VStr t)"

text \<open>Reading an attribute, with the recursion limit; the methods of \<^verbatim>\<open>object\<close> are left out.\<close>

fun conv_read :: "nat \<Rightarrow> string \<Rightarrow> string \<Rightarrow> conv_object \<Rightarrow> (conv_value \<times> conv_object) res" where
  "conv_read 0 cwd name self = Inl RecursionError"
| "conv_read (Suc d) cwd name self =
     (case class_member cwd name of
        None \<Rightarrow>
          if name = ''_command_prefix'' then Inr (kept (kept_command_prefix self), self)
          else if name = ''_type_prefix'' then Inr (kept (kept_type_prefix self), self)
          else Inl AttributeError
      | Some (Const v) \<Rightarrow> Inr (v, self)
      | Some (SelfAttr a) \<Rightarrow> conv_read d cwd a self
      | Some (SelfPlus a txt) \<Rightarrow>
          rbind (conv_read d cwd a self) (\<lambda>(v, self). rbind (as_string v) (\<lambda>s. Inr (VStr (s @ txt), self)))
      | Some CommandPrefix \<Rightarrow>
          rbind (if truthy (kept_command_prefix self) then Inr self
                 else rbind (conv_read d cwd ''api_prefix'' self) (\<lambda>(v, self). rbind (as_string v) (\<lambda>s.
                      Inr (self\<lparr>kept_command_prefix := Some (py_lower (filter (\<lambda>c. c \<noteq> CHR ''_'') s))\<rparr>)))) (\<lambda>self.
          Inr (kept (kept_command_prefix self), self))
      | Some TypePrefix \<Rightarrow>
          rbind (if truthy (kept_type_prefix self) then Inr self
                 else rbind (conv_read d cwd ''command_prefix'' self) (\<lambda>(v, self). rbind (as_string v) (\<lambda>s.
                      rbind (conv_read d cwd ''command_prefix'' self) (\<lambda>(w, self). rbind (as_string w) (\<lambda>t.
                      Inr (self\<lparr>kept_type_prefix := Some (py_upper (take 1 s) @ drop 1 t)\<rparr>)))))) (\<lambda>self.
          Inr (kept (kept_type_prefix self), self))
      | Some Method \<Rightarrow> Inr (VMethod name, self)
      | Some Abstract \<Rightarrow> Inl NotImplementedError
      | Some AbstractMethod \<Rightarrow> Inr (VMethod name, self))"

declare conv_read.simps [simp del]

fun conv_reads :: "nat \<Rightarrow> string \<Rightarrow> string list \<Rightarrow> conv_object \<Rightarrow> (conv_value list \<times> conv_object) res" where
  "conv_reads d cwd [] self = Inr ([], self)"
| "conv_reads d cwd (n # names) self =
     rbind (conv_read d cwd n self) (\<lambda>(v, self).
     rbind (conv_reads d cwd names self) (\<lambda>(vs, self). Inr (v # vs, self)))"

section \<open>What is read\<close>

text \<open>The attributes that are computed from others, as the constants of theory Conventions, and all others.\<close>

definition derived :: "(string \<times> conv_value) list" where
  "derived =
     [(''command_prefix'', VStr command_prefix), (''type_prefix'', VStr type_prefix),
      (''api_version_prefix'', VStr api_version_prefix), (''KHR_prefix'', VStr KHR_prefix), (''EXT_prefix'', VStr EXT_prefix),
      (''member_used_for_unique_vuid'', VStr member_used_for_unique_vuid)]"

definition setting :: "string \<Rightarrow> string \<Rightarrow> conv_value" where
  "setting cwd n =
     (case map_of derived n of
        Some v \<Rightarrow> v
      | None \<Rightarrow> (case class_member cwd n of Some (Const v) \<Rightarrow> v | _ \<Rightarrow> VMethod n))"

definition plain_member :: "conv_member \<Rightarrow> bool" where
  "plain_member m = (case m of Const v \<Rightarrow> True | Method \<Rightarrow> True | _ \<Rightarrow> False)"

lemma plain_members:
  "list_all (\<lambda>(k, m). plain_member m \<or> k \<in> set (map fst derived)) (vulkan_name_members @ vulkan_page_members cwd)"
  by (simp add: vulkan_name_members_def vulkan_page_members_def plain_member_def derived_def)

lemma overridden_members:
  "list_all (\<lambda>(k, m). plain_member m \<or> k \<in> set (map fst derived) \<or>
      k \<in> set (map fst (vulkan_name_members @ vulkan_page_members cwd))) ConventionsBase_members"
  by (simp add: ConventionsBase_members_def base_markup_members_def base_prefix_members_def base_page_members_def
      vulkan_name_members_def vulkan_page_members_def plain_member_def derived_def)

lemma class_member_plain:
  assumes "class_member cwd n = Some m" and "map_of derived n = None" shows "plain_member m"
proof (cases "map_of (vulkan_name_members @ vulkan_page_members cwd) n")
  case None
  then have "map_of ConventionsBase_members n = Some m" using assms(1) unfolding class_member_def None by simp
  then have "(n, m) \<in> set ConventionsBase_members" by (rule map_of_SomeD)
  with overridden_members [of cwd] None assms(2) show ?thesis
    unfolding list_all_iff map_of_eq_None_keys by fastforce
next
  case (Some a)
  then have "(n, m) \<in> set (vulkan_name_members @ vulkan_page_members cwd)"
    using assms(1) map_of_SomeD [OF Some] unfolding class_member_def Some by simp
  with plain_members [of cwd] assms(2) show ?thesis
    unfolding list_all_iff map_of_eq_None_keys by fastforce
qed

lemma class_member_derived:
  "class_member cwd ''api_prefix'' = Some (Const (VStr api_prefix))"
  "class_member cwd ''structtype_member_name'' = Some (Const (VStr structtype_member_name))"
  "class_member cwd ''command_prefix'' = Some CommandPrefix" "class_member cwd ''type_prefix'' = Some TypePrefix"
  "class_member cwd ''api_version_prefix'' = Some (SelfPlus ''api_prefix'' ''VERSION_'')"
  "class_member cwd ''KHR_prefix'' = Some (SelfPlus ''api_prefix'' ''KHR_'')"
  "class_member cwd ''EXT_prefix'' = Some (SelfPlus ''api_prefix'' ''EXT_'')"
  "class_member cwd ''member_used_for_unique_vuid'' = Some (SelfAttr ''structtype_member_name'')"
  by (simp_all add: class_member_def vulkan_name_members_def vulkan_page_members_def ConventionsBase_members_def
      base_markup_members_def base_prefix_members_def)

definition conv_ok :: "conv_object \<Rightarrow> bool" where
  "conv_ok self \<longleftrightarrow> kept_command_prefix self \<in> {None, Some command_prefix} \<and> kept_type_prefix self \<in> {None, Some type_prefix}"

lemma prefixes: "command_prefix = ''vk''" "type_prefix = ''Vk''"
  by code_simp+

lemma read_command_prefix:
  assumes "conv_ok self"
  shows "\<exists>self'. conv_read (Suc (Suc d)) cwd ''command_prefix'' self = Inr (VStr command_prefix, self') \<and> conv_ok self' \<and>
    kept_type_prefix self' = kept_type_prefix self"
  using assms
  by (cases "kept_command_prefix self")
    (auto simp: conv_read.simps class_member_derived as_string_def kept_def conv_ok_def command_prefix_def [symmetric] prefixes)

lemma read_derived:
  assumes "conv_ok self" and "map_of derived n = Some v"
  shows "\<exists>self'. conv_read (Suc (Suc (Suc d))) cwd n self = Inr (v, self') \<and> conv_ok self'"
proof -
  have t: "\<exists>self'. conv_read (Suc (Suc (Suc d))) cwd ''type_prefix'' self = Inr (VStr type_prefix, self') \<and> conv_ok self'"
  proof (cases "kept_type_prefix self")
    case None
    obtain s1 where s1: "conv_read (Suc (Suc d)) cwd ''command_prefix'' self = Inr (VStr command_prefix, s1)" "conv_ok s1"
      using read_command_prefix [OF assms(1)] by blast
    obtain s2 where s2: "conv_read (Suc (Suc d)) cwd ''command_prefix'' s1 = Inr (VStr command_prefix, s2)" "conv_ok s2"
      using read_command_prefix [OF s1(2)] by blast
    show ?thesis
      using None s1(1) s2 by (simp add: conv_read.simps(2) [of "Suc (Suc d)"] class_member_derived as_string_def kept_def conv_ok_def)
        (simp add: type_prefix_def)
  next
    case (Some p)
    with assms(1) show ?thesis by (auto simp: conv_read.simps class_member_derived kept_def conv_ok_def prefixes)
  qed
  consider "n = ''command_prefix''" "v = VStr command_prefix" | "n = ''type_prefix''" "v = VStr type_prefix"
    | "n = ''api_version_prefix''" "v = VStr api_version_prefix" | "n = ''KHR_prefix''" "v = VStr KHR_prefix"
    | "n = ''EXT_prefix''" "v = VStr EXT_prefix"
    | "n = ''member_used_for_unique_vuid''" "v = VStr member_used_for_unique_vuid"
    using assms(2) by (auto simp: derived_def split: if_splits)
  then show ?thesis
  proof cases
    case 1
    then show ?thesis using read_command_prefix [OF assms(1), of "Suc d"] by blast
  next
    case 2
    then show ?thesis using t by blast
  qed (use assms(1) in \<open>simp_all add: conv_read.simps class_member_derived as_string_def api_version_prefix_def KHR_prefix_def
      EXT_prefix_def member_used_for_unique_vuid_def\<close>)
qed

lemma read_setting:
  assumes "conv_ok self" and "\<not> prefix ''_'' n"
  shows "if class_member cwd n = None then conv_read (Suc (Suc (Suc d))) cwd n self = Inl AttributeError
    else \<exists>self'. conv_read (Suc (Suc (Suc d))) cwd n self = Inr (setting cwd n, self') \<and> conv_ok self'"
proof (cases "map_of derived n")
  case None
  show ?thesis
  proof (cases "class_member cwd n")
    case none: None
    moreover have "n \<noteq> ''_command_prefix''" "n \<noteq> ''_type_prefix''" using assms(2) by auto
    ultimately show ?thesis by (simp add: conv_read.simps)
  next
    case (Some m)
    with class_member_plain [OF Some None] None assms(1) show ?thesis
      by (cases m) (auto simp: plain_member_def conv_read.simps setting_def)
  qed
next
  case (Some v)
  then obtain m where "class_member cwd n = Some m" by (auto simp: derived_def class_member_derived split: if_splits)
  with read_derived [OF assms(1) Some] Some show ?thesis by (simp add: setting_def)
qed

lemma no_abstract: "new_conventions cwd = Inr \<lparr>kept_command_prefix = None, kept_type_prefix = None\<rparr>"
proof -
  have "\<not> is_abstract (class_member cwd n)" for n
  proof (cases "map_of derived n")
    case None
    then show ?thesis using class_member_plain [of cwd n]
      by (cases "class_member cwd n") (auto simp: is_abstract_def plain_member_def)
  next
    case (Some v)
    then show ?thesis by (auto simp: derived_def class_member_derived is_abstract_def split: if_splits)
  qed
  then show ?thesis by (simp add: new_conventions_def)
qed

text \<open>C29: the object of the conventions can be made, for every abstract member is overridden; and whatever public
  attributes are read from it, in whatever order and however often, a stack of three frames is enough, no
  read raises \<^verbatim>\<open>NotImplementedError\<close>, and each gives the setting of the class, the prefixes that are kept in the
  object included. Only an attribute that no class declares raises; \<^verbatim>\<open>formatVersionOrExtension\<close>, which the
  markup of dependencies calls, is one of them.\<close>

theorem conventions_reads:
  assumes "\<forall>n \<in> set names. \<not> prefix ''_'' n"
  shows "\<exists>self. new_conventions cwd = Inr self \<and>
    (if \<forall>n \<in> set names. class_member cwd n \<noteq> None
     then \<exists>self'. conv_reads (3 + d) cwd names self = Inr (map (setting cwd) names, self')
     else conv_reads (3 + d) cwd names self = Inl AttributeError) \<and>
    class_member cwd ''formatVersionOrExtension'' = None"
proof -
  have "if \<forall>n \<in> set names. class_member cwd n \<noteq> None
     then \<exists>self'. conv_reads (3 + d) cwd names self = Inr (map (setting cwd) names, self')
     else conv_reads (3 + d) cwd names self = Inl AttributeError" if "conv_ok self" for self
    using assms that
  proof (induction names arbitrary: self)
    case (Cons n names)
    have three: "3 + d = Suc (Suc (Suc d))" by simp
    have n: "\<not> prefix ''_'' n" and ns: "\<forall>n \<in> set names. \<not> prefix ''_'' n" using Cons.prems(1) by simp_all
    note r = read_setting [OF Cons.prems(2) n, of cwd d, folded three]
    show ?case
    proof (cases "class_member cwd n")
      case None
      with r show ?thesis by simp
    next
      case (Some m)
      with r obtain s where s: "conv_read (3 + d) cwd n self = Inr (setting cwd n, s)" "conv_ok s" by auto
      from Cons.IH [OF ns s(2)] Some s(1) show ?thesis by (auto split: if_splits)
    qed
  qed simp
  moreover have "class_member cwd ''formatVersionOrExtension'' = None"
    by (simp add: class_member_def vulkan_name_members_def vulkan_page_members_def ConventionsBase_members_def
        base_markup_members_def base_prefix_members_def base_page_members_def)
  ultimately show ?thesis by (simp add: no_abstract conv_ok_def)
qed

theorem conventions_reads_witness:
  "\<exists>self self'. new_conventions ''/src'' = Inr self \<and>
     conv_reads 3 ''/src'' [''type_prefix'', ''command_prefix'', ''type_prefix''] self
       = Inr ([VStr ''Vk'', VStr ''vk'', VStr ''Vk''], self')"
proof -
  have "map (setting c) [''type_prefix'', ''command_prefix'', ''type_prefix''] = [VStr ''Vk'', VStr ''vk'', VStr ''Vk'']" for c
    by (simp add: setting_def derived_def prefixes)
  with conventions_reads [of "[''type_prefix'', ''command_prefix'', ''type_prefix'']" "''/src''" 0] show ?thesis
    by (auto simp: class_member_derived)
qed

end
