(* ===== verification/RunTests.thy ===== *)
theory RunTests
  imports Numbers
begin

text \<open>
  The test runner \<^verbatim>\<open>src/tools/run_tests.py\<close>: it reads the tests that \<^verbatim>\<open>ctest\<close> lists, puts them into an
  order in which every test comes after those it depends on, runs them one by one and exits with
  the number of failures. The output of \<^verbatim>\<open>ctest\<close>, decoded from JSON, and the return code of a test
  command are parameters. Of the properties of a test only \<^verbatim>\<open>DEPENDS\<close> is read, whose value is a list of names.
\<close>

section \<open>The tests\<close>

record test_property =
  p_name :: string
  p_value :: "string list"

record test =
  t_name :: string
  t_command :: "string list"
  t_properties :: "test_property list option"

fun find_test :: "test list \<Rightarrow> string \<Rightarrow> test res" where
  "find_test [] name = Inl KeyError"
| "find_test (t # tests) name = (if t_name t = name then Inr t else find_test tests name)"

fun depends_value :: "test_property list \<Rightarrow> string list" where
  "depends_value [] = []"
| "depends_value (p # ps) = (if p_name p = ''DEPENDS'' then p_value p else depends_value ps)"

definition test_dependencies :: "test \<Rightarrow> string list" where
  "test_dependencies t = (case t_properties t of None \<Rightarrow> [] | Some ps \<Rightarrow> depends_value ps)"

section \<open>The sequence\<close>

text \<open>\<open>d\<close> is the number of frames the stack has left.\<close>

fun add_to_sequence :: "test list \<Rightarrow> nat \<Rightarrow> string \<Rightarrow> string list \<Rightarrow> string list res" where
  "add_to_sequence tests 0 test_name sequence = Inl RecursionError"
| "add_to_sequence tests (Suc d) test_name sequence =
     (if test_name \<in> set sequence then Inr sequence
      else
        rbind (find_test tests test_name) (\<lambda>t.
        rbind (for_each (add_to_sequence tests d) (test_dependencies t) sequence) (\<lambda>sequence.
        Inr (sequence @ [test_name]))))"

definition test_sequence :: "test list \<Rightarrow> nat \<Rightarrow> string list res" where
  "test_sequence tests d = for_each (add_to_sequence tests d) (map t_name tests) []"

section \<open>The run\<close>

text \<open>\<open>run\<close> gives the return code of a command; what is printed is a list of lines.\<close>

definition run_test :: "(string list \<Rightarrow> int) \<Rightarrow> test list \<Rightarrow> string \<Rightarrow> nat \<times> string list \<Rightarrow> (nat \<times> string list) res" where
  "run_test run tests test_name s = (case s of (num_failures, out) \<Rightarrow>
     rbind (find_test tests test_name) (\<lambda>t.
     let retcode = run (t_command t); out = out @ [''Running test '' @ test_name] in
     Inr (if retcode \<noteq> 0
          then (num_failures + 1, out @ [''Test '' @ test_name @ '' failed with exit code '' @ show_int retcode, []])
          else (num_failures, out @ [''Test '' @ test_name @ '' passed'', []]))))"

text \<open>The number of failures, with which the script exits, and what it printed for the tests.\<close>

definition run_tests :: "(string list \<Rightarrow> int) \<Rightarrow> nat \<Rightarrow> test list \<Rightarrow> (nat \<times> string list) res" where
  "run_tests run d tests =
     rbind (test_sequence tests d) (\<lambda>sequence. for_each (run_test run tests) sequence (0, []))"

text \<open>What the operating system keeps of \<^verbatim>\<open>exit(n)\<close>.\<close>

definition exit_status :: "nat \<Rightarrow> nat" where
  "exit_status n = n mod 256"

section \<open>The order\<close>

definition test_names :: "test list \<Rightarrow> string set" where
  "test_names tests = set (map t_name tests)"

definition dependencies_of :: "test list \<Rightarrow> string \<Rightarrow> string list" where
  "dependencies_of tests n = (case find_test tests n of Inl _ \<Rightarrow> [] | Inr t \<Rightarrow> test_dependencies t)"

definition needs_test :: "test list \<Rightarrow> string \<Rightarrow> string \<Rightarrow> bool" where
  "needs_test tests n m \<longleftrightarrow> m \<in> set (dependencies_of tests n)"

text \<open>Every test of the list comes once, and after those it needs.\<close>

definition in_order :: "test list \<Rightarrow> string list \<Rightarrow> bool" where
  "in_order tests seq \<longleftrightarrow> distinct seq \<and> set seq \<subseteq> test_names tests \<and>
     (\<forall>before n after. seq = before @ n # after \<longrightarrow> set (dependencies_of tests n) \<subseteq> set before)"

lemma in_orderI:
  "distinct seq \<Longrightarrow> set seq \<subseteq> test_names tests \<Longrightarrow>
     (\<And>before n after. seq = before @ n # after \<Longrightarrow> set (dependencies_of tests n) \<subseteq> set before) \<Longrightarrow> in_order tests seq"
  unfolding in_order_def by blast

lemma in_order_Nil [simp]: "in_order tests []"
  by (simp add: in_order_def)

lemma in_order_snoc:
  assumes "in_order tests seq" "n \<notin> set seq" "n \<in> test_names tests" "set (dependencies_of tests n) \<subseteq> set seq"
  shows "in_order tests (seq @ [n])"
proof (rule in_orderI)
  show "distinct (seq @ [n])" "set (seq @ [n]) \<subseteq> test_names tests"
    using assms by (auto simp: in_order_def)
  show "set (dependencies_of tests m) \<subseteq> set before" if "seq @ [n] = before @ m # after" for before m after
  proof (cases after rule: rev_cases)
    case Nil
    with that assms(4) show ?thesis by simp
  next
    case (snoc ys y)
    with that have "seq = before @ m # ys" by simp
    with assms(1) show ?thesis unfolding in_order_def by blast
  qed
qed

lemma find_test_name: "find_test tests n = Inr t \<Longrightarrow> n \<in> test_names tests"
  by (induction tests) (auto simp: test_names_def split: if_splits)

lemma find_test_error: "find_test tests n = Inl e \<longleftrightarrow> e = KeyError \<and> n \<notin> test_names tests"
  by (induction tests) (auto simp: test_names_def)

text \<open>Why there may be no sequence: a test that is needed is not listed, or a chain of needs as deep as the stack.\<close>

fun no_sequence :: "test list \<Rightarrow> nat \<Rightarrow> string \<Rightarrow> py_error \<Rightarrow> bool" where
  "no_sequence tests d n KeyError \<longleftrightarrow> (\<exists>m. (needs_test tests)\<^sup>*\<^sup>* n m \<and> m \<notin> test_names tests)"
| "no_sequence tests d n RecursionError \<longleftrightarrow> (\<exists>m. (needs_test tests ^^ d) n m)"
| "no_sequence tests d n _ \<longleftrightarrow> False"

lemma no_sequence_step: "needs_test tests n m \<Longrightarrow> no_sequence tests d m e \<Longrightarrow> no_sequence tests (Suc d) n e"
  by (cases e) (auto simp del: relpowp.simps intro: relpowp_Suc_I2 converse_rtranclp_into_rtranclp)


section \<open>No test is added while it is in progress\<close>

text \<open>
  The tests in progress are those whose calls are on the stack: each waits for one of its
  dependencies, which is in progress too or is about to be added. None of them gets into the
  sequence meanwhile, so no test is added twice.
\<close>

lemma add_present: "add_to_sequence tests d n seq = Inr seq' \<Longrightarrow> n \<in> set seq' \<and> set seq \<subseteq> set seq'"
proof (induction d arbitrary: n seq seq')
  case (Suc d)
  show ?case
  proof (cases "n \<in> set seq")
    case False
    with Suc.prems obtain t s where t: "for_each (add_to_sequence tests d) (test_dependencies t) seq = Inr s" "seq' = s @ [n]"
      by (auto elim!: rbind_InrE)
    have "set seq \<subseteq> set s"
      by (rule for_each_inv [where P = "\<lambda>s. set seq \<subseteq> set s", OF t(1)]) (use Suc.IH in blast)+
    with t(2) show ?thesis by auto
  qed (use Suc.prems in simp)
qed simp

lemma all_present:
  "for_each (add_to_sequence tests d) ns seq = Inr seq' \<Longrightarrow> set ns \<union> set seq \<subseteq> set seq'"
proof (induction ns arbitrary: seq)
  case (Cons n ns)
  then obtain s where s: "add_to_sequence tests d n seq = Inr s" "for_each (add_to_sequence tests d) ns s = Inr seq'"
    by (auto elim!: rbind_InrE)
  from Cons.IH [OF s(2)] add_present [OF s(1)] show ?case by auto
qed simp

lemma in_progress_absent:
  assumes "add_to_sequence tests d n seq = Inr seq'" "P \<inter> set seq = {}"
    and "\<And>p. p \<in> P \<Longrightarrow> \<exists>m. needs_test tests p m \<and> m \<in> insert n P"
  shows "P \<inter> set seq' = {}"
  using assms
proof (induction d arbitrary: n seq seq' P)
  case (Suc d)
  show ?case
  proof (cases "n \<in> set seq")
    case False
    with Suc.prems(1) obtain t s where t: "find_test tests n = Inr t" "seq' = s @ [n]"
        and loop: "for_each (add_to_sequence tests d) (test_dependencies t) seq = Inr s"
      by (auto elim!: rbind_InrE)
    have deps: "set (dependencies_of tests n) \<subseteq> set s" using all_present [OF loop] t(1) by (simp add: dependencies_of_def)
    have absent: "insert n P \<inter> set s = {}"
    proof (rule for_each_inv [where P = "\<lambda>s. insert n P \<inter> set s = {}", OF loop])
      show "insert n P \<inter> set seq = {}" using Suc.prems(2) False by simp
      show "insert n P \<inter> set s2 = {}"
        if "m \<in> set (test_dependencies t)" "insert n P \<inter> set s1 = {}" "add_to_sequence tests d m s1 = Inr s2" for m s1 s2
      proof (rule Suc.IH [OF that(3,2)])
        have "needs_test tests n m" using that(1) t(1) by (simp add: needs_test_def dependencies_of_def)
        then show "\<exists>m'. needs_test tests p m' \<and> m' \<in> insert m (insert n P)" if "p \<in> insert n P" for p
          using that Suc.prems(3) [of p] by blast
      qed
    qed
    have "n \<notin> P"
    proof
      assume "n \<in> P"
      with Suc.prems(3) obtain m where "needs_test tests n m" "m \<in> insert n P" by blast
      with deps absent show False by (auto simp: needs_test_def)
    qed
    with absent t(2) show ?thesis by auto
  qed (use Suc.prems in simp)
qed simp

lemma add_in_order:
  "add_to_sequence tests d n seq = Inr seq' \<Longrightarrow> in_order tests seq \<Longrightarrow> in_order tests seq'"
proof (induction d arbitrary: n seq seq')
  case (Suc d)
  show ?case
  proof (cases "n \<in> set seq")
    case False
    with Suc.prems(1) obtain t s where t: "find_test tests n = Inr t" "seq' = s @ [n]"
        and loop: "for_each (add_to_sequence tests d) (test_dependencies t) seq = Inr s"
      by (auto elim!: rbind_InrE)
    have "in_order tests s"
      by (rule for_each_inv [where P = "in_order tests", OF loop]) (use Suc in blast)+
    moreover have "set (dependencies_of tests n) \<subseteq> set s" using all_present [OF loop] t(1) by (simp add: dependencies_of_def)
    moreover have "{n} \<inter> set s = {}"
    proof (rule for_each_inv [where P = "\<lambda>s. {n} \<inter> set s = {}", OF loop])
      show "{n} \<inter> set s2 = {}"
        if "m \<in> set (test_dependencies t)" "{n} \<inter> set s1 = {}" "add_to_sequence tests d m s1 = Inr s2" for m s1 s2
        using that t(1) by (intro in_progress_absent [OF that(3,2)]) (auto simp: needs_test_def dependencies_of_def)
    qed (use False in simp)
    ultimately show ?thesis unfolding t(2) by (intro in_order_snoc) (use find_test_name [OF t(1)] in auto)
  qed (use Suc.prems in simp)
qed simp

lemma for_each_error: "for_each f xs s = Inl e \<Longrightarrow> \<exists>x \<in> set xs. \<exists>s'. f x s' = Inl e"
  by (induction xs arbitrary: s) (auto simp: rbind_eq_Inl)

lemma add_error: "add_to_sequence tests d n seq = Inl e \<Longrightarrow> no_sequence tests d n e"
proof (induction d arbitrary: n seq)
  case (Suc d)
  then have "n \<notin> set seq" by auto
  show ?case
  proof (cases "find_test tests n")
    case (Inl e')
    with Suc.prems \<open>n \<notin> set seq\<close> find_test_error [of tests n e'] show ?thesis by auto
  next
    case (Inr t)
    with Suc.prems \<open>n \<notin> set seq\<close> have "for_each (add_to_sequence tests d) (test_dependencies t) seq = Inl e"
      by (auto simp: rbind_eq_Inl)
    then obtain m s where "m \<in> set (test_dependencies t)" "add_to_sequence tests d m s = Inl e" using for_each_error by metis
    moreover from this(1) Inr have "needs_test tests n m" by (simp add: needs_test_def dependencies_of_def)
    ultimately show ?thesis using Suc.IH no_sequence_step by blast
  qed
qed simp

lemma test_sequence_value:
  assumes "test_sequence tests d = Inr seq" shows "in_order tests seq \<and> set seq = test_names tests"
proof -
  have loop: "for_each (add_to_sequence tests d) (map t_name tests) [] = Inr seq" using assms by (simp add: test_sequence_def)
  have "in_order tests seq"
    by (rule for_each_inv [where P = "in_order tests", OF loop]) (simp, blast intro: add_in_order)
  moreover have "test_names tests \<subseteq> set seq" using all_present [OF loop] by (simp add: test_names_def)
  ultimately show ?thesis by (auto simp: in_order_def)
qed

text \<open>C34: the sequence of the tests contains every test once and each after those it depends on. If there is no
  sequence then a test that some test needs, directly or not, is not listed, or the needs of a test form
  a chain as long as the stack, as they do when they go round in a circle.\<close>

theorem test_sequence_correct:
  "case test_sequence tests d of
     Inr seq \<Rightarrow> in_order tests seq \<and> set seq = test_names tests
   | Inl e \<Rightarrow> \<exists>n \<in> test_names tests. no_sequence tests d n e"
proof (cases "test_sequence tests d")
  case (Inr seq)
  with test_sequence_value show ?thesis by simp
next
  case (Inl e)
  then obtain n s where "n \<in> test_names tests" "add_to_sequence tests d n s = Inl e"
    unfolding test_sequence_def test_names_def using for_each_error by metis
  with add_error [OF this(2)] show ?thesis by (auto simp: Inl)
qed

section \<open>The number of failures\<close>

definition fails :: "(string list \<Rightarrow> int) \<Rightarrow> test list \<Rightarrow> string \<Rightarrow> bool" where
  "fails run tests n \<longleftrightarrow> (case find_test tests n of Inl _ \<Rightarrow> False | Inr t \<Rightarrow> run (t_command t) \<noteq> 0)"

lemma run_count:
  "for_each (run_test run tests) seq (k, out) = Inr (k', out') \<Longrightarrow> k' = k + length (filter (fails run tests) seq)"
proof (induction seq arbitrary: k out)
  case (Cons n seq)
  then obtain s where t: "run_test run tests n (k, out) = Inr s" "for_each (run_test run tests) seq s = Inr (k', out')"
    by (auto elim!: rbind_InrE)
  obtain j o' where s: "s = (j, o')" by (cases s)
  with t(1) have "j = k + (if fails run tests n then 1 else 0)"
    by (auto simp: run_test_def fails_def Let_def split: if_splits elim!: rbind_InrE)
  moreover from t(2) have "k' = j + length (filter (fails run tests) seq)" unfolding s by (rule Cons.IH)
  ultimately show ?case by simp
qed simp

text \<open>C35: the script exits with the number of tests that fail, each counted once; the operating system keeps the
  last eight bits of it, so the status says that all is well exactly if the number is a multiple of 256.\<close>

theorem run_tests_status:
  assumes "run_tests run d tests = Inr (k, out)"
  shows "k = card {n \<in> test_names tests. fails run tests n} \<and> (exit_status k = 0 \<longleftrightarrow> 256 dvd card {n \<in> test_names tests. fails run tests n})"
proof -
  obtain seq where seq: "test_sequence tests d = Inr seq" "for_each (run_test run tests) seq (0, []) = Inr (k, out)"
    using assms by (auto simp: run_tests_def elim!: rbind_InrE)
  have "distinct seq" "set seq = test_names tests" using test_sequence_value [OF seq(1)] by (simp_all add: in_order_def)
  then have "k = card {n \<in> test_names tests. fails run tests n}"
    using run_count [OF seq(2)] distinct_card [of "filter (fails run tests) seq"] by simp
  then show ?thesis by (simp add: exit_status_def dvd_eq_mod_eq_0)
qed

definition two_tests :: "test list" where
  "two_tests = [\<lparr>t_name = ''b'', t_command = [''b''], t_properties = Some [\<lparr>p_name = ''DEPENDS'', p_value = [''a'']\<rparr>]\<rparr>,
     \<lparr>t_name = ''a'', t_command = [''a''], t_properties = None\<rparr>]"

theorem run_tests_status_witness:
  "test_sequence two_tests 3 = Inr [''a'', ''b''] \<and> card {n \<in> test_names two_tests. fails (\<lambda>c. if c = [''a''] then 1 else 0) two_tests n} = 1"
proof -
  have "test_sequence two_tests 3 = Inr [''a'', ''b'']" by code_simp
  moreover have r: "run_tests (\<lambda>c. if c = [''a''] then 1 else 0) 3 two_tests =
      Inr (1, [''Running test a'', ''Test a failed with exit code 1'', [], ''Running test b'', ''Test b passed'', []])"
    by code_simp
  ultimately show ?thesis using run_tests_status [OF r] by simp
qed

end
