(* ===== verification/FileLists.thy ===== *)
theory FileLists
  imports Prelude "HOL-Library.List_Lexorder" "HOL-Library.Char_ord" "HOL-Library.Multiset"
begin

text \<open>
  The generator of \<^verbatim>\<open>FileLists.cmake\<close>, \<^verbatim>\<open>src/tools/gen_filelists.py\<close>: the source files of a project, the file
  that lists them, and the server that watches the projects and writes the lists anew after a
  change. A directory is a tree whose files and subdirectories are listed in the order of the
  file system. \<^verbatim>\<open>cmake-format\<close> is a program of its own: what it makes of the text is a parameter, which
  is absent where the program is.
\<close>

section \<open>Files\<close>

datatype dir = Dir (dir_files: "string list") (dir_entries: entries)
  and entries = NoDirs | Sub string dir entries

definition os_join :: "string \<Rightarrow> string \<Rightarrow> string" where
  "os_join a b = (if a = [] \<or> last a = CHR ''/'' then a @ b else a @ ''/'' @ b)"

fun entry_names :: "entries \<Rightarrow> string list" where
  "entry_names NoDirs = []"
| "entry_names (Sub n d es) = n # entry_names es"

text \<open>\<^verbatim>\<open>os.walk\<close>: the directory, the names of its subdirectories, its files; nothing for one that is not there.\<close>

fun walk :: "string \<Rightarrow> dir \<Rightarrow> (string \<times> string list \<times> string list) list"
  and walk_entries :: "string \<Rightarrow> entries \<Rightarrow> (string \<times> string list \<times> string list) list" where
  "walk root_dir (Dir fs es) = (root_dir, entry_names es, fs) # walk_entries root_dir es"
| "walk_entries root_dir NoDirs = []"
| "walk_entries root_dir (Sub n d es) = walk (os_join root_dir n) d @ walk_entries root_dir es"

definition os_walk :: "string \<Rightarrow> dir option \<Rightarrow> (string \<times> string list \<times> string list) list" where
  "os_walk path d = (case d of None \<Rightarrow> [] | Some d \<Rightarrow> walk path d)"

text \<open>
  \<^verbatim>\<open>os.path.basename\<close>, and \<^verbatim>\<open>os.path.splitext(p)[1]\<close>: what begins with the last dot of the last component,
  unless only dots come before.
\<close>

definition os_basename :: "string \<Rightarrow> string" where
  "os_basename p = rev (takeWhile (\<lambda>c. c \<noteq> CHR ''/'') (rev p))"

definition extension_of :: "string \<Rightarrow> string" where
  "extension_of p =
     (let base = os_basename p; ext = rev (takeWhile (\<lambda>c. c \<noteq> CHR ''.'') (rev base));
          stem = take (length base - Suc (length ext)) base in
      if CHR ''.'' \<in> set base \<and> (\<exists>c \<in> set stem. c \<noteq> CHR ''.'') then CHR ''.'' # ext else [])"

definition is_source_file :: "string \<Rightarrow> bool" where
  "is_source_file filename \<longleftrightarrow> extension_of filename \<in> set [''.h'', ''.hpp'', ''.cpp'', ''.natvis'']"

section \<open>The list of a project\<close>

record project =
  src_dir :: "dir option"
  include_dir :: "dir option"
  filelist :: "string option"
  tempfile :: "string option"

definition quote_blank :: "string \<Rightarrow> string" where
  "quote_blank f = (if CHR '' '' \<in> set f then [CHR 0x22] @ f @ [CHR 0x22] else f)"

definition add_source_files :: "dir option \<Rightarrow> string \<Rightarrow> string list \<Rightarrow> string list" where
  "add_source_files d subdir source_files =
     source_files @ concat (map (\<lambda>(root_dir, _, fs). map (\<lambda>f. quote_blank (root_dir @ ''/'' @ f)) (filter is_source_file fs)) (os_walk subdir d))"

definition source_files :: "project \<Rightarrow> string list" where
  "source_files p = sort (add_source_files (include_dir p) ''include'' (add_source_files (src_dir p) ''src'' []))"

definition list_text :: "string list \<Rightarrow> string" where
  "list_text fs = ''set(sources'' @ [CHR 0x0A] @ ''    '' @ py_join ([CHR 0x0A] @ ''    '') fs @ '')'' @ [CHR 0x0A]"

text \<open>The new state of the directory, and what is printed. Without \<^verbatim>\<open>cmake-format\<close> the temporary file stays.\<close>

definition gen_filelist :: "(string \<Rightarrow> string) option \<Rightarrow> string \<Rightarrow> project \<Rightarrow> project \<times> string list res" where
  "gen_filelist cmake_format dir_name p =
     (let txt = list_text (source_files p) in
      case cmake_format of
        None \<Rightarrow> (p\<lparr>tempfile := Some txt\<rparr>, Inl FileNotFoundError)
      | Some fmt \<Rightarrow>
          if filelist p = Some (fmt txt) then (p\<lparr>tempfile := None\<rparr>, Inr [])
          else (p\<lparr>filelist := Some (fmt txt), tempfile := None\<rparr>, Inr [''Updated file list for '' @ dir_name]))"

definition find_project_dirs :: "string \<Rightarrow> dir \<Rightarrow> (string \<Rightarrow> dir option) \<Rightarrow> string list" where
  "find_project_dirs root_dir d subdir_of =
     (if ''CMakeLists.txt'' \<in> set (dir_files d) then [root_dir] else []) @
     concat (map (\<lambda>subdir.
        map fst (filter (\<lambda>(_, dirs, fs). ''CMakeLists.txt'' \<in> set fs \<and> (''src'' \<in> set dirs \<or> ''include'' \<in> set dirs))
          (os_walk (os_join root_dir subdir) (subdir_of subdir))))
       [''tests'', ''examples'', ''benchmarks'', ''tools'', ''libs'', ''extras''])"

section \<open>The watchers\<close>

datatype fs_event = Created bool string | Deleted bool string | Moved bool string string

text \<open>
  The watcher of \<^verbatim>\<open>.git\<close> keeps the global flag \<^verbatim>\<open>pause_updating\<close>: set while \<^verbatim>\<open>index.lock\<close> is there.
\<close>

definition is_lock :: "string \<Rightarrow> bool" where
  "is_lock path \<longleftrightarrow> os_basename path = ''index.lock''"

fun git_event :: "fs_event \<Rightarrow> bool \<Rightarrow> bool" where
  "git_event (Created _ src) paused = (if is_lock src then True else paused)"
| "git_event (Deleted _ src) paused = (if is_lock src then False else paused)"
| "git_event (Moved _ src dest) paused =
     (let paused = (if is_lock src then False else paused) in if is_lock dest then True else paused)"

fun concerns_sources :: "fs_event \<Rightarrow> bool" where
  "concerns_sources (Created _ src) \<longleftrightarrow> is_source_file src"
| "concerns_sources (Deleted is_directory src) \<longleftrightarrow> is_directory \<or> is_source_file src"
| "concerns_sources (Moved _ src dest) \<longleftrightarrow> is_source_file src \<or> is_source_file dest"

text \<open>
  The state of the server: the flag, the time in milliseconds, when the timer of a project is due,
  and what happened to the projects, oldest first. A timer that has run or was cancelled is not
  due; to cancel it again does nothing.
\<close>

datatype entry = Accepted string nat | Ignored string nat | Run string nat

record watch_state =
  pause_updating :: bool
  now :: nat
  due :: "string \<Rightarrow> nat option"
  log :: "entry list"

definition timer_delay :: nat where
  "timer_delay = 1000"

definition handle_event :: "string \<Rightarrow> watch_state \<Rightarrow> watch_state" where
  "handle_event d s =
     (if pause_updating s then s\<lparr>log := log s @ [Ignored d (now s)]\<rparr>
      else s\<lparr>due := (due s)(d \<mapsto> now s + timer_delay), log := log s @ [Accepted d (now s)]\<rparr>)"

definition project_event :: "string \<Rightarrow> fs_event \<Rightarrow> watch_state \<Rightarrow> watch_state" where
  "project_event d e s = (if concerns_sources e then handle_event d s else s)"

definition fire :: "string \<Rightarrow> watch_state \<Rightarrow> watch_state" where
  "fire d s = s\<lparr>due := (due s)(d := None), log := log s @ [Run d (now s)]\<rparr>"

definition watch_start :: watch_state where
  "watch_start = \<lparr>pause_updating = False, now = 0, due = Map.empty, log = []\<rparr>"

datatype stimulus = Git fs_event | Project string fs_event | Wait nat | Fire string

text \<open>The thread of a timer runs when the timer is due, or later.\<close>

inductive watch_step :: "watch_state \<Rightarrow> stimulus \<Rightarrow> watch_state \<Rightarrow> bool" where
  git: "watch_step s (Git e) (s\<lparr>pause_updating := git_event e (pause_updating s)\<rparr>)"
| project: "watch_step s (Project d e) (project_event d e s)"
| wait: "watch_step s (Wait n) (s\<lparr>now := now s + n\<rparr>)"
| fire: "due s d = Some t \<Longrightarrow> t \<le> now s \<Longrightarrow> watch_step s (Fire d) (fire d s)"

inductive watch_run :: "stimulus list \<Rightarrow> watch_state \<Rightarrow> bool" where
  start: "watch_run [] watch_start"
| step: "watch_run xs s \<Longrightarrow> watch_step s x t \<Longrightarrow> watch_run (xs @ [x]) t"

code_pred watch_step .

inductive_cases git_stepE: "watch_step s (Git e) t"
inductive_cases project_stepE: "watch_step s (Project d e) t"
inductive_cases wait_stepE: "watch_step s (Wait n) t"
inductive_cases fire_stepE: "watch_step s (Fire d) t"

section \<open>Server and client\<close>

text \<open>A command, whether the server goes on, and the answer.\<close>

definition answer :: "string \<Rightarrow> bool \<Rightarrow> bool \<times> string" where
  "answer data running =
     (if data = ''stop'' then (False, ''Server stopped'')
      else if data = ''status'' then (running, ''Server running'')
      else (running, ''Unknown command''))"

text \<open>A connection is read until it is closed, or the server is interrupted; then the next one is accepted, or not.\<close>

fun serve_connection :: "string list \<Rightarrow> bool \<Rightarrow> bool \<times> string list" where
  "serve_connection [] running = (running, [])"
| "serve_connection (data # rest) running =
     (if data = [] then (running, [])
      else (case answer data running of (running, reply) \<Rightarrow>
              (case serve_connection rest running of (running, replies) \<Rightarrow> (running, reply # replies))))"

datatype connection = Conn "string list" bool

fun serve :: "connection list \<Rightarrow> bool \<times> string list list" where
  "serve [] = (True, [])"
| "serve (Conn chunks interrupted # conns) =
     (case serve_connection chunks True of (running, replies) \<Rightarrow>
        if interrupted \<or> \<not> running then (False, [replies])
        else (case serve conns of (running, rest) \<Rightarrow> (running, replies # rest)))"

text \<open>\<^verbatim>\<open>watch_client\<close> with the answer of the server, if there is one: only the first reply is read.\<close>

definition watch_client :: "(string \<Rightarrow> string option) \<Rightarrow> string \<Rightarrow> string option" where
  "watch_client server cmd = server cmd"

record cli =
  cli_dir :: string
  watch_mode :: bool
  command :: "string option"

datatype main_action = Serve | Print string | Generate "string list" | Exit int

definition main_of :: "(string \<Rightarrow> dir option) \<Rightarrow> (string \<Rightarrow> dir option) \<Rightarrow> (string \<Rightarrow> string option) \<Rightarrow> cli \<Rightarrow> string list \<times> main_action" where
  "main_of dir_of subdir_of server opts =
     (case dir_of (cli_dir opts) of
        None \<Rightarrow> ([cli_dir opts @ '' is not a directory''], Exit 1)
      | Some d \<Rightarrow>
          if watch_mode opts then
            if \<not> truthy (command opts) \<or> command opts = Some ''start'' then
              if \<not> truthy (watch_client server ''status'') then ([''Starting server...''], Serve)
              else ([], Print ''Server already running'')
            else
              (let reply = watch_client server (the (command opts)) in
               ([], Print (if truthy reply then the reply else ''Server not running'')))
          else ([], Generate (find_project_dirs (cli_dir opts) d subdir_of)))"

section \<open>What is listed\<close>

text \<open>The files below a directory, each with the directories on the way to it; names of directories are proper.\<close>

fun files_below :: "dir \<Rightarrow> (string list \<times> string) set"
  and files_in :: "entries \<Rightarrow> (string list \<times> string) set" where
  "files_below (Dir fs es) = Pair [] ` set fs \<union> files_in es"
| "files_in NoDirs = {}"
| "files_in (Sub n d es) = (\<lambda>(path, f). (n # path, f)) ` files_below d \<union> files_in es"

fun names_ok :: "dir \<Rightarrow> bool"
  and names_in_ok :: "entries \<Rightarrow> bool" where
  "names_ok (Dir fs es) \<longleftrightarrow> names_in_ok es"
| "names_in_ok NoDirs \<longleftrightarrow> True"
| "names_in_ok (Sub n d es) \<longleftrightarrow> n \<noteq> [] \<and> CHR ''/'' \<notin> set n \<and> names_ok d \<and> names_in_ok es"

definition path_of :: "string \<Rightarrow> string list \<times> string \<Rightarrow> string" where
  "path_of r x = py_join ''/'' (r # fst x @ [snd x])"

definition paths_of :: "(string \<times> string list \<times> string list) list \<Rightarrow> string set" where
  "paths_of w = (\<Union>(r, _, fs) \<in> set w. (\<lambda>f. r @ ''/'' @ f) ` {f \<in> set fs. is_source_file f})"

lemma paths_of_simps [simp]:
  "paths_of [] = {}"
  "paths_of ((r, ds, fs) # w) = (\<lambda>f. r @ ''/'' @ f) ` {f \<in> set fs. is_source_file f} \<union> paths_of w"
  "paths_of (v @ w) = paths_of v \<union> paths_of w"
  by (auto simp: paths_of_def)

lemma path_of_Nil: "path_of r ([], f) = r @ ''/'' @ f"
  by (simp add: path_of_def)

lemma path_of_Cons: "path_of r (n # p, f) = r @ ''/'' @ path_of n (p, f)"
  by (cases p) (simp_all add: path_of_def)

lemma path_of_join: "path_of (r @ ''/'' @ n) x = r @ ''/'' @ path_of n x"
  by (cases "fst x") (simp_all add: path_of_def)

lemma walk_paths:
  "names_ok d \<Longrightarrow> r \<noteq> [] \<Longrightarrow> last r \<noteq> CHR ''/'' \<Longrightarrow>
     paths_of (walk r d) = path_of r ` {x \<in> files_below d. is_source_file (snd x)}"
  "names_in_ok es \<Longrightarrow> r \<noteq> [] \<Longrightarrow> last r \<noteq> CHR ''/'' \<Longrightarrow>
     paths_of (walk_entries r es) = path_of r ` {x \<in> files_in es. is_source_file (snd x)}"
proof (induction r d and r es rule: walk_walk_entries.induct)
  case (1 r fs es)
  have "{x \<in> files_below (Dir fs es). is_source_file (snd x)} =
      Pair [] ` {f \<in> set fs. is_source_file f} \<union> {x \<in> files_in es. is_source_file (snd x)}" by auto
  with 1 show ?case by (simp add: image_Un image_image path_of_Nil)
next
  case (3 r n d es)
  have join: "os_join r n = r @ ''/'' @ n" using 3 by (simp add: os_join_def)
  have n: "n \<noteq> []" "CHR ''/'' \<notin> set n" using 3(3) by simp_all
  then have "last n \<noteq> CHR ''/''" by (metis last_in_set)
  with n have "last (r @ ''/'' @ n) \<noteq> CHR ''/''" by simp
  with 3 have "paths_of (walk (os_join r n) d) = path_of (r @ ''/'' @ n) ` {x \<in> files_below d. is_source_file (snd x)}"
    by (simp add: join)
  also have "\<dots> = path_of r ` {x \<in> (\<lambda>(path, f). (n # path, f)) ` files_below d. is_source_file (snd x)}"
  proof -
    have eq: "path_of (r @ ''/'' @ n) x = path_of r ((\<lambda>(path, f). (n # path, f)) x)" for x
      by (cases x) (simp only: prod.case path_of_join path_of_Cons)
    have "{x \<in> (\<lambda>(path, f). (n # path, f)) ` files_below d. is_source_file (snd x)} =
        (\<lambda>(path, f). (n # path, f)) ` {x \<in> files_below d. is_source_file (snd x)}" by auto
    then show ?thesis by (simp only: image_image) (rule image_cong [OF refl eq])
  qed
  finally show ?case using 3 by auto
qed simp

definition sources_below :: "string \<Rightarrow> dir option \<Rightarrow> string set" where
  "sources_below subdir d = (case d of None \<Rightarrow> {} | Some d \<Rightarrow> path_of subdir ` {x \<in> files_below d. is_source_file (snd x)})"

definition project_ok :: "project \<Rightarrow> bool" where
  "project_ok p \<longleftrightarrow> pred_option names_ok (src_dir p) \<and> pred_option names_ok (include_dir p)"

lemma add_source_files_set:
  assumes "pred_option names_ok d" "subdir \<noteq> []" "last subdir \<noteq> CHR ''/''"
  shows "set (add_source_files d subdir fs) = set fs \<union> quote_blank ` sources_below subdir d"
proof -
  have "set (add_source_files d subdir fs) = set fs \<union> quote_blank ` paths_of (os_walk subdir d)"
    by (auto simp: add_source_files_def paths_of_def)
  also have "paths_of (os_walk subdir d) = sources_below subdir d"
    using assms walk_paths(1) [of _ subdir] by (cases d) (simp_all add: os_walk_def sources_below_def)
  finally show ?thesis .
qed

text \<open>C36: the file that is written lists, in order, exactly the source files below the two directories of the
  project; the temporary file is gone, a message is printed only if the file is not what it was, and to
  write it again changes nothing and prints nothing.\<close>

theorem gen_filelist_correct:
  assumes "project_ok p" "gen_filelist (Some fmt) name p = (p', Inr out)"
  shows "(\<exists>fs. filelist p' = Some (fmt (list_text fs)) \<and> sorted fs \<and>
      set fs = quote_blank ` (sources_below ''src'' (src_dir p) \<union> sources_below ''include'' (include_dir p))) \<and>
    tempfile p' = None \<and> (out = [] \<longleftrightarrow> filelist p = filelist p') \<and> gen_filelist (Some fmt) name p' = (p', Inr [])"
proof -
  let ?t = "fmt (list_text (source_files p))"
  have p': "p' = p\<lparr>filelist := Some ?t, tempfile := None\<rparr>" "out = [] \<longleftrightarrow> filelist p = Some ?t"
    using assms(2) by (auto simp: gen_filelist_def Let_def split: if_splits)
  have same: "source_files p' = source_files p" by (simp add: p' source_files_def)
  have "set (source_files p) = quote_blank ` (sources_below ''src'' (src_dir p) \<union> sources_below ''include'' (include_dir p))"
    using assms(1) by (simp add: source_files_def project_ok_def add_source_files_set image_Un)
  moreover have "sorted (source_files p)" by (simp add: source_files_def)
  moreover have "gen_filelist (Some fmt) name p' = (p', Inr [])" unfolding gen_filelist_def same by (simp add: p')
  ultimately show ?thesis using p'(2) by (auto simp: p'(1) intro!: exI [of _ "source_files p"])
qed

definition small_project :: project where
  "small_project = \<lparr>src_dir = Some (Dir [''b.cpp'', ''.h'', ''a.cpp''] (Sub ''sub'' (Dir [''x y.hpp'', ''x.txt''] NoDirs) NoDirs)),
     include_dir = None, filelist = None, tempfile = None\<rparr>"

theorem gen_filelist_correct_witness:
  "source_files small_project = [[CHR 0x22] @ ''src/sub/x y.hpp'' @ [CHR 0x22], ''src/a.cpp'', ''src/b.cpp''] \<and>
   tempfile (fst (gen_filelist (Some id) ''p'' small_project)) = None"
proof -
  have "source_files small_project = [[CHR 0x22] @ ''src/sub/x y.hpp'' @ [CHR 0x22], ''src/a.cpp'', ''src/b.cpp'']" by code_simp
  moreover have "project_ok small_project" by (simp add: project_ok_def small_project_def)
  moreover obtain q out where q: "gen_filelist (Some id) ''p'' small_project = (q, Inr out)"
    by (simp add: gen_filelist_def Let_def small_project_def)
  ultimately show ?thesis using gen_filelist_correct [of small_project id "''p''" q out] by (simp add: q)
qed

section \<open>A quiet second before every run\<close>

fun about :: "string \<Rightarrow> entry \<Rightarrow> bool" where
  "about d (Accepted e t) \<longleftrightarrow> e = d"
| "about d (Run e t) \<longleftrightarrow> e = d"
| "about d (Ignored e t) \<longleftrightarrow> False"

definition last_about :: "string \<Rightarrow> entry list \<Rightarrow> entry option" where
  "last_about d l = (let es = filter (about d) l in if es = [] then None else Some (last es))"

lemma last_about_simps [simp]:
  "last_about d [] = None"
  "last_about d (l @ [e]) = (if about d e then Some e else last_about d l)"
  by (simp_all add: last_about_def Let_def)

text \<open>What the timers are due for, and that no run comes without a change a second before.\<close>

definition timer_for :: "entry option \<Rightarrow> nat option" where
  "timer_for e = (case e of Some (Accepted d t) \<Rightarrow> Some (t + timer_delay) | _ \<Rightarrow> None)"

definition answers_change :: "entry list \<Rightarrow> bool" where
  "answers_change l \<longleftrightarrow>
     (\<forall>before d t after. l = before @ Run d t # after \<longrightarrow> (\<exists>t0. last_about d before = Some (Accepted d t0) \<and> t0 + timer_delay \<le> t))"

lemma answers_change_Nil [simp]: "answers_change []"
  by (simp add: answers_change_def)

lemma answers_change_snoc:
  "answers_change (l @ [e]) \<longleftrightarrow> answers_change l \<and>
     (\<forall>d t. e = Run d t \<longrightarrow> (\<exists>t0. last_about d l = Some (Accepted d t0) \<and> t0 + timer_delay \<le> t))"
proof
  assume a: "answers_change (l @ [e])"
  then have "answers_change l" unfolding answers_change_def by (metis append.assoc append_Cons)
  with a show "answers_change l \<and> (\<forall>d t. e = Run d t \<longrightarrow> (\<exists>t0. last_about d l = Some (Accepted d t0) \<and> t0 + timer_delay \<le> t))"
    unfolding answers_change_def by blast
next
  assume a: "answers_change l \<and> (\<forall>d t. e = Run d t \<longrightarrow> (\<exists>t0. last_about d l = Some (Accepted d t0) \<and> t0 + timer_delay \<le> t))"
  show "answers_change (l @ [e])"
    unfolding answers_change_def
  proof (intro allI impI)
    fix before d t after
    assume eq: "l @ [e] = before @ Run d t # after"
    show "\<exists>t0. last_about d before = Some (Accepted d t0) \<and> t0 + timer_delay \<le> t"
    proof (cases after rule: rev_cases)
      case Nil
      with eq a show ?thesis by simp
    next
      case (snoc ys y)
      with eq have "l = before @ Run d t # ys" by simp
      with a show ?thesis unfolding answers_change_def by blast
    qed
  qed
qed

definition watch_ok :: "watch_state \<Rightarrow> bool" where
  "watch_ok s \<longleftrightarrow> (\<forall>d. due s d = timer_for (last_about d (log s))) \<and> answers_change (log s)"

lemma last_about_cases: "last_about d l = Some e \<Longrightarrow> about d e"
proof (induction l rule: rev_induct)
  case (snoc x l)
  then show ?case by (cases "about d x") simp_all
qed simp

lemma watch_step_ok: "watch_step s x t \<Longrightarrow> watch_ok s \<Longrightarrow> watch_ok t"
proof (induction rule: watch_step.induct)
  case (project s d e)
  then show ?case
    by (cases e) (auto simp: watch_ok_def project_event_def handle_event_def timer_for_def answers_change_snoc)
next
  case (fire s d t)
  then have "timer_for (last_about d (log s)) = Some t" by (auto simp: watch_ok_def)
  then obtain t0 where "last_about d (log s) = Some (Accepted d t0)" "t = t0 + timer_delay"
    using last_about_cases [of d "log s"] by (auto simp: timer_for_def split: option.splits entry.splits)
  with fire show ?case by (auto simp: watch_ok_def fire_def timer_for_def answers_change_snoc)
qed (simp_all add: watch_ok_def)

text \<open>C37: in every run of the server a project's timer is due a second after its last accepted change if the list
  has not been written since, and not otherwise; so the list is written exactly when a whole second has
  passed without a further accepted change, once for the changes before.\<close>

theorem watch_debounced:
  assumes "watch_run xs s" shows "watch_ok s"
  using assms
proof (induction rule: watch_run.induct)
  case start
  then show ?case by (simp add: watch_ok_def watch_start_def timer_for_def)
qed (rule watch_step_ok)

lemma project_step: "t = project_event d e s \<Longrightarrow> watch_step s (Project d e) t"
  by (simp add: watch_step.project)

theorem watch_debounced_witness:
  "\<exists>s. watch_run [Project ''p'' (Created False ''a.cpp''), Wait 1000, Fire ''p''] s \<and> log s = [Accepted ''p'' 0, Run ''p'' 1000] \<and> watch_ok s"
proof -
  let ?s1 = "project_event ''p'' (Created False ''a.cpp'') watch_start"
  let ?s2 = "?s1\<lparr>now := now ?s1 + 1000\<rparr>"
  have c: "concerns_sources (Created False ''a.cpp'')" by code_simp
  have "watch_run ([] @ [Project ''p'' (Created False ''a.cpp'')]) ?s1"
    by (rule watch_run.step [OF watch_run.start project_step]) simp
  then have "watch_run (([] @ [Project ''p'' (Created False ''a.cpp'')]) @ [Wait 1000]) ?s2"
    by (rule watch_run.step) (rule watch_step.wait)
  then have r: "watch_run ((([] @ [Project ''p'' (Created False ''a.cpp'')]) @ [Wait 1000]) @ [Fire ''p'']) (fire ''p'' ?s2)"
    using c by (elim watch_run.step) (rule watch_step.fire [of _ _ 1000], simp_all add: project_event_def handle_event_def watch_start_def timer_delay_def)
  moreover have "log (fire ''p'' ?s2) = [Accepted ''p'' 0, Run ''p'' 1000]"
    using c by (simp add: fire_def project_event_def handle_event_def watch_start_def)
  ultimately show ?thesis using watch_debounced [OF r] by auto
qed

text \<open>A change that arrives while the lock is there is lost: nothing is due when the lock is gone.\<close>

lemma change_under_lock_lost:
  assumes "watch_run xs s" "pause_updating s" "due s d = None" "concerns_sources e" "watch_step s (Project d e) t" "watch_step t (Git (Deleted False ''.git/index.lock'')) u"
  shows "due u d = None \<and> \<not> pause_updating u"
proof -
  have "is_lock ''.git/index.lock''" by code_simp
  with assms show ?thesis by (auto elim!: project_stepE git_stepE simp: project_event_def handle_event_def)
qed

end
