(* ===== verification/Benchmarks.thy ===== *)
theory Benchmarks
  imports PyText
begin

text \<open>
  The benchmark script \<^verbatim>\<open>src/tools/benchmark.py\<close>: it switches the working copy to a commit, builds and runs
  the benchmarks there and switches back, and it writes a table of what has changed between two
  commits. Programs are run through \<^verbatim>\<open>run_process\<close>; what they return, and which files exist, depends on the
  commands that ran before and is a parameter of the definitions, and so is the text of a number
  and of a coloured circle, which counts as one character. Floating point numbers are rational.
\<close>

section \<open>Programs that are run\<close>

text \<open>
  The commands run so far; a command whose return code is not zero raises. The log survives an
  exception.
\<close>

type_synonym log = "string list list"

record world =
  outcome_of :: "log \<Rightarrow> string list \<Rightarrow> int \<times> string"
  file_exists :: "log \<Rightarrow> string \<Rightarrow> bool"
  can_make_dir :: "log \<Rightarrow> string \<Rightarrow> bool"

type_synonym 'a script = "log \<Rightarrow> log \<times> 'a res"

definition script_return :: "'a \<Rightarrow> 'a script" where
  "script_return x l = (l, Inr x)"

definition script_raise :: "py_error \<Rightarrow> 'a script" where
  "script_raise e l = (l, Inl e)"

definition script_bind :: "'a script \<Rightarrow> ('a \<Rightarrow> 'b script) \<Rightarrow> 'b script" where
  "script_bind m f l = (case m l of (l, Inl e) \<Rightarrow> (l, Inl e) | (l, Inr x) \<Rightarrow> f x l)"

text \<open>A decision on the state of the world.\<close>

definition script_look :: "(log \<Rightarrow> 'a script) \<Rightarrow> 'a script" where
  "script_look f l = f l l"

definition run_process :: "world \<Rightarrow> string list \<Rightarrow> string script" where
  "run_process w cmd l =
     (case outcome_of w l cmd of (returncode, out) \<Rightarrow>
        (l @ [cmd], if returncode \<noteq> 0 then Inl (CalledProcessError returncode) else Inr out))"

section \<open>Switching to a commit\<close>

text \<open>
  \<^verbatim>\<open>with git_switch(ref): body\<close>: the head is asked for when the object is made; if the switch succeeds,
  the body runs, and then the switch back, whose exception replaces that of the body.
\<close>

definition git_switch :: "world \<Rightarrow> string \<Rightarrow> 'a script \<Rightarrow> 'a script" where
  "git_switch w ref body =
     script_bind (run_process w [''git'', ''rev-parse'', ''--abbrev-ref'', ''HEAD'']) (\<lambda>out.
     let head = strip out in
     script_bind (run_process w [''git'', ''switch'', ''--detach'', ref]) (\<lambda>_ l.
       case body l of (l, r) \<Rightarrow>
         script_bind (run_process w [''git'', ''switch'', head]) (\<lambda>_ l. (l, r)) l))"

definition path_join :: "string \<Rightarrow> string \<Rightarrow> string" where
  "path_join a b = (if a = [] then b else if last a = CHR ''/'' then a @ b else a @ ''/'' @ b)"

text \<open>The directory of the result is made, which fails where its own parent is missing; the first binary that exists is run.\<close>

definition run_benchmark :: "world \<Rightarrow> string \<Rightarrow> string \<Rightarrow> string \<Rightarrow> int \<Rightarrow> bool \<Rightarrow> bool \<Rightarrow> unit script" where
  "run_benchmark w bin_dir out_dir out_file repetitions sw_render build =
     script_bind (if build then run_process w [''cmake'', ''--build'', bin_dir, ''--config'', ''Release''] else script_return []) (\<lambda>_.
     script_look (\<lambda>l.
     if \<not> can_make_dir w l out_dir then script_raise FileNotFoundError
     else
       case filter (file_exists w l) (map (path_join bin_dir)
              [''benchmarks/TeideBenchmark/TeideBenchmark'', ''benchmarks/TeideBenchmark/Release/TeideBenchmark'']) of
         [] \<Rightarrow> script_raise IndexError
       | exe # _ \<Rightarrow>
           script_bind (run_process w
             ([exe, ''--benchmark_out='' @ out_file, ''--benchmark_repetitions='' @ show_int repetitions,
               ''--benchmark_min_warmup_time=1'', ''--benchmark_enable_random_interleaving=true'']
              @ (if sw_render then [''--sw-render''] else []))) (\<lambda>_. script_return ())))"

text \<open>The body of the \<^verbatim>\<open>with\<close> block.\<close>

definition commit_body :: "world \<Rightarrow> string \<Rightarrow> string \<Rightarrow> string \<Rightarrow> string list \<Rightarrow> int \<Rightarrow> bool \<Rightarrow> unit script" where
  "commit_body w preset out_dir out_file definitions repetitions sw_render =
     (let bin_dir = path_join ''build'' preset in
      script_bind (run_process w ([''cmake'', ''--preset'', preset, ''-B'', bin_dir, ''-DTEIDE_BUILD_TESTS=OFF'', ''-DTEIDE_BUILD_EXAMPLES=OFF'']
        @ map (\<lambda>x. ''-D'' @ x) definitions)) (\<lambda>_.
      run_benchmark w bin_dir out_dir out_file repetitions sw_render True))"

definition benchmark_commit :: "world \<Rightarrow> string \<Rightarrow> string \<Rightarrow> string \<Rightarrow> string list \<Rightarrow> int \<Rightarrow> bool \<Rightarrow> string script" where
  "benchmark_commit w ref_name preset out_dir definitions repetitions sw_render =
     script_bind (run_process w [''git'', ''rev-parse'', ref_name]) (\<lambda>out.
     let commit_hash = strip out; out_file = path_join out_dir (commit_hash @ ''.json'') in
     script_look (\<lambda>l.
     if file_exists w l out_file then script_return out_file
     else
       script_bind (git_switch w commit_hash (commit_body w preset out_dir out_file definitions repetitions sw_render))
         (\<lambda>_. script_return out_file)))"

definition benchmark_both :: "world \<Rightarrow> string \<Rightarrow> string \<Rightarrow> string \<Rightarrow> string \<Rightarrow> string list \<Rightarrow> int \<Rightarrow> bool \<Rightarrow> (string \<times> string) script" where
  "benchmark_both w ref1 ref2 preset out_dir definitions repetitions sw_render =
     script_bind (benchmark_commit w ref1 preset out_dir definitions repetitions sw_render) (\<lambda>result1.
     script_bind (benchmark_commit w ref2 preset out_dir definitions repetitions sw_render) (\<lambda>result2.
     script_return (result1, result2)))"

section \<open>The summary\<close>

record measurement =
  m_time :: rat
  m_real_time :: rat
  m_real_time_other :: rat

record bench_result =
  r_name :: string
  r_pvalue :: "rat option"
  r_measurements :: "measurement list"

fun lookup_result :: "bench_result list \<Rightarrow> string \<Rightarrow> bench_result option" where
  "lookup_result [] name = None"
| "lookup_result (x # results) name = (if r_name x = name then Some x else lookup_result results name)"

text \<open>One round of the loop: the row of a test that changed significantly. \<open>show_float n x\<close> has \<open>n\<close> decimals.\<close>

definition summary_row :: "(nat \<Rightarrow> rat \<Rightarrow> string) \<Rightarrow> (bool \<Rightarrow> string) \<Rightarrow> bench_result list \<Rightarrow> string \<Rightarrow> string list list \<Rightarrow> string list list res" where
  "summary_row show_float circle results name rows =
     (case lookup_result results name of
        None \<Rightarrow> Inl TypeError
      | Some x \<Rightarrow>
          (case r_pvalue x of
             None \<Rightarrow> Inl KeyError
           | Some time_pvalue \<Rightarrow>
               (case lookup_result results (name @ ''_mean'') of
                  None \<Rightarrow> Inl TypeError
                | Some y \<Rightarrow>
                    (case r_measurements y of
                       [] \<Rightarrow> Inl IndexError
                     | m # _ \<Rightarrow>
                         if time_pvalue > 1 / 10 then Inr rows
                         else
                           let faster = m_time m < 0 in
                           Inr (rows @ [[name,
                             circle faster @ '' '' @ show_float 2 (abs (m_time m * 100)) @ ''% '' @ (if faster then ''faster'' else ''slower''),
                             show_float 0 (m_real_time m / 1000) @ ''ms'', show_float 0 (m_real_time_other m / 1000) @ ''ms'',
                             show_float 4 time_pvalue]])))))"

definition summary_rows :: "(nat \<Rightarrow> rat \<Rightarrow> string) \<Rightarrow> (bool \<Rightarrow> string) \<Rightarrow> bench_result list \<Rightarrow> string list list res" where
  "summary_rows show_float circle results =
     for_each (summary_row show_float circle results) (map r_name (filter (\<lambda>x. r_pvalue x \<noteq> None) results)) []"

definition headers :: "string list" where
  "headers = [''Benchmark'', ''Result'', ''Time Old'', ''Time New'', ''P-value'']"

text \<open>\<open>zip(*rows)\<close> with \<open>max\<close>: the widest cell of each column, as many columns as the shortest row has.\<close>

fun column_widths :: "string list list \<Rightarrow> nat list" where
  "column_widths [] = []"
| "column_widths [r] = map length r"
| "column_widths (r # rows) = map2 max (map length r) (column_widths rows)"

definition pad_row :: "nat list \<Rightarrow> string list \<Rightarrow> string list" where
  "pad_row widths r = map2 (\<lambda>cell w. ljust (int w) cell) r widths"

definition table_line :: "string list \<Rightarrow> string" where
  "table_line cells = ''| '' @ py_join '' | '' cells @ '' |''"

definition summary_table :: "string list list \<Rightarrow> string list" where
  "summary_table rows =
     (let rows = headers # rows; widths = column_widths rows;
          rows = hd rows # map (\<lambda>w. replicate w CHR ''-'') widths # tl rows
      in map (\<lambda>r. table_line (pad_row widths r)) rows)"

definition preamble :: "string list list \<Rightarrow> string" where
  "preamble rows =
     (if rows \<noteq> []
      then show_int (int (length rows)) @ '' benchmark result'' @ (if length rows > 1 then ''s'' else [])
             @ '' with statistically significant differences:''
      else ''All benchmark results are statistically equivalent to baseline.'')"

definition summary_lines :: "string list list \<Rightarrow> string list" where
  "summary_lines rows = [preamble rows, []] @ (if rows = [] then [] else summary_table rows)"

definition write_summary :: "(nat \<Rightarrow> rat \<Rightarrow> string) \<Rightarrow> (bool \<Rightarrow> string) \<Rightarrow> bench_result list \<Rightarrow> string list res" where
  "write_summary show_float circle results = rbind (summary_rows show_float circle results) (\<lambda>rows. Inr (summary_lines rows))"

section \<open>The comparison\<close>

text \<open>What a comparison leaves: the report in a file, or a line that is printed, and the lines of the summary.\<close>

record comparison =
  report_file :: "(string \<times> string) option"
  printed_line :: "string option"
  summary_file :: "(string \<times> string list) option"

definition compare_command :: "string \<Rightarrow> string \<Rightarrow> string \<Rightarrow> string option \<Rightarrow> string \<Rightarrow> string \<Rightarrow> string list" where
  "compare_command python compare out_json out_report result1 result2 =
     [python, compare, ''--display_aggregates_only'', ''--dump_to_json'', out_json]
     @ (if out_report \<noteq> None then [''--no-color''] else []) @ [''benchmarks'', result1, result2]"

text \<open>\<open>json_of\<close> reads the results that the comparison has written. Without a file for the report, its name, \<^verbatim>\<open>None\<close>, is printed.\<close>

definition report_output :: "string option \<Rightarrow> string \<Rightarrow> comparison" where
  "report_output out_report report =
     (case out_report of
        Some f \<Rightarrow> \<lparr>report_file = Some (f, report), printed_line = None, summary_file = None\<rparr>
      | None \<Rightarrow> \<lparr>report_file = None, printed_line = Some ''None'', summary_file = None\<rparr>)"

definition summary_output ::
  "(nat \<Rightarrow> rat \<Rightarrow> string) \<Rightarrow> (bool \<Rightarrow> string) \<Rightarrow> (log \<Rightarrow> string \<Rightarrow> bench_result list res) \<Rightarrow> string \<Rightarrow> string option
     \<Rightarrow> comparison \<Rightarrow> comparison script" where
  "summary_output show_float circle json_of out_json out_summary out =
     (case out_summary of
        None \<Rightarrow> script_return out
      | Some f \<Rightarrow> script_look (\<lambda>l.
          case rbind (json_of l out_json) (write_summary show_float circle) of
            Inl e \<Rightarrow> script_raise e
          | Inr lines \<Rightarrow> script_return (out\<lparr>summary_file := Some (f, lines)\<rparr>)))"

definition benchmark_compare ::
  "world \<Rightarrow> (nat \<Rightarrow> rat \<Rightarrow> string) \<Rightarrow> (bool \<Rightarrow> string) \<Rightarrow> (log \<Rightarrow> string \<Rightarrow> bench_result list res) \<Rightarrow> string \<Rightarrow> string
     \<Rightarrow> string \<Rightarrow> string \<Rightarrow> string \<Rightarrow> string \<Rightarrow> string list \<Rightarrow> int \<Rightarrow> bool \<Rightarrow> string option \<Rightarrow> string option \<Rightarrow> string option
     \<Rightarrow> comparison script" where
  "benchmark_compare w show_float circle json_of python compare ref1 ref2 preset out_dir definitions repetitions sw_render
       out_json out_report out_summary =
     (let out_json = (case out_json of Some f \<Rightarrow> f | None \<Rightarrow> path_join out_dir (ref1 @ ''_'' @ ref2 @ ''.json'')) in
      script_bind (benchmark_both w ref1 ref2 preset out_dir definitions repetitions sw_render) (\<lambda>(result1, result2).
      script_bind (run_process w (compare_command python compare out_json out_report result1 result2)) (\<lambda>report.
      summary_output show_float circle json_of out_json out_summary (report_output out_report report))))"

text \<open>The status with which the script ends: 1 too for an exception that it does not catch.\<close>

definition benchmark_status :: "'a res \<Rightarrow> int" where
  "benchmark_status r = (case r of Inr _ \<Rightarrow> 0 | Inl _ \<Rightarrow> 1)"

section \<open>The working copy is put back\<close>

definition is_switch :: "string list \<Rightarrow> bool" where
  "is_switch c \<longleftrightarrow> take 2 c = [''git'', ''switch'']"

text \<open>Scripts that run some commands, but never \<^verbatim>\<open>git switch\<close>.\<close>

definition no_switch :: "'a script \<Rightarrow> bool" where
  "no_switch m \<longleftrightarrow> (\<forall>l l' r. m l = (l', r) \<longrightarrow> (\<exists>new. l' = l @ new \<and> (\<forall>c \<in> set new. \<not> is_switch c)))"

lemma no_switchD:
  assumes "no_switch m" "m l = (l', r)" obtains new where "l' = l @ new" "\<forall>c \<in> set new. \<not> is_switch c"
  using assms unfolding no_switch_def by blast

lemma no_switch_return [simp]: "no_switch (script_return x)" "no_switch (script_raise e)"
  by (simp_all add: no_switch_def script_return_def script_raise_def)

lemma no_switch_run: "\<not> is_switch cmd \<Longrightarrow> no_switch (run_process w cmd)"
  by (auto simp: no_switch_def run_process_def split: prod.splits)

lemma no_switch_bind:
  assumes "no_switch m" "\<And>x. no_switch (f x)" shows "no_switch (script_bind m f)"
  unfolding no_switch_def
proof (intro allI impI)
  fix l l' r
  assume b: "script_bind m f l = (l', r)"
  obtain l1 r1 where m: "m l = (l1, r1)" using prod.exhaust by blast
  obtain new1 where 1: "l1 = l @ new1" "\<forall>c \<in> set new1. \<not> is_switch c" using no_switchD [OF assms(1) m] .
  show "\<exists>new. l' = l @ new \<and> (\<forall>c \<in> set new. \<not> is_switch c)"
  proof (cases r1)
    case (Inl e)
    with b m 1 show ?thesis by (auto simp: script_bind_def)
  next
    case (Inr x)
    with b m have "f x l1 = (l', r)" by (simp add: script_bind_def)
    with no_switchD [OF assms(2)] obtain new2 where "l' = l1 @ new2" "\<forall>c \<in> set new2. \<not> is_switch c" by metis
    with 1 show ?thesis by (intro exI [of _ "new1 @ new2"]) auto
  qed
qed

lemma no_switch_look: "(\<And>l. no_switch (f l)) \<Longrightarrow> no_switch (script_look f)"
  unfolding no_switch_def script_look_def by blast

lemma no_switch_benchmark: "no_switch (run_benchmark w bin_dir out_dir out_file n sw build)"
  unfolding run_benchmark_def
  by (intro no_switch_bind no_switch_look) (auto split: list.split intro!: no_switch_bind no_switch_run simp: is_switch_def)

definition put_back :: "world \<Rightarrow> log \<Rightarrow> log \<Rightarrow> bool" where
  "put_back w l new \<longleftrightarrow>
     filter is_switch new = [] \<or>
     (\<exists>before h. new = before @ [[''git'', ''switch'', ''--detach'', h]] \<and> filter is_switch before = [] \<and>
        fst (outcome_of w (l @ before) [''git'', ''switch'', ''--detach'', h]) \<noteq> 0) \<or>
     (\<exists>asked between h. let head = [''git'', ''rev-parse'', ''--abbrev-ref'', ''HEAD''] in
        new = asked @ [head, [''git'', ''switch'', ''--detach'', h]] @ between @ [[''git'', ''switch'', strip (snd (outcome_of w (l @ asked) head))]] \<and>
        filter is_switch (asked @ between) = [])"

lemma run_process_cases:
  obtains (fails) "fst (outcome_of w l cmd) \<noteq> 0" "run_process w cmd l = (l @ [cmd], Inl (CalledProcessError (fst (outcome_of w l cmd))))"
  | (succeeds) "fst (outcome_of w l cmd) = 0" "run_process w cmd l = (l @ [cmd], Inr (snd (outcome_of w l cmd)))"
  by (cases "fst (outcome_of w l cmd) = 0") (simp_all add: run_process_def case_prod_beta)

lemma put_back_prefix:
  assumes "put_back w (l @ pre) new" "filter is_switch pre = []" shows "put_back w l (pre @ new)"
  using assms(1) [unfolded put_back_def]
proof (elim disjE exE conjE)
  assume "filter is_switch new = []"
  then show ?thesis using assms(2) by (simp add: put_back_def)
next
  fix before h
  assume "new = before @ [[''git'', ''switch'', ''--detach'', h]]" "filter is_switch before = []"
    "fst (outcome_of w ((l @ pre) @ before) [''git'', ''switch'', ''--detach'', h]) \<noteq> 0"
  then show ?thesis using assms(2) unfolding put_back_def
    by (intro disjI2 disjI1 exI [of _ "pre @ before"] exI [of _ h]) simp
next
  fix asked between h
  assume "let head = [''git'', ''rev-parse'', ''--abbrev-ref'', ''HEAD''] in
        new = asked @ [head, [''git'', ''switch'', ''--detach'', h]] @ between @
          [[''git'', ''switch'', strip (snd (outcome_of w ((l @ pre) @ asked) head))]] \<and> filter is_switch (asked @ between) = []"
  then show ?thesis using assms(2) unfolding put_back_def Let_def
    by (intro disjI2 exI [of _ "pre @ asked"] exI [of _ between] exI [of _ h]) simp
qed

lemma git_switch_puts_back:
  assumes "git_switch w ref body l = (l', r)" "no_switch body"
  shows "\<exists>new. l' = l @ new \<and> put_back w l new"
proof -
  let ?head = "[''git'', ''rev-parse'', ''--abbrev-ref'', ''HEAD'']" and ?detach = "[''git'', ''switch'', ''--detach'', ref]"
  have h: "\<not> is_switch ?head" by (simp add: is_switch_def)
  show ?thesis
  proof (cases rule: run_process_cases [of w l ?head])
    case fails
    with assms(1) have "l' = l @ [?head]" by (simp add: git_switch_def script_bind_def)
    with h show ?thesis by (auto simp: put_back_def)
  next
    case asked: succeeds
    let ?home = "[''git'', ''switch'', strip (snd (outcome_of w l ?head))]"
    show ?thesis
    proof (cases rule: run_process_cases [of w "l @ [?head]" ?detach])
      case fails
      with assms(1) asked have "l' = l @ [?head] @ [?detach]" by (simp add: git_switch_def script_bind_def)
      moreover have "put_back w l ([?head] @ [?detach])"
        using h fails(1) unfolding put_back_def by (intro disjI2 disjI1 exI [of _ "[?head]"] exI [of _ ref]) simp
      ultimately show ?thesis by blast
    next
      case succeeds
      obtain l2 r2 where body: "body (l @ [?head, ?detach]) = (l2, r2)" using prod.exhaust by blast
      obtain mid where mid: "l2 = (l @ [?head, ?detach]) @ mid" "\<forall>c \<in> set mid. \<not> is_switch c"
        using no_switchD [OF assms(2) body] .
      have "l' = l2 @ [?home]"
        using assms(1) asked succeeds body
        by (cases rule: run_process_cases [of w l2 ?home]) (auto simp: git_switch_def script_bind_def Let_def split: prod.splits)
      with mid(1) have l': "l' = l @ [] @ [?head, ?detach] @ mid @ [?home]" by simp
      have "put_back w l ([] @ [?head, ?detach] @ mid @ [?home])"
        using mid(2) unfolding put_back_def Let_def
        by (intro disjI2 exI [of _ "[]"] exI [of _ mid] exI [of _ ref]) simp
      with l' show ?thesis by blast
    qed
  qed
qed

text \<open>Whatever the programs return, \<^verbatim>\<open>benchmark_commit\<close> either does not switch, or its only switch fails and
  nothing runs after it, or the last command is the switch back to the head that was reported before:
  also when the configuration, the build or the benchmark fails.\<close>

lemma commit_puts_back:
  assumes "benchmark_commit w ref preset out_dir definitions n sw l = (l', r)"
  shows "\<exists>new. l' = l @ new \<and> put_back w l new"
proof -
  let ?ask = "[''git'', ''rev-parse'', ref]"
  have a: "filter is_switch [?ask] = []" by (simp add: is_switch_def)
  show ?thesis
  proof (cases rule: run_process_cases [of w l ?ask])
    case fails
    with assms have "l' = l @ [?ask]" by (simp add: benchmark_commit_def script_bind_def)
    with a show ?thesis by (auto simp: put_back_def)
  next
    case succeeds
    let ?hash = "strip (snd (outcome_of w l ?ask))"
    let ?out = "path_join out_dir (?hash @ ''.json'')"
    show ?thesis
    proof (cases "file_exists w (l @ [?ask]) ?out")
      case True
      with assms succeeds have "l' = l @ [?ask]"
        by (simp add: benchmark_commit_def script_bind_def script_look_def script_return_def Let_def)
      with a show ?thesis by (auto simp: put_back_def)
    next
      case False
      let ?body = "commit_body w preset out_dir ?out definitions n sw"
      have "no_switch ?body"
        unfolding commit_body_def Let_def by (intro no_switch_bind no_switch_run no_switch_benchmark) (simp add: is_switch_def)
      moreover obtain l2 r2 where g: "git_switch w ?hash ?body (l @ [?ask]) = (l2, r2)" using prod.exhaust by blast
      ultimately obtain new where "l2 = (l @ [?ask]) @ new" "put_back w (l @ [?ask]) new" using git_switch_puts_back by blast
      moreover have "l' = l2"
        using assms succeeds False g
        by (cases r2) (auto simp: benchmark_commit_def script_bind_def script_look_def script_return_def Let_def)
      ultimately show ?thesis using put_back_prefix [OF _ a] by (metis append.assoc)
    qed
  qed
qed

lemma summary_output_log: "summary_output sf c js f g out l = (l', r) \<Longrightarrow> l' = l"
  by (auto simp: summary_output_def script_return_def script_look_def script_raise_def split: option.splits sum.splits)

text \<open>C38: a comparison of two commits benchmarks one after the other and then runs the comparison script, and
  each of the two either does not switch, or its only switch fails and nothing runs after it, or its last command
  is the switch back to the head that was reported before it switched: also when the configuration,
  the build, the benchmark or the comparison fails. The script itself never switches, and it runs only after
  both have succeeded.\<close>

theorem benchmark_puts_back:
  assumes "benchmark_compare w show_float circle json_of python compare ref1 ref2 preset out_dir definitions n sw
      out_json out_report out_summary l = (l', r)" and "python \<noteq> ''git''"
  shows "\<exists>new1 new2 rest. l' = l @ new1 @ new2 @ rest \<and> put_back w l new1 \<and> put_back w (l @ new1) new2 \<and>
    filter is_switch rest = [] \<and> (rest \<noteq> [] \<longrightarrow> isl (snd (benchmark_commit w ref1 preset out_dir definitions n sw l)) = False \<and>
      isl (snd (benchmark_commit w ref2 preset out_dir definitions n sw (l @ new1))) = False)"
proof -
  let ?commit = "\<lambda>ref. benchmark_commit w ref preset out_dir definitions n sw"
  obtain l1 r1 where c1: "?commit ref1 l = (l1, r1)" using prod.exhaust by blast
  then obtain new1 where n1: "l1 = l @ new1" "put_back w l new1" using commit_puts_back by blast
  show ?thesis
  proof (cases r1)
    case (Inl e)
    then have "l' = l1" using assms(1) c1 by (simp add: benchmark_compare_def benchmark_both_def script_bind_def Let_def)
    then show ?thesis using n1 by - (rule exI [of _ new1], rule exI [of _ "[]"], rule exI [of _ "[]"], simp add: put_back_def)
  next
    case f1: (Inr file1)
    obtain l2 r2 where c2: "?commit ref2 l1 = (l2, r2)" using prod.exhaust by blast
    then obtain new2 where n2: "l2 = l1 @ new2" "put_back w l1 new2" using commit_puts_back by blast
    show ?thesis
    proof (cases r2)
      case (Inl e)
      then have "l' = l2" using assms(1) c1 c2 f1 by (simp add: benchmark_compare_def benchmark_both_def script_bind_def Let_def)
      then show ?thesis using n1 n2 by - (rule exI [of _ new1], rule exI [of _ new2], rule exI [of _ "[]"], simp)
    next
      case f2: (Inr file2)
      obtain cmd where cmd: "l' = l2 @ [cmd]" "\<not> is_switch cmd"
      proof -
        let ?json = "case out_json of Some f \<Rightarrow> f | None \<Rightarrow> path_join out_dir (ref1 @ ''_'' @ ref2 @ ''.json'')"
        let ?cmd = "compare_command python compare ?json out_report file1 file2"
        have "l' = l2 @ [?cmd]"
          using assms(1) c1 c2 f1 f2 summary_output_log
          by (cases rule: run_process_cases [of w l2 ?cmd])
            (auto simp: benchmark_compare_def benchmark_both_def script_bind_def script_return_def Let_def)
        moreover have "\<not> is_switch ?cmd" using assms(2) by (simp add: is_switch_def compare_command_def)
        ultimately show thesis by (rule that)
      qed
      then show ?thesis using n1 n2 c1 c2 f1 f2 by - (rule exI [of _ new1], rule exI [of _ new2], rule exI [of _ "[cmd]"], simp)
    qed
  qed
qed

definition failing_build :: world where
  "failing_build = \<lparr>outcome_of = (\<lambda>l c. if take 1 c = [''cmake''] then (1, []) else (0, ''main'' @ [CHR 0x0A])),
     file_exists = (\<lambda>_ _. False), can_make_dir = (\<lambda>_ _. True)\<rparr>"

theorem benchmark_puts_back_witness:
  "\<exists>l' new1 new2 rest. benchmark_compare failing_build (\<lambda>_ _. []) (\<lambda>_. []) (\<lambda>_ _. Inr []) ''python3'' ''compare.py'' ''v1'' ''v2'' ''ci'' ''out'' []
       10 False None None None [] = (l', Inl (CalledProcessError 1)) \<and>
     last l' = [''git'', ''switch'', ''main''] \<and> l' = new1 @ new2 @ rest \<and> put_back failing_build [] new1"
proof -
  have b: "benchmark_compare failing_build (\<lambda>_ _. []) (\<lambda>_. []) (\<lambda>_ _. Inr []) ''python3'' ''compare.py'' ''v1'' ''v2'' ''ci'' ''out'' []
       10 False None None None [] =
     ([[''git'', ''rev-parse'', ''v1''], [''git'', ''rev-parse'', ''--abbrev-ref'', ''HEAD''], [''git'', ''switch'', ''--detach'', ''main''],
       [''cmake'', ''--preset'', ''ci'', ''-B'', ''build/ci'', ''-DTEIDE_BUILD_TESTS=OFF'', ''-DTEIDE_BUILD_EXAMPLES=OFF''],
       [''git'', ''switch'', ''main'']], Inl (CalledProcessError 1))" by code_simp
  then obtain l' where l: "benchmark_compare failing_build (\<lambda>_ _. []) (\<lambda>_. []) (\<lambda>_ _. Inr []) ''python3'' ''compare.py'' ''v1'' ''v2'' ''ci''
       ''out'' [] 10 False None None None [] = (l', Inl (CalledProcessError 1))" "last l' = [''git'', ''switch'', ''main'']" by simp
  have "''python3'' \<noteq> ''git''" by simp
  from benchmark_puts_back [OF l(1) this] l show ?thesis unfolding append_Nil by blast
qed

section \<open>The table is straight\<close>

lemma column_widths_fit:
  "rows \<noteq> [] \<Longrightarrow> \<forall>r \<in> set rows. length r = n \<Longrightarrow>
     length (column_widths rows) = n \<and> (\<forall>r \<in> set rows. list_all2 (\<lambda>c w. length c \<le> w) r (column_widths rows))"
proof (induction rows rule: column_widths.induct)
  case (2 r)
  then show ?case by (simp add: list_all2_conv_all_nth)
next
  case (3 r r' rows)
  let ?w = "column_widths (r' # rows)"
  have IH: "length ?w = n" "\<forall>q \<in> set (r' # rows). list_all2 (\<lambda>c w. length c \<le> w) q ?w" using 3 by simp_all
  have w: "column_widths (r # r' # rows) = map2 max (map length r) ?w" by simp
  have "list_all2 (\<lambda>c w. length c \<le> w) q (map2 max (map length r) ?w)" if "q \<in> set (r # r' # rows)" for q
    using that IH 3(3) by (auto simp: list_all2_conv_all_nth le_max_iff_disj)
  moreover have "length (map2 max (map length r) ?w) = n" using IH(1) 3(3) by simp
  ultimately show ?case unfolding w by blast
qed simp

lemma pad_row_lengths:
  "list_all2 (\<lambda>c w. length c \<le> w) r widths \<Longrightarrow> map length (pad_row widths r) = widths"
  by (induction rule: list_all2_induct) (simp_all add: pad_row_def ljust_def)

lemma join_length: "cells \<noteq> [] \<Longrightarrow> length (py_join '' | '' cells) = sum_list (map length cells) + 3 * (length cells - 1)"
proof (induction cells)
  case (Cons c cells)
  then show ?case by (cases cells) (simp_all add: py_join_Cons)
qed simp

text \<open>C39: in the table every line has the same length; each row, the header too, is printed with its cells
  filled up to the width of their column, which no cell exceeds.\<close>

theorem summary_table_straight:
  assumes "\<forall>r \<in> set rows. length r = 5"
  shows "\<exists>widths. length widths = 5 \<and>
    (\<forall>r \<in> set (headers # rows). list_all2 (\<lambda>c w. length c \<le> w) r widths \<and> table_line (pad_row widths r) \<in> set (summary_table rows)) \<and>
    (\<forall>line \<in> set (summary_table rows). length line = sum_list widths + 16)"
proof -
  let ?w = "column_widths (headers # rows)"
  have five: "\<forall>r \<in> set (headers # rows). length r = 5" using assms by (simp add: headers_def)
  have fit: "length ?w = 5" "\<And>r. r \<in> set (headers # rows) \<Longrightarrow> list_all2 (\<lambda>c w. length c \<le> w) r ?w"
    using column_widths_fit [OF _ five] by blast+
  have dashes: "list_all2 (\<lambda>c w. length c \<le> w) (map (\<lambda>w. replicate w CHR ''-'') ?w) ?w" by (simp add: list_all2_conv_all_nth)
  have lines: "set (summary_table rows) =
      (\<lambda>r. table_line (pad_row ?w r)) ` (insert (map (\<lambda>w. replicate w CHR ''-'') ?w) (set (headers # rows)))"
    by (auto simp: summary_table_def Let_def)
  have len: "length (table_line (pad_row ?w r)) = sum_list ?w + 16" if "list_all2 (\<lambda>c w. length c \<le> w) r ?w" for r
  proof -
    have m: "map length (pad_row ?w r) = ?w" using that by (rule pad_row_lengths)
    then have five': "length (pad_row ?w r) = 5" using fit(1) by (metis length_map)
    then have ne: "pad_row ?w r \<noteq> []" by (metis length_0_conv zero_neq_numeral)
    have "length (py_join '' | '' (pad_row ?w r)) = sum_list ?w + 3 * (5 - 1)" unfolding join_length [OF ne] m five' ..
    then show ?thesis unfolding table_line_def by simp
  qed
  show ?thesis
  proof (intro exI conjI ballI)
    show "length ?w = 5" by (rule fit(1))
    fix r assume r: "r \<in> set (headers # rows)"
    then show "list_all2 (\<lambda>c w. length c \<le> w) r ?w" by (rule fit(2))
    show "table_line (pad_row ?w r) \<in> set (summary_table rows)" unfolding lines using r by (intro imageI insertI2)
  next
    fix line assume "line \<in> set (summary_table rows)"
    then obtain r where r: "line = table_line (pad_row ?w r)" "r = map (\<lambda>w. replicate w CHR ''-'') ?w \<or> r \<in> set (headers # rows)"
      unfolding lines by (elim imageE insertE) simp_all
    from r(2) have "list_all2 (\<lambda>c w. length c \<le> w) r ?w" using dashes fit(2) by (elim disjE) (simp_all only:)
    with len r(1) show "length line = sum_list ?w + 16" by (simp only:)
  qed
qed

theorem summary_table_straight_witness:
  "\<exists>k. \<forall>line \<in> set (summary_table [[''A/1'', ''o 3.00% faster'', ''10ms'', ''9ms'', ''0.0100'']]). length line = k"
  using summary_table_straight [of "[[''A/1'', ''o 3.00% faster'', ''10ms'', ''9ms'', ''0.0100'']]"] by auto

end
