(* ===== verification/Maintenance.thy ===== *)
theory Maintenance
  imports PyText
begin

text \<open>
  Three small scripts: \<^verbatim>\<open>src/tools/update_references.py\<close> makes the images of render tests the new reference
  images if all test runs agree on them; \<^verbatim>\<open>src/tools/check_readme.py\<close> runs the build commands of the
  readme; \<^verbatim>\<open>src/tools/update_packages.py\<close> moves the baseline of the packages. Directories are association
  lists from file names to contents; the hash function and the programs that are run are parameters.
\<close>

section \<open>Reference images\<close>

type_synonym files = "(string \<times> string) list"

definition make_fileset :: "files \<Rightarrow> string set" where
  "make_fileset d = fst ` set d"

fun all_same :: "'a list \<Rightarrow> bool" where
  "all_same [] \<longleftrightarrow> True"
| "all_same (x # xs) \<longleftrightarrow> (\<forall>y \<in> set xs. y = x)"

text \<open>The content of a file that is there.\<close>

definition hash_file :: "(string \<Rightarrow> string) \<Rightarrow> files \<Rightarrow> string \<Rightarrow> string res" where
  "hash_file md5 d name = (case map_of d name of None \<Rightarrow> Inl FileNotFoundError | Some content \<Rightarrow> Inr (md5 content))"

text \<open>\<^verbatim>\<open>Path.stem\<close>: without what begins with the last dot, if that is neither the first nor the last character.\<close>

definition path_stem :: "string \<Rightarrow> string" where
  "path_stem name =
     (case before_last ''.'' name of
        None \<Rightarrow> name
      | Some t \<Rightarrow> if t \<noteq> [] \<and> length t < length name - 1 then t else name)"

definition is_output_dir :: "string \<Rightarrow> bool" where
  "is_output_dir name \<longleftrightarrow> prefix ''RenderTestOutput-'' (path_stem name)"

definition image_suffix :: string where
  "image_suffix = ''.out.png''"

definition reference_name :: "string \<Rightarrow> string" where
  "reference_name name =
     (if suffix image_suffix name then take (length name - length image_suffix) name else name) @ ''.png''"

definition same_images :: "(string \<Rightarrow> string) \<Rightarrow> files list \<Rightarrow> string \<Rightarrow> unit \<Rightarrow> unit res" where
  "same_images md5 dirs name _ =
     rbind (for_each (\<lambda>d hs. rbind (hash_file md5 d name) (\<lambda>h. Inr (hs @ [h]))) dirs []) (\<lambda>hashes.
     if all_same hashes then Inr () else Inl (SystemExit 1))"

definition copy_image :: "files \<Rightarrow> string \<Rightarrow> files \<Rightarrow> files res" where
  "copy_image source name refs =
     (case map_of source name of
        None \<Rightarrow> Inl FileNotFoundError
      | Some content \<Rightarrow> Inr (AList.update (reference_name name) content refs))"

definition update_references :: "(string \<Rightarrow> string) \<Rightarrow> (string \<times> files) list \<Rightarrow> files \<Rightarrow> files res" where
  "update_references md5 output_dir reference_dir =
     (case map snd (filter (\<lambda>x. is_output_dir (fst x)) output_dir) of
        [] \<Rightarrow> Inl (SystemExit 1)
      | d # ds \<Rightarrow>
          if \<not> all_same (map make_fileset (d # ds)) then Inl (SystemExit 1)
          else
            let out_images = filter (suffix image_suffix) (map fst d) in
            rbind (for_each (same_images md5 (d # ds)) out_images ()) (\<lambda>_.
            for_each (copy_image d) out_images reference_dir))"

section \<open>The commands of the readme\<close>

record readme_state =
  is_building_section :: bool
  platform_name :: "string option"
  last_line :: string
  printed_lines :: "string list"
  executed :: "string list"

definition is_hr :: "string \<Rightarrow> bool" where
  "is_hr line \<longleftrightarrow> line \<noteq> [] \<and> (\<forall>c \<in> set line. c = CHR ''-'' \<or> c = CHR ''='')"

definition print_readme :: "string \<Rightarrow> readme_state \<Rightarrow> readme_state" where
  "print_readme t s = s\<lparr>printed_lines := printed_lines s @ [t]\<rparr>"

definition hr_line :: "nat \<Rightarrow> readme_state \<Rightarrow> readme_state" where
  "hr_line i s =
     (let s = (if last_line s = ''Building'' then print_readme (''Found Building section on line '' @ show_int (int i)) s
               else if is_building_section s then print_readme (''Leaving Building section on line '' @ show_int (int i)) s
               else s)
      in s\<lparr>is_building_section := last_line s = ''Building''\<rparr>)"

text \<open>What follows the first dollar sign, up to the next.\<close>

definition readme_command :: "string \<Rightarrow> string" where
  "readme_command line = strip (py_split CHR ''$'' line ! 1)"

text \<open>\<open>run\<close> gives the return code of a command line; whether the check goes on.\<close>

definition command_line :: "string \<Rightarrow> (string \<Rightarrow> int) \<Rightarrow> nat \<Rightarrow> string \<Rightarrow> readme_state \<Rightarrow> readme_state \<times> bool" where
  "command_line platform run i line s =
     (let cmd = readme_command line;
          s = print_readme (''Found command `'' @ cmd @ ''` for platform ''
                @ (case platform_name s of None \<Rightarrow> ''None'' | Some p \<Rightarrow> p) @ '' on line '' @ show_int (int i + 1)) s
      in if platform_name s \<noteq> Some platform then (s, True)
         else
           let s = (print_readme ''Executing...'' s)\<lparr>executed := executed s @ [cmd]\<rparr> in
           if run cmd \<noteq> 0
           then (print_readme ([CHR 0x0A] @ ''Readme is out of date! The command `'' @ cmd @ ''` on line '' @ show_int (int i + 1)
                   @ '' failed to execute.'') s, False)
           else (s, True))"

definition readme_line :: "string \<Rightarrow> (string \<Rightarrow> int) \<Rightarrow> nat \<Rightarrow> string \<Rightarrow> readme_state \<Rightarrow> readme_state \<times> bool" where
  "readme_line platform run i line s =
     (case (if is_hr line then (hr_line i s, True)
            else if \<not> is_building_section s then (s, True)
            else if prefix ''**Windows**:'' line
            then (print_readme (''Setting platform to Windows on line '' @ show_int (int i + 1)) (s\<lparr>platform_name := Some ''Windows''\<rparr>), True)
            else if prefix ''**Linux**:'' line
            then (print_readme (''Setting platform to Linux on line '' @ show_int (int i + 1)) (s\<lparr>platform_name := Some ''Linux''\<rparr>), True)
            else if prefix ''    $'' line then command_line platform run i line s
            else (s, True)) of
        (s, go_on) \<Rightarrow> (s\<lparr>last_line := line\<rparr>, go_on))"

text \<open>The lines from number \<open>i\<close> on, without the white space at their ends.\<close>

fun check_lines :: "string \<Rightarrow> (string \<Rightarrow> int) \<Rightarrow> nat \<Rightarrow> string list \<Rightarrow> readme_state \<Rightarrow> readme_state \<times> unit res" where
  "check_lines platform run i [] s = (s, Inr ())"
| "check_lines platform run i (line # rest) s =
     (case readme_line platform run i (rstrip line) s of
        (s, go_on) \<Rightarrow> if go_on then check_lines platform run (Suc i) rest s else (s, Inl (SystemExit 1)))"

definition check_readme :: "string \<Rightarrow> (string \<Rightarrow> int) \<Rightarrow> string list \<Rightarrow> readme_state \<times> unit res" where
  "check_readme platform run readme =
     check_lines platform run 0 readme
       \<lparr>is_building_section = False, platform_name = None, last_line = [], printed_lines = [], executed = []\<rparr>"

section \<open>The baseline of the packages\<close>

text \<open>A \<^verbatim>\<open>git\<close> command and the directory it runs in; what it prints depends on the commands before.\<close>

type_synonym git_log = "(string list \<times> string option) list"

definition git :: "(git_log \<Rightarrow> string list \<times> string option \<Rightarrow> string) \<Rightarrow> string list \<Rightarrow> string option \<Rightarrow> git_log \<Rightarrow> git_log \<times> string" where
  "git output args cwd l = (l @ [(''git'' # args, cwd)], rstrip (output l (''git'' # args, cwd)))"

definition modify_json :: "string \<Rightarrow> (string \<times> string) list \<Rightarrow> (string \<times> string) list" where
  "modify_json new_commit contents = AList.update ''builtin-baseline'' new_commit contents"

definition update_packages ::
  "(git_log \<Rightarrow> string list \<times> string option \<Rightarrow> string) \<Rightarrow> (string \<times> string) list
     \<Rightarrow> git_log \<times> (string \<times> string) list \<times> string list" where
  "update_packages output vcpkg_json =
     (let vcpkg_dir = Some ''external/vcpkg'';
          (l, old_release) = git output [''describe'', ''--tags''] vcpkg_dir [];
          (l, old_commit) = git output [''rev-parse'', ''HEAD''] vcpkg_dir l;
          (l, _) = git output [''switch'', ''master''] vcpkg_dir l;
          (l, _) = git output [''pull''] vcpkg_dir l;
          (l, new_release) = git output [''describe'', ''--tags'', ''--abbrev=0''] vcpkg_dir l;
          (l, _) = git output [''switch'', ''--detach'', new_release] None l;
          (l, new_commit) = git output [''rev-parse'', ''HEAD''] vcpkg_dir l
      in if old_commit \<noteq> new_commit
         then (l, modify_json new_commit vcpkg_json,
               [''Updated vcpkg from '' @ old_release @ '' to '' @ new_release, ''Baseline is now '' @ new_commit])
         else (l, vcpkg_json, []))"

text \<open>
  The switch to the new release is run where the script runs, not in the directory of \<^verbatim>\<open>vcpkg\<close>:
  the one command of the seven whose directory is left out.
\<close>

lemma update_packages_directories:
  "map snd (fst (update_packages output vcpkg_json)) =
     replicate 5 (Some ''external/vcpkg'') @ [None, Some ''external/vcpkg'']"
  by (simp add: update_packages_def git_def Let_def numeral_eq_Suc)

section \<open>What becomes a reference\<close>

lemma all_same_iff: "all_same xs \<longleftrightarrow> (\<forall>x \<in> set xs. \<forall>y \<in> set xs. x = y)"
proof (cases xs)
  case (Cons a ys)
  then show ?thesis by simp metis
qed simp

lemma collect_hashes:
  "for_each (\<lambda>d hs. rbind (hash_file md5 d name) (\<lambda>h. Inr (hs @ [h]))) dirs hs = Inr out \<Longrightarrow>
     (\<forall>d \<in> set dirs. \<exists>c. map_of d name = Some c \<and> md5 c \<in> set out) \<and> set hs \<subseteq> set out"
proof (induction dirs arbitrary: hs)
  case (Cons d dirs)
  then obtain h where "hash_file md5 d name = Inr h"
      "for_each (\<lambda>d hs. rbind (hash_file md5 d name) (\<lambda>h. Inr (hs @ [h]))) dirs (hs @ [h]) = Inr out"
    by (auto simp: rbind_assoc elim!: rbind_InrE)
  with Cons.IH [OF this(2)] show ?case by (auto simp: hash_file_def split: option.splits)
qed simp

lemma same_images_ok:
  assumes "for_each (same_images md5 dirs) names u = Inr v" "n \<in> set names" "d \<in> set dirs" "e \<in> set dirs"
  shows "\<exists>b c. map_of d n = Some b \<and> map_of e n = Some c \<and> md5 b = md5 c"
  using assms(1,2)
proof (induction names arbitrary: u)
  case (Cons m names)
  from Cons.prems(1) obtain w where w: "same_images md5 dirs m u = Inr w" "for_each (same_images md5 dirs) names w = Inr v"
    by (auto elim!: rbind_InrE)
  show ?case
  proof (cases "n = m")
    case True
    from w(1) obtain hs where "for_each (\<lambda>d hs. rbind (hash_file md5 d n) (\<lambda>h. Inr (hs @ [h]))) dirs [] = Inr hs" "all_same hs"
      by (auto simp: same_images_def True split: if_splits elim!: rbind_InrE)
    with collect_hashes [OF this(1)] assms(3,4) show ?thesis unfolding all_same_iff by blast
  qed (use Cons.IH [OF w(2)] Cons.prems(2) in simp)
qed simp

lemma reference_name_inj:
  "suffix image_suffix m \<Longrightarrow> suffix image_suffix n \<Longrightarrow> reference_name m = reference_name n \<Longrightarrow> m = n"
  by (auto simp: reference_name_def suffix_def)

lemma copy_images:
  assumes "for_each (copy_image d) names refs = Inr refs'" "\<forall>n \<in> set names. suffix image_suffix n"
  shows "(\<forall>n \<in> set names. map_of refs' (reference_name n) = map_of d n) \<and>
    (\<forall>f. f \<notin> reference_name ` set names \<longrightarrow> map_of refs' f = map_of refs f)"
  using assms
proof (induction names arbitrary: refs)
  case (Cons m names)
  from Cons.prems(1) obtain r where r: "copy_image d m refs = Inr r" "for_each (copy_image d) names r = Inr refs'"
    by (auto elim!: rbind_InrE)
  from r(1) obtain c where "map_of d m = Some c" "r = AList.update (reference_name m) c refs"
    by (auto simp: copy_image_def split: option.splits)
  with r(2) have c: "map_of d m = Some c" "for_each (copy_image d) names (AList.update (reference_name m) c refs) = Inr refs'"
    by simp_all
  have IH: "\<forall>n \<in> set names. map_of refs' (reference_name n) = map_of d n"
    "\<forall>f. f \<notin> reference_name ` set names \<longrightarrow> map_of refs' f = ((map_of refs)(reference_name m \<mapsto> c)) f"
    using Cons.IH [OF c(2)] Cons.prems(2) by simp_all
  have "map_of refs' (reference_name m) = map_of d m"
  proof (cases "m \<in> set names")
    case False
    then have "reference_name m \<notin> reference_name ` set names"
      using reference_name_inj [of m] Cons.prems(2) by (metis imageE list.set_intros)
    with IH(2) c(1) show ?thesis by simp
  qed (use IH(1) in simp)
  with IH show ?case by auto
qed simp



end
